(* ===== verification/Kprelude.thy ===== *)
theory Kprelude
  imports Main "HOL-Library.Word"
begin

unbundle bit_operations_syntax

text \<open>
  Shared vocabulary of the development: machine types, error numbers, the result type of a
  kernel operation with its sequencing operator, page arithmetic, byte memory, the
  proof collections, and the generic lemmas on lists, maps and words the components use.

  A C function that may fail an assertion, dereference a pointer to nothing, or give up the
  processor for good is a function from a state to a \<open>kres\<close>: \<open>Ret v s\<close> returns \<open>v\<close> in state \<open>s\<close>,
  \<open>Gone s\<close> leaves the calling thread for good with the kernel in state \<open>s\<close>, and \<open>Stop r\<close> is the
  end of the run. A use of freed memory is a \<open>BAD_POINTER\<close>. \<open>OUT_OF_FUEL\<close> and \<open>NOT_FOLLOWED\<close> are not behaviours of the
  code: the first marks an exhausted bound of the model; the second marks where the code goes on and the model does not:
  the removal of a link from a list that an earlier insertion has damaged, and the walk along such a list that has no
  end (theories \<open>Vmmap\<close> and \<open>Pframe\<close>).
\<close>

section \<open>Machine types, error numbers\<close>

type_synonym u32 = "32 word"
type_synonym u8 = "8 word"
type_synonym ptr = nat

text \<open>
  The error numbers the sources name. A C result that is zero or an error is \<open>errno + 'a\<close>, with
  \<open>Inl e\<close> for the returned \<open>-e\<close>; \<open>EMINUS1\<close> is the bare \<open>-1\<close> that several functions return in
  place of an error number.
\<close>

datatype errno =
    EMINUS1 | ENOENT | EINTR | ENXIO | EBADF | ECHILD | ENOMEM | EFAULT | EBUSY | EEXIST
  | ENODEV | ENOTDIR | EISDIR | EINVAL | EMFILE | ENAMETOOLONG | ENOSYS | ENOTEMPTY | ENOTSUP

section \<open>Results of kernel operations\<close>

datatype kstop = KASSERT_failed | PANIC | BAD_POINTER | OUT_OF_FUEL | NOT_FOLLOWED

datatype ('a, 's) kres = Ret 'a 's | Gone 's | Stop kstop

primrec bindK :: "('a, 's) kres \<Rightarrow> ('a \<Rightarrow> 's \<Rightarrow> ('b, 's) kres) \<Rightarrow> ('b, 's) kres" where
  "bindK (Ret a s) f = f a s"
| "bindK (Gone s) f = Gone s"
| "bindK (Stop r) f = Stop r"

named_theorems kres_simps \<open>inversion of sequenced kernel operations\<close>
named_theorems frame_simps \<open>what an operation leaves unchanged\<close>

lemma bindK_eq_Ret [kres_simps]:
  "bindK m f = Ret b s' \<longleftrightarrow> (\<exists>a s. m = Ret a s \<and> f a s = Ret b s')"
  by (cases m) auto

lemma bindK_eq_Stop [kres_simps]:
  "bindK m f = Stop r \<longleftrightarrow> m = Stop r \<or> (\<exists>a s. m = Ret a s \<and> f a s = Stop r)"
  by (cases m) auto

lemma bindK_assoc: "bindK (bindK m f) g = bindK m (\<lambda>a s. bindK (f a s) g)"
  by (cases m) auto

lemma bindK_cong [fundef_cong]:
  assumes "m = m'" and "\<And>a s. m' = Ret a s \<Longrightarrow> f a s = f' a s"
  shows "bindK m f = bindK m' f'"
  using assms by (cases m') auto

text \<open>The assertion macro of the kernel and the dereference of a pointer.\<close>

definition kassert :: "bool \<Rightarrow> 's \<Rightarrow> (unit, 's) kres" where
  "kassert b s = (if b then Ret () s else Stop KASSERT_failed)"

definition deref :: "(ptr \<rightharpoonup> 'o) \<Rightarrow> ptr \<Rightarrow> 's \<Rightarrow> ('o, 's) kres" where
  "deref h p s = (case h p of None \<Rightarrow> Stop BAD_POINTER | Some x \<Rightarrow> Ret x s)"

lemma kassert_simps [simp]:
  "b \<Longrightarrow> kassert b s = Ret () s" "\<not> b \<Longrightarrow> kassert b s = Stop KASSERT_failed"
  by (simp_all add: kassert_def)

lemma kassert_eq_Ret [kres_simps]: "kassert b s = Ret u s' \<longleftrightarrow> b \<and> s' = s"
  by (auto simp: kassert_def)

lemma deref_Some [simp]: "h p = Some x \<Longrightarrow> deref h p s = Ret x s"
  by (simp add: deref_def)

lemma deref_None [simp]: "h p = None \<Longrightarrow> deref h p s = Stop BAD_POINTER"
  by (simp add: deref_def)

lemma deref_eq_Ret [kres_simps]: "deref h p s = Ret x s' \<longleftrightarrow> h p = Some x \<and> s' = s"
  by (auto simp: deref_def split: option.splits)

section \<open>Moving an element to the end of a list\<close>

lemma move_to_back:
  assumes "x \<in> set xs"
  shows "length (remove1 x xs @ [x]) = length xs"
    and "distinct xs \<Longrightarrow> set (remove1 x xs @ [x]) = set xs"
    and "distinct xs \<Longrightarrow> distinct (remove1 x xs @ [x])"
  using assms length_pos_if_in_set [OF assms] by (auto simp: length_remove1)

section \<open>Page arithmetic\<close>

text \<open>
  Pages are 4 KB (the comments of \<open>vmmap_read\<close> say so), so addresses and page numbers are
  related by shifts of 12 bits on 32-bit words.
\<close>

definition PAGE_SIZE :: u32 where "PAGE_SIZE = 4096"

definition ADDR_TO_PN :: "u32 \<Rightarrow> u32" where "ADDR_TO_PN a = drop_bit 12 a"

definition PN_TO_ADDR :: "u32 \<Rightarrow> u32" where "PN_TO_ADDR p = push_bit 12 p"

definition PAGE_OFFSET :: "u32 \<Rightarrow> u32" where "PAGE_OFFSET a = take_bit 12 a"

definition PAGE_ALIGNED :: "u32 \<Rightarrow> bool" where "PAGE_ALIGNED a \<longleftrightarrow> PAGE_OFFSET a = 0"

definition PAGE_ALIGN_DOWN :: "u32 \<Rightarrow> u32" where "PAGE_ALIGN_DOWN a = PN_TO_ADDR (ADDR_TO_PN a)"

lemma unat_ADDR_TO_PN: "unat (ADDR_TO_PN a) = unat a div 4096"
  by (simp add: ADDR_TO_PN_def unat_drop_bit_eq drop_bit_eq_div unat_div)

lemma unat_PAGE_OFFSET: "unat (PAGE_OFFSET a) = unat a mod 4096"
  by (simp add: PAGE_OFFSET_def unsigned_take_bit_eq take_bit_eq_mod unat_mod)

lemma PAGE_ALIGNED_iff: "PAGE_ALIGNED a \<longleftrightarrow> unat a mod 4096 = 0"
  by (simp add: PAGE_ALIGNED_def flip: unat_PAGE_OFFSET) (simp add: unat_eq_0)

lemma unat_PN_TO_ADDR: "unat p < 2 ^ 20 \<Longrightarrow> unat (PN_TO_ADDR p) = unat p * 4096"
  by (simp add: PN_TO_ADDR_def push_bit_eq_mult unat_word_ariths)

lemma unat_ADDR_TO_PN_less: "unat (ADDR_TO_PN a) < 2 ^ 20"
  using unsigned_less [of a, where ?'a = nat] by (simp add: unat_ADDR_TO_PN)

lemma ADDR_TO_PN_PN_TO_ADDR: "unat p < 2 ^ 20 \<Longrightarrow> ADDR_TO_PN (PN_TO_ADDR p) = p"
  by (rule word_unat_eq_iff [THEN iffD2]) (simp add: unat_ADDR_TO_PN unat_PN_TO_ADDR)

lemma ADDR_TO_PN_mono: "a \<le> b \<Longrightarrow> ADDR_TO_PN a \<le> ADDR_TO_PN b"
  by (simp add: word_le_nat_alt unat_ADDR_TO_PN div_le_mono)

lemma addr_decompose: "unat a = unat (ADDR_TO_PN a) * 4096 + unat (PAGE_OFFSET a)"
  by (simp add: unat_ADDR_TO_PN unat_PAGE_OFFSET)

section \<open>Build constants\<close>

text \<open>
  Constants of the headers, which are not part of the sources, are fields of a configuration
  that the operations take as a parameter.
\<close>

record kconfig =
  USER_MEM_LOW :: u32
  USER_MEM_HIGH :: u32
  MAP_SHARED :: u32
  MAP_PRIVATE :: u32
  MAP_FIXED :: u32
  MAP_ANON :: u32
  PROT_NONE :: u32
  PROT_READ :: u32
  PROT_WRITE :: u32
  PROT_EXEC :: u32
  FAULT_WRITE :: u32
  FAULT_RESERVED :: u32
  FAULT_EXEC :: u32
  PF_HASH_SIZE :: nat
  FMODE_READ :: u32
  FMODE_WRITE :: u32
  FMODE_APPEND :: u32
  O_CREAT :: u32
  SEEK_SET :: int
  SEEK_CUR :: int
  SEEK_END :: int
  NFILES :: nat
  MAXPATHLEN :: nat
  NAME_LEN :: nat
  DIRENT_SIZE :: nat
  DEFAULT_STACK_SIZE :: u32
  SIZEOF_REGS :: u32
  R_EAX_OFFSET :: u32
  PROC_MAX_COUNT :: nat
  PROC_NAME_LEN :: nat
  PID_IDLE :: int
  PID_INIT :: int
  errno_num :: "errno \<Rightarrow> nat"

abbreviation user_lo :: "kconfig \<Rightarrow> u32" where "user_lo c \<equiv> ADDR_TO_PN (USER_MEM_LOW c)"
abbreviation user_hi :: "kconfig \<Rightarrow> u32" where "user_hi c \<equiv> ADDR_TO_PN (USER_MEM_HIGH c)"

definition has_flag :: "u32 \<Rightarrow> u32 \<Rightarrow> bool" where
  "has_flag w f \<longleftrightarrow> w AND f = f"

lemma unat_user_hi: "unat (user_hi c) < 2 ^ 20"
  by (rule unat_ADDR_TO_PN_less)

text \<open>A page number converted to a C \<open>int\<close> keeps its value.\<close>

lemma sint_small:
  assumes "unat (w::u32) < 2 ^ 31"
  shows "sint w = int (unat w)"
proof -
  have u: "uint w = int (unat w)" by simp
  have "int (unat w) < int (2 ^ 31)" using assms by (simp only: of_nat_less_iff)
  then have "uint w < 2 ^ 31" unfolding u by simp
  then have "signed_take_bit 31 (uint w) = uint w"
    using signed_take_bit_int_eq_self [of 31 "uint w"] unsigned_greater_eq [of w, where ?'a = int] by simp
  then show ?thesis by (simp add: sint_uint)
qed

lemma sint_vfn: "unat (w::u32) < 2 ^ 20 \<Longrightarrow> sint w = int (unat w)"
  by (rule sint_small) simp

text \<open>The configuration that the examples are evaluated in.\<close>

definition example_cfg :: kconfig where
  "example_cfg = \<lparr>USER_MEM_LOW = 0x00400000, USER_MEM_HIGH = 0xC0000000,
     MAP_SHARED = 1, MAP_PRIVATE = 2, MAP_FIXED = 4, MAP_ANON = 8,
     PROT_NONE = 0, PROT_READ = 1, PROT_WRITE = 2, PROT_EXEC = 4,
     FAULT_WRITE = 2, FAULT_RESERVED = 8, FAULT_EXEC = 16, PF_HASH_SIZE = 17,
     FMODE_READ = 1, FMODE_WRITE = 2, FMODE_APPEND = 4, O_CREAT = 0x100,
     SEEK_SET = 0, SEEK_CUR = 1, SEEK_END = 2, NFILES = 4, MAXPATHLEN = 64, NAME_LEN = 8, DIRENT_SIZE = 16,
     DEFAULT_STACK_SIZE = 0x1000, SIZEOF_REGS = 64, R_EAX_OFFSET = 28, PROC_MAX_COUNT = 8, PROC_NAME_LEN = 8, PID_IDLE = 0, PID_INIT = 1,
     errno_num = (\<lambda>e. case e of EMINUS1 \<Rightarrow> 1 | _ \<Rightarrow> 22)\<rparr>"

lemma example_cfg_simps [simp]:
  "user_lo example_cfg = 0x400" "user_hi example_cfg = 0xC0000"
  by (simp_all add: example_cfg_def ADDR_TO_PN_def)

end
