(* ===== verification/Sched.thy ===== *)
theory Sched
  imports Kprelude
begin

text \<open>
  The scheduler of \<open>src/kernel/proc/sched.c\<close>: thread queues, sleep, wakeup, cancellation and the
  switch to the next runnable thread. A thread queue (\<open>ktqueue_t\<close>) is named by where it lives
  (\<open>qid\<close>): the run queue, or the wait queue embedded in a mutex, process, page frame or vnode.
  Intrusive lists are HOL lists from head to tail; \<open>kt_qlink\<close> records the list a thread's queue
  link is linked into.

  \<open>context_switch\<close> and \<open>intr_wait\<close> are not part of the sources and are parameters
  (\<open>sched_env\<close>). With \<open>switched\<close> for the former, an operation ends at the moment control
  passes to the next thread, which is the view of the step relation at the end.
\<close>

section \<open>State\<close>

datatype ktstate = KT_NO_STATE | KT_RUN | KT_SLEEP | KT_SLEEP_CANCELLABLE | KT_EXITED

datatype qid =
    RUNQ | KMUTEXQ ptr | PWAITQ ptr | PFWAITQ ptr | VNWAITQ ptr | PAGEOUTDQ | ALLOCQ

datatype ipl_t = IPL_LOW | IPL_HIGH | IPL_OTHER nat

record context_t =
  c_pdptr :: ptr
  c_eip :: nat
  c_esp :: u32
  c_kstack :: u32
  c_kstacksz :: u32

record kthread =
  kt_state :: ktstate
  kt_wchan :: "qid option"
  kt_qlink :: "qid option"
  kt_cancelled :: bool
  kt_retval :: u32
  kt_errno :: int
  kt_proc :: "ptr option"
  kt_kstack :: "u32 option"
  kt_ctx :: context_t

record ktqueue =
  tq_list :: "ptr list"
  tq_size :: int

record sched_state =
  threads :: "ptr \<rightharpoonup> kthread"
  queues :: "qid \<Rightarrow> ktqueue"
  curthr :: "ptr option"
  curproc :: "ptr option"
  ipl :: ipl_t

record 's sched_env =
  intr_wait :: "'s \<Rightarrow> 's"
  context_switch :: "'s \<Rightarrow> (unit, 's) kres"
  wait_fuel :: nat

lemma ktqueue_overwrite [simp]: "(k::ktqueue)\<lparr>tq_list := l, tq_size := n\<rparr> = \<lparr>tq_list = l, tq_size = n\<rparr>"
  by (cases k) simp

abbreviation qlist :: "'z sched_state_scheme \<Rightarrow> qid \<Rightarrow> ptr list" where
  "qlist s q \<equiv> tq_list (queues s q)"

definition thr_update ::
  "ptr \<Rightarrow> (kthread \<Rightarrow> kthread) \<Rightarrow> 'z sched_state_scheme \<Rightarrow> (unit, 'z sched_state_scheme) kres" where
  "thr_update p f s =
     bindK (deref (threads s) p s) (\<lambda>t s. Ret () (s\<lparr>threads := (threads s)(p \<mapsto> f t)\<rparr>))"

section \<open>Queue manipulation\<close>

definition sched_queue_init :: "qid \<Rightarrow> 'z sched_state_scheme \<Rightarrow> 'z sched_state_scheme" where
  "sched_queue_init q s = s\<lparr>queues := (queues s)(q := \<lparr>tq_list = [], tq_size = 0\<rparr>)\<rparr>"

definition sched_queue_empty :: "qid \<Rightarrow> 'z sched_state_scheme \<Rightarrow> bool" where
  "sched_queue_empty q s \<longleftrightarrow> qlist s q = []"

definition ktqueue_enqueue ::
  "qid \<Rightarrow> ptr \<Rightarrow> 'z sched_state_scheme \<Rightarrow> (unit, 'z sched_state_scheme) kres" where
  "ktqueue_enqueue q thr s =
     bindK (deref (threads s) thr s) (\<lambda>t s.
     bindK (kassert (kt_wchan t = None) s) (\<lambda>_ s.
       Ret () (s\<lparr>threads := (threads s)(thr \<mapsto> t\<lparr>kt_qlink := Some q, kt_wchan := Some q\<rparr>),
                 queues := (queues s)(q := \<lparr>tq_list = thr # qlist s q,
                                            tq_size = tq_size (queues s q) + 1\<rparr>)\<rparr>)))"

definition ktqueue_dequeue ::
  "qid \<Rightarrow> 'z sched_state_scheme \<Rightarrow> (ptr option, 'z sched_state_scheme) kres" where
  "ktqueue_dequeue q s =
     (if qlist s q = [] then Ret None s
      else let thr = last (qlist s q) in
        bindK (deref (threads s) thr s) (\<lambda>t s.
          Ret (Some thr)
            (s\<lparr>threads := (threads s)(thr \<mapsto> t\<lparr>kt_qlink := None, kt_wchan := None\<rparr>),
               queues := (queues s)(q := \<lparr>tq_list = butlast (qlist s q),
                                          tq_size = tq_size (queues s q) - 1\<rparr>)\<rparr>)))"

text \<open>
  \<open>list_remove\<close> unlinks the thread from the list its link is in, whichever queue \<open>q\<close> is
  passed; only the size of \<open>q\<close> is decremented.
\<close>

definition ktqueue_remove ::
  "qid \<Rightarrow> ptr \<Rightarrow> 'z sched_state_scheme \<Rightarrow> (unit, 'z sched_state_scheme) kres" where
  "ktqueue_remove q thr s =
     bindK (deref (threads s) thr s) (\<lambda>t s.
       case kt_qlink t of
         None \<Rightarrow> Stop KASSERT_failed
       | Some l \<Rightarrow>
           let s1 = s\<lparr>queues := (queues s)(l := (queues s l)\<lparr>tq_list := remove1 thr (qlist s l)\<rparr>)\<rparr>;
               s2 = s1\<lparr>threads := (threads s1)(thr \<mapsto> t\<lparr>kt_qlink := None, kt_wchan := None\<rparr>)\<rparr>
           in Ret () (s2\<lparr>queues := (queues s2)(q := (queues s2 q)\<lparr>tq_size := tq_size (queues s2 q) - 1\<rparr>)\<rparr>))"

section \<open>Scheduling operations\<close>

definition sched_make_runnable ::
  "ptr \<Rightarrow> 'z sched_state_scheme \<Rightarrow> (unit, 'z sched_state_scheme) kres" where
  "sched_make_runnable thr s =
     bindK (deref (threads s) thr s) (\<lambda>t s.
     bindK (kassert (kt_wchan t \<noteq> Some RUNQ) s) (\<lambda>_ s.
       let oldIPL = ipl s in
       bindK (thr_update thr (\<lambda>t. t\<lparr>kt_state := KT_RUN\<rparr>) (s\<lparr>ipl := IPL_HIGH\<rparr>)) (\<lambda>_ s.
       bindK (ktqueue_enqueue RUNQ thr s) (\<lambda>_ s.
         Ret () (s\<lparr>ipl := oldIPL\<rparr>)))))"

definition sched_wakeup_on ::
  "qid \<Rightarrow> 'z sched_state_scheme \<Rightarrow> (ptr option, 'z sched_state_scheme) kres" where
  "sched_wakeup_on q s =
     (if sched_queue_empty q s then Ret None s
      else bindK (ktqueue_dequeue q s) (\<lambda>r s.
        case r of
          None \<Rightarrow> Stop BAD_POINTER
        | Some headThr \<Rightarrow>
            bindK (deref (threads s) headThr s) (\<lambda>t s.
            bindK (kassert (kt_state t = KT_SLEEP \<or> kt_state t = KT_SLEEP_CANCELLABLE) s) (\<lambda>_ s.
            bindK (sched_make_runnable headThr s) (\<lambda>_ s.
              Ret (Some headThr) s)))))"

primrec broadcast_loop ::
  "nat \<Rightarrow> qid \<Rightarrow> 'z sched_state_scheme \<Rightarrow> (unit, 'z sched_state_scheme) kres" where
  "broadcast_loop 0 q s = (if sched_queue_empty q s then Ret () s else Stop OUT_OF_FUEL)"
| "broadcast_loop (Suc n) q s =
     (if sched_queue_empty q s then Ret () s
      else bindK (sched_wakeup_on q s) (\<lambda>_ s. broadcast_loop n q s))"

text \<open>The loop runs once per queued thread, so the length of the queue is enough fuel.\<close>

definition sched_broadcast_on ::
  "qid \<Rightarrow> 'z sched_state_scheme \<Rightarrow> (unit, 'z sched_state_scheme) kres" where
  "sched_broadcast_on q s = broadcast_loop (length (qlist s q)) q s"

primrec intr_wait_loop ::
  "nat \<Rightarrow> ('z sched_state_scheme \<Rightarrow> 'z sched_state_scheme) \<Rightarrow> 'z sched_state_scheme
     \<Rightarrow> (unit, 'z sched_state_scheme) kres" where
  "intr_wait_loop 0 iw s = (if sched_queue_empty RUNQ s then Stop OUT_OF_FUEL else Ret () s)"
| "intr_wait_loop (Suc n) iw s =
     (if sched_queue_empty RUNQ s
      then intr_wait_loop n iw ((iw (s\<lparr>ipl := IPL_LOW\<rparr>))\<lparr>ipl := IPL_HIGH\<rparr>)
      else Ret () s)"

definition sched_switch ::
  "('z sched_state_scheme) sched_env \<Rightarrow> 'z sched_state_scheme \<Rightarrow> (unit, 'z sched_state_scheme) kres"
where
  "sched_switch env s =
     (let oldIPL = ipl s in
      bindK (intr_wait_loop (wait_fuel env) (intr_wait env) (s\<lparr>ipl := IPL_HIGH\<rparr>)) (\<lambda>_ s.
      bindK (ktqueue_dequeue RUNQ s) (\<lambda>r s.
        case r of
          None \<Rightarrow> Stop BAD_POINTER
        | Some thr \<Rightarrow>
            bindK (deref (threads s) thr s) (\<lambda>t s.
            bindK (context_switch env (s\<lparr>curthr := Some thr, curproc := kt_proc t, ipl := oldIPL\<rparr>))
              (\<lambda>_ s. Ret () (s\<lparr>ipl := oldIPL\<rparr>))))))"

definition sched_sleep_on ::
  "('z sched_state_scheme) sched_env \<Rightarrow> qid \<Rightarrow> 'z sched_state_scheme
     \<Rightarrow> (unit, 'z sched_state_scheme) kres" where
  "sched_sleep_on env q s =
     (case curthr s of
        None \<Rightarrow> Stop KASSERT_failed
      | Some me \<Rightarrow>
          bindK (thr_update me (\<lambda>t. t\<lparr>kt_state := KT_SLEEP\<rparr>) s) (\<lambda>_ s.
          bindK (ktqueue_enqueue q me s) (\<lambda>_ s.
            sched_switch env s)))"

definition curthr_cancelled ::
  "'z sched_state_scheme \<Rightarrow> (bool, 'z sched_state_scheme) kres" where
  "curthr_cancelled s =
     (case curthr s of
        None \<Rightarrow> Stop BAD_POINTER
      | Some me \<Rightarrow> bindK (deref (threads s) me s) (\<lambda>t s. Ret (kt_cancelled t) s))"

definition sched_cancellable_sleep_on ::
  "('z sched_state_scheme) sched_env \<Rightarrow> qid \<Rightarrow> 'z sched_state_scheme
     \<Rightarrow> (errno + unit, 'z sched_state_scheme) kres" where
  "sched_cancellable_sleep_on env q s =
     (case curthr s of
        None \<Rightarrow> Stop KASSERT_failed
      | Some me \<Rightarrow>
          bindK (curthr_cancelled s) (\<lambda>c s.
          if c then Ret (Inl EINTR) s
          else
            bindK (thr_update me (\<lambda>t. t\<lparr>kt_state := KT_SLEEP_CANCELLABLE\<rparr>) s) (\<lambda>_ s.
            bindK (ktqueue_enqueue q me s) (\<lambda>_ s.
            bindK (sched_switch env s) (\<lambda>_ s.
            bindK (curthr_cancelled s) (\<lambda>c s.
              Ret (if c then Inl EINTR else Inr ()) s))))))"

definition sched_cancel ::
  "ptr \<Rightarrow> 'z sched_state_scheme \<Rightarrow> (unit, 'z sched_state_scheme) kres" where
  "sched_cancel kthr s =
     bindK (deref (threads s) kthr s) (\<lambda>t s.
       case kt_wchan t of
         None \<Rightarrow> Stop KASSERT_failed
       | Some q \<Rightarrow>
           if kt_state t = KT_SLEEP_CANCELLABLE
           then bindK (thr_update kthr (\<lambda>t. t\<lparr>kt_cancelled := True\<rparr>) s) (\<lambda>_ s.
                bindK (ktqueue_remove q kthr s) (\<lambda>_ s.
                  sched_make_runnable kthr s))
           else thr_update kthr (\<lambda>t. t\<lparr>kt_cancelled := True\<rparr>) s)"

text \<open>The body of \<open>SYS_thr_yield\<close> in \<open>syscall_dispatch\<close>.\<close>

definition thr_yield ::
  "('z sched_state_scheme) sched_env \<Rightarrow> 'z sched_state_scheme \<Rightarrow> (unit, 'z sched_state_scheme) kres"
where
  "thr_yield env s =
     (case curthr s of
        None \<Rightarrow> Stop BAD_POINTER
      | Some me \<Rightarrow> bindK (sched_make_runnable me s) (\<lambda>_ s. sched_switch env s))"

text \<open>
  The environment that stops at the moment the next thread has been switched to: \<open>iw\<close> is what happens
  while \<open>intr_wait\<close> waits for an interrupt, and \<open>n\<close> the number of interrupts the idle loop may take.
\<close>

definition switched :: "('s \<Rightarrow> 's) \<Rightarrow> nat \<Rightarrow> 's sched_env" where
  "switched iw n = \<lparr>intr_wait = iw, context_switch = Ret (), wait_fuel = n\<rparr>"

section \<open>Well-formed scheduler states\<close>

text \<open>
  \<open>sched_wf R s\<close>: every queue lists existing threads once, its size is the length of its list,
  and the wait channel and queue link of a thread name the queue it is in. A thread outside
  \<open>R\<close> is on the run queue exactly when it is runnable and on another queue exactly when it
  sleeps; the threads in \<open>R\<close> are on no queue. \<open>R\<close> holds the running thread.
\<close>

definition queues_wf :: "'z sched_state_scheme \<Rightarrow> bool" where
  "queues_wf s \<longleftrightarrow> (\<forall>q. distinct (qlist s q) \<and> tq_size (queues s q) = int (length (qlist s q))
      \<and> set (qlist s q) \<subseteq> dom (threads s))"

definition link_wf :: "'z sched_state_scheme \<Rightarrow> ptr \<Rightarrow> kthread \<Rightarrow> bool" where
  "link_wf s t th \<longleftrightarrow> kt_qlink th = kt_wchan th \<and> (\<forall>q. kt_wchan th = Some q \<longleftrightarrow> t \<in> set (qlist s q))"

definition asleep :: "kthread \<Rightarrow> bool" where
  "asleep th \<longleftrightarrow> kt_state th = KT_SLEEP \<or> kt_state th = KT_SLEEP_CANCELLABLE"

definition parked_wf :: "kthread \<Rightarrow> bool" where
  "parked_wf th \<longleftrightarrow> (kt_state th = KT_RUN \<longleftrightarrow> kt_wchan th = Some RUNQ)
      \<and> (asleep th \<longleftrightarrow> kt_wchan th \<noteq> None \<and> kt_wchan th \<noteq> Some RUNQ)"

definition sched_wf :: "ptr set \<Rightarrow> 'z sched_state_scheme \<Rightarrow> bool" where
  "sched_wf R s \<longleftrightarrow> queues_wf s \<and>
     (\<forall>t th. threads s t = Some th \<longrightarrow>
        link_wf s t th \<and> (if t \<in> R then kt_wchan th = None else parked_wf th))"

text \<open>\<open>running_wf\<close>: the running thread exists and is the one thread that is on no queue without having left.\<close>

definition running_wf :: "'z sched_state_scheme \<Rightarrow> bool" where
  "running_wf s \<longleftrightarrow> (\<exists>me th. curthr s = Some me \<and> threads s me = Some th \<and> sched_wf {me} s)"

definition sched_inv :: "'z sched_state_scheme \<Rightarrow> bool" where
  "sched_inv s \<longleftrightarrow> (\<exists>me th. curthr s = Some me \<and> threads s me = Some th \<and>
      kt_state th \<in> {KT_RUN, KT_NO_STATE} \<and> sched_wf {me} s)"

named_theorems sched_defs \<open>unfolding of the scheduler's queue operations\<close>

lemmas sched_op_defs [sched_defs] =
  thr_update_def sched_queue_empty_def ktqueue_enqueue_def ktqueue_dequeue_def
  ktqueue_remove_def sched_make_runnable_def

lemmas sched_wf_defs = sched_wf_def queues_wf_def link_wf_def parked_wf_def asleep_def

lemma sched_wf_thread:
  assumes "sched_wf R s" and "t \<in> set (qlist s q)"
  obtains th where "threads s t = Some th" and "kt_wchan th = Some q" and "kt_qlink th = Some q"
    and "t \<notin> R"
proof -
  from assms obtain th where th: "threads s t = Some th"
    by (fastforce simp: sched_wf_def queues_wf_def)
  with assms have "kt_wchan th = Some q" "kt_qlink th = Some q" "t \<notin> R"
    by (fastforce simp: sched_wf_def link_wf_def)+
  with th show thesis by (rule that)
qed

lemma sched_wf_unqueued:
  "sched_wf R s \<Longrightarrow> threads s t = Some th \<Longrightarrow> t \<in> R \<Longrightarrow>
     kt_wchan th = None \<and> kt_qlink th = None \<and> t \<notin> set (qlist s q)"
  by (force simp: sched_wf_def link_wf_def)

lemma sched_wf_parked: "sched_wf R s \<Longrightarrow> threads s t = Some th \<Longrightarrow> t \<notin> R \<Longrightarrow> parked_wf th"
  by (auto simp: sched_wf_def)

lemma sched_wf_unique:
  "sched_wf R s \<Longrightarrow> t \<in> set (qlist s q) \<Longrightarrow> t \<in> set (qlist s q') \<Longrightarrow> q' = q"
  by (metis option.inject sched_wf_thread)

lemma sched_wf_updates [simp]:
  "sched_wf R (s\<lparr>ipl := i\<rparr>) = sched_wf R s" "sched_wf R (s\<lparr>curthr := c\<rparr>) = sched_wf R s"
  "sched_wf R (s\<lparr>curproc := p\<rparr>) = sched_wf R s"
  by (simp_all add: sched_wf_def queues_wf_def link_wf_def)

lemma sched_wf_cong:
  "threads s' = threads s \<Longrightarrow> queues s' = queues s \<Longrightarrow> sched_wf R s' = sched_wf R s"
  by (simp add: sched_wf_def queues_wf_def link_wf_def)

lemma sched_wf_asleep:
  "sched_wf R s \<Longrightarrow> t \<in> set (qlist s q) \<Longrightarrow> q \<noteq> RUNQ \<Longrightarrow> threads s t = Some th \<Longrightarrow> asleep th"
  by (metis option.distinct(1) option.sel parked_wf_def sched_wf_def sched_wf_thread)

subsection \<open>What the operations do, in one step\<close>

text \<open>The effect of moving thread \<open>t\<close>, at the tail of queue \<open>q\<close>, to the run queue.\<close>

definition moved_to_runq :: "qid \<Rightarrow> ptr \<Rightarrow> kthread \<Rightarrow> 'z sched_state_scheme \<Rightarrow> 'z sched_state_scheme"
where
  "moved_to_runq q t th s =
     s\<lparr>threads := (threads s)(t \<mapsto> th\<lparr>kt_state := KT_RUN, kt_qlink := Some RUNQ, kt_wchan := Some RUNQ\<rparr>),
       queues := (queues s)
         (q := \<lparr>tq_list = remove1 t (qlist s q), tq_size = tq_size (queues s q) - 1\<rparr>,
          RUNQ := \<lparr>tq_list = t # qlist s RUNQ, tq_size = tq_size (queues s RUNQ) + 1\<rparr>)\<rparr>"

definition made_runnable :: "ptr \<Rightarrow> kthread \<Rightarrow> 'z sched_state_scheme \<Rightarrow> 'z sched_state_scheme" where
  "made_runnable t th s =
     s\<lparr>threads := (threads s)(t \<mapsto> th\<lparr>kt_state := KT_RUN, kt_qlink := Some RUNQ, kt_wchan := Some RUNQ\<rparr>),
       queues := (queues s)
         (RUNQ := \<lparr>tq_list = t # qlist s RUNQ, tq_size = tq_size (queues s RUNQ) + 1\<rparr>)\<rparr>"

lemma sched_make_runnable_eq:
  "threads s t = Some th \<Longrightarrow> kt_wchan th = None \<Longrightarrow>
     sched_make_runnable t s = Ret () (made_runnable t th s)"
  by (simp add: sched_defs made_runnable_def fun_upd_def cong: if_cong)

lemma distinct_butlast_remove1:
  "distinct xs \<Longrightarrow> xs \<noteq> [] \<Longrightarrow> butlast xs = remove1 (last xs) xs"
  by (induction xs) auto

lemma sched_wakeup_on_eq:
  assumes wf: "sched_wf R s" and q: "q \<noteq> RUNQ" and ne: "qlist s q \<noteq> []"
  obtains th where "threads s (last (qlist s q)) = Some th" and "last (qlist s q) \<notin> R"
    and "sched_wakeup_on q s = Ret (Some (last (qlist s q))) (moved_to_runq q (last (qlist s q)) th s)"
proof -
  let ?t = "last (qlist s q)"
  have t: "?t \<in> set (qlist s q)" using ne by simp
  obtain th where th: "threads s ?t = Some th" "kt_wchan th = Some q" "?t \<notin> R"
    using wf t by (rule sched_wf_thread)
  have a: "asleep th" using wf t q th(1) by (rule sched_wf_asleep)
  have d: "butlast (qlist s q) = remove1 ?t (qlist s q)"
    using wf ne by (auto simp: sched_wf_def queues_wf_def intro: distinct_butlast_remove1)
  have "sched_wakeup_on q s = Ret (Some ?t) (moved_to_runq q ?t th s)"
    using ne th a q unfolding sched_wakeup_on_def moved_to_runq_def asleep_def
    by (auto simp: sched_defs d Let_def fun_upd_twist fun_eq_iff)
  with th(1,3) show thesis by (rule that)
qed

lemma sched_wakeup_on_empty: "qlist s q = [] \<Longrightarrow> sched_wakeup_on q s = Ret None s"
  by (simp add: sched_wakeup_on_def sched_queue_empty_def)

subsection \<open>Preservation\<close>

lemma sched_wf_moved:
  assumes wf: "sched_wf R s" and t: "t \<in> set (qlist s q)" and q: "q \<noteq> RUNQ"
    and th: "threads s t = Some th"
  shows "sched_wf R (moved_to_runq q t th s)"
proof -
  from wf t have r: "t \<notin> R" by (rule sched_wf_thread)
  have uniq: "t \<notin> set (qlist s q')" if "q' \<noteq> q" for q'
    using that sched_wf_unique [OF wf t] by blast
  have "0 < length (qlist s q)" using t by (rule length_pos_if_in_set)
  then show ?thesis
    using wf t q th r uniq
    unfolding sched_wf_defs moved_to_runq_def
    by (auto simp: length_remove1 of_nat_diff Suc_le_eq split: if_splits)
qed

lemma sched_wf_made_runnable:
  assumes wf: "sched_wf (insert t R) s" and th: "threads s t = Some th"
  shows "sched_wf (R - {t}) (made_runnable t th s)"
proof -
  have "t \<notin> set (qlist s q)" for q using wf th by (auto dest: sched_wf_unqueued)
  with assms show ?thesis
    unfolding sched_wf_defs made_runnable_def by (auto split: if_splits)
qed

lemma sched_wf_wakeup:
  assumes "sched_wf R s" and "q \<noteq> RUNQ"
  shows "\<exists>r s'. sched_wakeup_on q s = Ret r s' \<and> sched_wf R s' \<and> curthr s' = curthr s
           \<and> qlist s' q = butlast (qlist s q) \<and> (\<forall>t\<in>R. threads s' t = threads s t)"
proof (cases "qlist s q = []")
  case True
  then show ?thesis using assms by (simp add: sched_wakeup_on_empty)
next
  case False
  with assms obtain th where *: "threads s (last (qlist s q)) = Some th" "last (qlist s q) \<notin> R"
    "sched_wakeup_on q s = Ret (Some (last (qlist s q))) (moved_to_runq q (last (qlist s q)) th s)"
    by (metis sched_wakeup_on_eq)
  have "sched_wf R (moved_to_runq q (last (qlist s q)) th s)"
    using assms False *(1) by (intro sched_wf_moved) auto
  moreover have "butlast (qlist s q) = remove1 (last (qlist s q)) (qlist s q)"
    using assms False by (auto simp: sched_wf_def queues_wf_def intro: distinct_butlast_remove1)
  ultimately show ?thesis using * assms(2) by (auto simp: moved_to_runq_def)
qed

text \<open>The sleeping thread: its state is set and it is put at the head of the queue.\<close>

definition put_to_sleep ::
  "ktstate \<Rightarrow> qid \<Rightarrow> ptr \<Rightarrow> kthread \<Rightarrow> 'z sched_state_scheme \<Rightarrow> 'z sched_state_scheme" where
  "put_to_sleep st q t th s =
     s\<lparr>threads := (threads s)(t \<mapsto> th\<lparr>kt_state := st, kt_qlink := Some q, kt_wchan := Some q\<rparr>),
       queues := (queues s)(q := \<lparr>tq_list = t # qlist s q, tq_size = tq_size (queues s q) + 1\<rparr>)\<rparr>"

lemma sleep_enqueue_eq:
  "threads s t = Some th \<Longrightarrow> kt_wchan th = None \<Longrightarrow>
     bindK (thr_update t (\<lambda>t. t\<lparr>kt_state := st\<rparr>) s) (\<lambda>_ s. bindK (ktqueue_enqueue q t s) f) =
     f () (put_to_sleep st q t th s)"
  by (simp add: sched_defs put_to_sleep_def)

lemma sched_wf_put_to_sleep:
  assumes wf: "sched_wf (insert t R) s" and th: "threads s t = Some th" and q: "q \<noteq> RUNQ"
    and st: "st = KT_SLEEP \<or> st = KT_SLEEP_CANCELLABLE"
  shows "sched_wf (R - {t}) (put_to_sleep st q t th s)"
proof -
  have "t \<notin> set (qlist s q)" for q using wf th by (auto dest: sched_wf_unqueued)
  with assms show ?thesis
    unfolding sched_wf_defs put_to_sleep_def by (auto split: if_splits)
qed

text \<open>
  The switch takes the thread that has waited longest, at the tail of the run queue.
\<close>

definition dispatched :: "ptr \<Rightarrow> kthread \<Rightarrow> 'z sched_state_scheme \<Rightarrow> 'z sched_state_scheme" where
  "dispatched t th s =
     s\<lparr>threads := (threads s)(t \<mapsto> th\<lparr>kt_qlink := None, kt_wchan := None\<rparr>),
       queues := (queues s)(RUNQ := \<lparr>tq_list = butlast (qlist s RUNQ),
                                     tq_size = tq_size (queues s RUNQ) - 1\<rparr>),
       curthr := Some t, curproc := kt_proc th\<rparr>"

lemma sched_switch_eq:
  assumes wf: "sched_wf R s" and ne: "qlist s RUNQ \<noteq> []"
    and th: "threads s (last (qlist s RUNQ)) = Some th"
  shows "sched_switch env s =
    bindK (context_switch env (dispatched (last (qlist s RUNQ)) th s)) (\<lambda>_ s'. Ret () (s'\<lparr>ipl := ipl s\<rparr>))"
proof -
  have "intr_wait_loop n iw (s\<lparr>ipl := IPL_HIGH\<rparr>) = Ret () (s\<lparr>ipl := IPL_HIGH\<rparr>)" for n iw
    using ne by (cases n) (simp_all add: sched_queue_empty_def)
  then show ?thesis
    using ne th by (simp add: sched_switch_def ktqueue_dequeue_def dispatched_def Let_def)
qed

lemma sched_wf_dispatched:
  assumes wf: "sched_wf {} s" and ne: "qlist s RUNQ \<noteq> []"
    and th: "threads s (last (qlist s RUNQ)) = Some th"
  shows "sched_wf {last (qlist s RUNQ)} (dispatched (last (qlist s RUNQ)) th s)"
    and "kt_state th = KT_RUN"
proof -
  let ?t = "last (qlist s RUNQ)"
  have t: "?t \<in> set (qlist s RUNQ)" using ne by simp
  have w: "kt_wchan th = Some RUNQ" using wf t th by (auto elim: sched_wf_thread)
  then show "kt_state th = KT_RUN" using wf th by (auto simp: sched_wf_def parked_wf_def)
  have other: "?t \<notin> set (qlist s q)" if "q \<noteq> RUNQ" for q
    using that sched_wf_unique [OF wf t] by blast
  have d: "distinct (qlist s RUNQ)" using wf by (simp add: sched_wf_def queues_wf_def)
  have bl: "butlast (qlist s RUNQ) = remove1 ?t (qlist s RUNQ)"
    using d ne by (rule distinct_butlast_remove1)
  show "sched_wf {?t} (dispatched ?t th s)"
    using wf th ne other d unfolding sched_wf_defs dispatched_def bl
    by (auto simp: length_remove1 of_nat_diff Suc_le_eq split: if_splits)
qed

lemma sched_switch_switched:
  assumes wf: "sched_wf {} s" and ne: "qlist s RUNQ \<noteq> []"
  shows "\<exists>s'. sched_switch (switched iw n) s = Ret () s' \<and> sched_inv s'
           \<and> curthr s' = Some (last (qlist s RUNQ)) \<and> qlist s' RUNQ = butlast (qlist s RUNQ)"
proof -
  have "last (qlist s RUNQ) \<in> set (qlist s RUNQ)" using ne by simp
  with wf obtain th where th: "threads s (last (qlist s RUNQ)) = Some th"
    by (rule sched_wf_thread)
  let ?s' = "(dispatched (last (qlist s RUNQ)) th s)\<lparr>ipl := ipl s\<rparr>"
  have "sched_switch (switched iw n) s = Ret () ?s'"
    using sched_switch_eq [OF wf ne th] by (simp add: switched_def)
  moreover have "sched_inv ?s'"
    using sched_wf_dispatched [OF wf ne th] by (auto simp: sched_inv_def) (simp add: dispatched_def)
  moreover have "curthr ?s' = Some (last (qlist s RUNQ))" "qlist ?s' RUNQ = butlast (qlist s RUNQ)"
    by (simp_all add: dispatched_def)
  ultimately show ?thesis by blast
qed

subsection \<open>Waiting for an interrupt\<close>

text \<open>
  While the run queue is empty the processor waits for interrupts, in the hope that a handler puts a
  thread on the run queue (the comment of \<open>sched_switch\<close>). \<open>wakes_only\<close> is what that takes of the handlers: they
  move sleeping threads off wait queues and change nothing but threads and queues.
\<close>

definition wakes_only :: "('z sched_state_scheme \<Rightarrow> 'z sched_state_scheme) \<Rightarrow> bool" where
  "wakes_only iw \<longleftrightarrow> (\<forall>s. sched_wf {} s \<longrightarrow> sched_wf {} (iw s)
     \<and> (\<exists>ths qs. iw s = s\<lparr>threads := ths, queues := qs\<rparr>
          \<and> (\<forall>q. q \<noteq> RUNQ \<longrightarrow> set (tq_list (qs q)) \<subseteq> set (qlist s q))))"

text \<open>\<open>woken s s'\<close>: some sleepers of \<open>s\<close> have left their queues.\<close>

definition woken :: "'z sched_state_scheme \<Rightarrow> 'z sched_state_scheme \<Rightarrow> bool" where
  "woken s s' \<longleftrightarrow> (\<exists>ths qs i. s' = s\<lparr>threads := ths, queues := qs, ipl := i\<rparr>
     \<and> (\<forall>q. q \<noteq> RUNQ \<longrightarrow> set (tq_list (qs q)) \<subseteq> set (qlist s q)))"

lemma woken_ipl [simp]: "woken s (s\<lparr>ipl := i\<rparr>)"
  unfolding woken_def by (intro exI [of _ "threads s"] exI [of _ "queues s"] exI [of _ i]) simp

lemma woken_trans:
  assumes "woken s s'" and "woken s' s''"
  shows "woken s s''"
proof -
  obtain ths qs i where 1: "s' = s\<lparr>threads := ths, queues := qs, ipl := i\<rparr>"
    "\<And>q. q \<noteq> RUNQ \<Longrightarrow> set (tq_list (qs q)) \<subseteq> set (qlist s q)" using assms(1) unfolding woken_def by blast
  obtain ths' qs' i' where 2: "s'' = s'\<lparr>threads := ths', queues := qs', ipl := i'\<rparr>"
    "\<And>q. q \<noteq> RUNQ \<Longrightarrow> set (tq_list (qs' q)) \<subseteq> set (qlist s' q)" using assms(2) unfolding woken_def by blast
  have "s'' = s\<lparr>threads := ths', queues := qs', ipl := i'\<rparr>" using 1(1) 2(1) by simp
  moreover have "set (tq_list (qs' q)) \<subseteq> set (qlist s q)" if "q \<noteq> RUNQ" for q
    using 1(2) [OF that] 2(2) [OF that] unfolding 1(1) by auto
  ultimately show ?thesis unfolding woken_def by blast
qed

lemma wakes_only_step:
  assumes "wakes_only iw" and "sched_wf {} s"
  shows "sched_wf {} ((iw (s\<lparr>ipl := IPL_LOW\<rparr>))\<lparr>ipl := IPL_HIGH\<rparr>)" "woken s ((iw (s\<lparr>ipl := IPL_LOW\<rparr>))\<lparr>ipl := IPL_HIGH\<rparr>)"
proof -
  let ?s = "s\<lparr>ipl := IPL_LOW\<rparr>"
  have wf: "sched_wf {} ?s" using assms(2) by simp
  have "sched_wf {} (iw ?s) \<and> (\<exists>ths qs. iw ?s = ?s\<lparr>threads := ths, queues := qs\<rparr>
      \<and> (\<forall>q. q \<noteq> RUNQ \<longrightarrow> set (tq_list (qs q)) \<subseteq> set (qlist ?s q)))"
    using assms(1) wf unfolding wakes_only_def by blast
  then obtain ths qs where 1: "sched_wf {} (iw ?s)" and 2: "iw ?s = ?s\<lparr>threads := ths, queues := qs\<rparr>"
    and 3: "\<forall>q. q \<noteq> RUNQ \<longrightarrow> set (tq_list (qs q)) \<subseteq> set (qlist ?s q)" by blast
  show "sched_wf {} ((iw ?s)\<lparr>ipl := IPL_HIGH\<rparr>)" using 1 by simp
  show "woken s ((iw ?s)\<lparr>ipl := IPL_HIGH\<rparr>)" unfolding woken_def 2
    using 3 by (intro exI [of _ ths] exI [of _ qs] exI [of _ IPL_HIGH]) simp
qed

lemma intr_wait_loop_woken:
  assumes "wakes_only iw" and "sched_wf {} s" and "intr_wait_loop n iw s = Ret () s'"
  shows "sched_wf {} s' \<and> woken s s' \<and> qlist s' RUNQ \<noteq> []"
  using assms(2,3)
proof (induction n arbitrary: s)
  case 0
  then show ?case using woken_ipl [of s "ipl s"] by (auto simp: sched_queue_empty_def split: if_splits)
next
  case (Suc n)
  show ?case
  proof (cases "qlist s RUNQ = []")
    case True
    let ?s = "(iw (s\<lparr>ipl := IPL_LOW\<rparr>))\<lparr>ipl := IPL_HIGH\<rparr>"
    have "intr_wait_loop n iw ?s = Ret () s'" using Suc.prems(2) True by (simp add: sched_queue_empty_def)
    with Suc.IH [of ?s] wakes_only_step [OF assms(1) Suc.prems(1)] show ?thesis by (blast intro: woken_trans)
  next
    case False
    then show ?thesis using Suc.prems woken_ipl [of s "ipl s"] by (auto simp: sched_queue_empty_def)
  qed
qed

text \<open>A switch that returns, idle or not, runs a thread of the run queue.\<close>

lemma sched_switch_idle:
  assumes "wakes_only iw" and wf: "sched_wf {} s" and r: "sched_switch (switched iw n) s = Ret () s'"
  shows "\<exists>s1. sched_wf {} s1 \<and> woken s s1 \<and> qlist s1 RUNQ \<noteq> [] \<and> sched_switch (switched iw n) s1 = Ret () (s'\<lparr>ipl := ipl s1\<rparr>)"
proof -
  obtain s1 where s1: "intr_wait_loop n iw (s\<lparr>ipl := IPL_HIGH\<rparr>) = Ret () s1"
    using r by (auto simp: sched_switch_def switched_def Let_def kres_simps)
  have w: "sched_wf {} s1" "woken (s\<lparr>ipl := IPL_HIGH\<rparr>) s1" "qlist s1 RUNQ \<noteq> []"
    using intr_wait_loop_woken [OF assms(1) _ s1] wf by simp_all
  have "last (qlist s1 RUNQ) \<in> set (qlist s1 RUNQ)" using w(3) by simp
  with w(1) obtain th where th: "threads s1 (last (qlist s1 RUNQ)) = Some th" by (rule sched_wf_thread)
  have "s' = (dispatched (last (qlist s1 RUNQ)) th s1)\<lparr>ipl := ipl s\<rparr>"
    using r s1 w(3) th by (simp add: sched_switch_def switched_def Let_def ktqueue_dequeue_def dispatched_def)
  moreover have "sched_switch (switched iw n) s1 = Ret () (dispatched (last (qlist s1 RUNQ)) th s1)"
    using sched_switch_eq [OF w(1,3) th, of "switched iw n"] by (simp add: switched_def) (simp add: dispatched_def)
  ultimately have "sched_switch (switched iw n) s1 = Ret () (s'\<lparr>ipl := ipl s1\<rparr>)" by (simp add: dispatched_def)
  moreover have "woken s s1" using woken_trans [OF woken_ipl w(2)] .
  ultimately show ?thesis using w by blast
qed

section \<open>The scheduler as a state machine\<close>

text \<open>
  One rule per way the kernel uses the scheduler: the running thread sleeps, yields (\<open>SYS_thr_yield\<close>), exits
  (\<open>kthread_exit\<close> marks it, and \<open>proc_thread_exited\<close> switches away for good), wakes one or all sleepers of a
  wait queue, or cancels a queued thread; a thread is created (\<open>kthread_create\<close>), made runnable, cloned by \<open>fork\<close>, which makes the
  clone runnable in the state it copied, or destroyed once it has exited (\<open>kthread_destroy\<close>). Only the run queue is not a wait queue.
  A switch with an empty run queue waits for interrupts.
\<close>

inductive sched_step :: "'z sched_state_scheme \<Rightarrow> 'z sched_state_scheme \<Rightarrow> bool" where
  sleep: "wakes_only iw \<Longrightarrow> q \<noteq> RUNQ \<Longrightarrow> sched_sleep_on (switched iw n) q s = Ret () s' \<Longrightarrow> sched_step s s'"
| csleep: "wakes_only iw \<Longrightarrow> q \<noteq> RUNQ \<Longrightarrow> sched_cancellable_sleep_on (switched iw n) q s = Ret r s' \<Longrightarrow> sched_step s s'"
| yield: "thr_yield (switched iw n) s = Ret () s' \<Longrightarrow> sched_step s s'"
| exited: "curthr s = Some me \<Longrightarrow> thr_update me (\<lambda>t. t\<lparr>kt_state := KT_EXITED\<rparr>) s = Ret () s' \<Longrightarrow> sched_step s s'"
| leave: "wakes_only iw \<Longrightarrow> curthr s = Some me \<Longrightarrow> threads s me = Some th \<Longrightarrow> kt_state th = KT_EXITED \<Longrightarrow>
    sched_switch (switched iw n) s = Ret () s' \<Longrightarrow> sched_step s s'"
| wakeup: "q \<noteq> RUNQ \<Longrightarrow> sched_wakeup_on q s = Ret r s' \<Longrightarrow> sched_step s s'"
| broadcast: "q \<noteq> RUNQ \<Longrightarrow> sched_broadcast_on q s = Ret () s' \<Longrightarrow> sched_step s s'"
| cancel: "sched_cancel t s = Ret () s' \<Longrightarrow> sched_step s s'"
| create: "threads s t = None \<Longrightarrow> kt_state th = KT_NO_STATE \<Longrightarrow> kt_wchan th = None \<Longrightarrow> kt_qlink th = None \<Longrightarrow>
    sched_step s (s\<lparr>threads := (threads s)(t \<mapsto> th)\<rparr>)"
| start: "curthr s \<noteq> Some t \<Longrightarrow> threads s t = Some th \<Longrightarrow> kt_state th = KT_NO_STATE \<Longrightarrow>
    sched_make_runnable t s = Ret () s' \<Longrightarrow> sched_step s s'"
| clone: "threads s t = None \<Longrightarrow> kt_state th = KT_RUN \<Longrightarrow> kt_wchan th = None \<Longrightarrow> kt_qlink th = None \<Longrightarrow>
    sched_make_runnable t (s\<lparr>threads := (threads s)(t \<mapsto> th)\<rparr>) = Ret () s' \<Longrightarrow> sched_step s s'"
| destroy: "curthr s \<noteq> Some t \<Longrightarrow> threads s t = Some th \<Longrightarrow> kt_state th = KT_EXITED \<Longrightarrow>
    sched_step s (s\<lparr>threads := (threads s)(t := None)\<rparr>)"

inductive_cases sched_stepE: "sched_step s s'"

lemma running_wfE:
  assumes "running_wf s"
  obtains me th where "curthr s = Some me" "threads s me = Some th" "kt_wchan th = None" "sched_wf {me} s"
  using assms unfolding running_wf_def by (meson insertI1 sched_wf_unqueued)

lemma sched_inv_running: "sched_inv s \<Longrightarrow> running_wf s"
  by (auto simp: sched_inv_def running_wf_def)

lemma sched_invE:
  assumes "sched_inv s"
  obtains me th where "curthr s = Some me" "threads s me = Some th" "kt_wchan th = None"
    "kt_state th \<in> {KT_RUN, KT_NO_STATE}" "sched_wf {me} s"
  using assms unfolding sched_inv_def by (meson insertI1 sched_wf_unqueued)

lemma broadcast_loop_wf:
  assumes "sched_wf R s" and "q \<noteq> RUNQ" and "length (qlist s q) \<le> n"
  shows "\<exists>s'. broadcast_loop n q s = Ret () s' \<and> sched_wf R s' \<and> qlist s' q = []
           \<and> curthr s' = curthr s \<and> (\<forall>t\<in>R. threads s' t = threads s t)"
  using assms
proof (induction n arbitrary: s)
  case 0
  then show ?case by (simp add: sched_queue_empty_def)
next
  case (Suc n)
  show ?case
  proof (cases "qlist s q = []")
    case True
    then show ?thesis using Suc.prems by (simp add: sched_queue_empty_def)
  next
    case False
    obtain r s1 where s1: "sched_wakeup_on q s = Ret r s1" "sched_wf R s1" "curthr s1 = curthr s"
      "qlist s1 q = butlast (qlist s q)" "\<forall>t\<in>R. threads s1 t = threads s t"
      using sched_wf_wakeup [OF Suc.prems(1,2)] by blast
    then have "length (qlist s1 q) \<le> n" using Suc.prems(3) by simp
    with Suc.IH [OF s1(2) Suc.prems(2)] s1 False show ?thesis
      by (auto simp: sched_queue_empty_def)
  qed
qed

lemma sched_broadcast_on_wf:
  assumes "sched_wf R s" and "q \<noteq> RUNQ"
  shows "\<exists>s'. sched_broadcast_on q s = Ret () s' \<and> sched_wf R s' \<and> qlist s' q = []
           \<and> curthr s' = curthr s \<and> (\<forall>t\<in>R. threads s' t = threads s t)"
  using broadcast_loop_wf [OF assms order_refl] by (simp add: sched_broadcast_on_def)

text \<open>A broadcast changes nothing but threads and queues.\<close>

lemma broadcast_loop_frame:
  assumes "sched_wf R s" and "q \<noteq> RUNQ" and "length (qlist s q) \<le> n"
  shows "\<exists>th qs. broadcast_loop n q s = Ret () (s\<lparr>threads := th, queues := qs\<rparr>)
    \<and> sched_wf R (s\<lparr>threads := th, queues := qs\<rparr>) \<and> (\<forall>q'. q' \<noteq> q \<and> q' \<noteq> RUNQ \<longrightarrow> qs q' = queues s q')"
  using assms
proof (induction n arbitrary: s)
  case 0
  then show ?case
    by (intro exI [of _ "threads s"] exI [of _ "queues s"]) (simp add: sched_queue_empty_def)
next
  case (Suc n)
  show ?case
  proof (cases "qlist s q = []")
    case True
    then show ?thesis using Suc.prems(1)
      by (intro exI [of _ "threads s"] exI [of _ "queues s"]) (simp add: sched_queue_empty_def)
  next
    case False
    let ?t = "last (qlist s q)"
    obtain th where th: "threads s ?t = Some th"
      "sched_wakeup_on q s = Ret (Some ?t) (moved_to_runq q ?t th s)"
      using sched_wakeup_on_eq [OF Suc.prems(1,2) False] by blast
    have wf: "sched_wf R (moved_to_runq q ?t th s)"
      using Suc.prems False th(1) by (intro sched_wf_moved) auto
    have "length (qlist (moved_to_runq q ?t th s) q) \<le> n"
      using Suc.prems False by (simp add: moved_to_runq_def length_remove1)
    from Suc.IH [OF wf Suc.prems(2) this] obtain th' qs' where ih:
      "broadcast_loop n q (moved_to_runq q ?t th s)
         = Ret () ((moved_to_runq q ?t th s)\<lparr>threads := th', queues := qs'\<rparr>)"
      "sched_wf R ((moved_to_runq q ?t th s)\<lparr>threads := th', queues := qs'\<rparr>)"
      "\<forall>q'. q' \<noteq> q \<and> q' \<noteq> RUNQ \<longrightarrow> qs' q' = queues (moved_to_runq q ?t th s) q'"
      by blast
    have e: "(moved_to_runq q ?t th s)\<lparr>threads := th', queues := qs'\<rparr> = s\<lparr>threads := th', queues := qs'\<rparr>"
      by (simp add: moved_to_runq_def)
    show ?thesis using ih th False unfolding e
      by (intro exI [of _ th'] exI [of _ qs']) (auto simp: sched_queue_empty_def moved_to_runq_def)
  qed
qed

lemma sched_broadcast_frame:
  assumes "sched_wf R s" and "q \<noteq> RUNQ"
  shows "\<exists>th qs. sched_broadcast_on q s = Ret () (s\<lparr>threads := th, queues := qs\<rparr>)
    \<and> sched_wf R (s\<lparr>threads := th, queues := qs\<rparr>) \<and> (\<forall>q'. q' \<noteq> q \<and> q' \<noteq> RUNQ \<longrightarrow> qs q' = queues s q')"
  using broadcast_loop_frame [OF assms order_refl] by (simp add: sched_broadcast_on_def)

lemma sched_broadcast_empty: "qlist s q = [] \<Longrightarrow> sched_broadcast_on q s = Ret () s"
  by (simp add: sched_broadcast_on_def sched_queue_empty_def)

lemma running_wf_cong:
  assumes "running_wf s" and "curthr s = Some me" and "sched_wf {me} s'"
    and "curthr s' = curthr s" and "threads s' me = threads s me"
  shows "running_wf s'"
  using assms by (auto simp: running_wf_def)

definition set_cancelled :: "ptr \<Rightarrow> kthread \<Rightarrow> 'z sched_state_scheme \<Rightarrow> 'z sched_state_scheme" where
  "set_cancelled t th s = s\<lparr>threads := (threads s)(t \<mapsto> th\<lparr>kt_cancelled := True\<rparr>)\<rparr>"

lemma sched_wf_set_cancelled:
  "sched_wf R s \<Longrightarrow> threads s t = Some th \<Longrightarrow> sched_wf R (set_cancelled t th s)"
  unfolding sched_wf_defs set_cancelled_def by (auto split: if_splits)

lemma sched_cancel_eq:
  assumes wf: "sched_wf R s" and th: "threads s t = Some th" and w: "kt_wchan th = Some q"
  shows "sched_cancel t s = Ret ()
    (if kt_state th = KT_SLEEP_CANCELLABLE
     then moved_to_runq q t (th\<lparr>kt_cancelled := True\<rparr>) (set_cancelled t th s)
     else set_cancelled t th s)"
proof (cases "kt_state th = KT_SLEEP_CANCELLABLE")
  case True
  have "kt_qlink th = Some q" using wf th w by (simp add: sched_wf_def link_wf_def)
  moreover have "t \<notin> R" using wf th w by (force simp: sched_wf_def)
  then have "q \<noteq> RUNQ"
    using sched_wf_parked [OF wf th] w True by (auto simp: parked_wf_def asleep_def)
  ultimately show ?thesis using True th w
    by (simp add: sched_cancel_def sched_defs moved_to_runq_def set_cancelled_def Let_def)
next
  case False
  then show ?thesis using th w by (simp add: sched_cancel_def sched_defs set_cancelled_def)
qed

lemma sched_cancel_wf:
  assumes wf: "sched_wf R s" and c: "sched_cancel t s = Ret () s'"
  shows "sched_wf R s' \<and> curthr s' = curthr s \<and> (\<forall>t\<in>R. threads s' t = threads s t)"
proof -
  obtain th q where th: "threads s t = Some th" "kt_wchan th = Some q"
    using c by (auto simp: sched_cancel_def kres_simps split: option.splits)
  have R: "t \<notin> R" using wf th by (force simp: sched_wf_def)
  have tq: "t \<in> set (qlist s q)" using wf th by (simp add: sched_wf_def link_wf_def)
  let ?s1 = "set_cancelled t th s" and ?th = "th\<lparr>kt_cancelled := True\<rparr>"
  have wf1: "sched_wf R ?s1" using wf th(1) by (rule sched_wf_set_cancelled)
  have t1: "t \<in> set (qlist ?s1 q)" "threads ?s1 t = Some ?th"
    using tq by (simp_all add: set_cancelled_def)
  have "q \<noteq> RUNQ" if "kt_state th = KT_SLEEP_CANCELLABLE"
    using sched_wf_parked [OF wf th(1) R] th that by (auto simp: parked_wf_def asleep_def)
  then have "sched_wf R s'"
    using c sched_cancel_eq [OF wf th] wf1 sched_wf_moved [OF wf1 t1(1) _ t1(2)]
    by (auto split: if_splits)
  moreover have "curthr s' = curthr s \<and> (\<forall>t\<in>R. threads s' t = threads s t)"
    using c sched_cancel_eq [OF wf th] R
    by (auto simp: moved_to_runq_def set_cancelled_def split: if_splits)
  ultimately show ?thesis by blast
qed

lemma running_wf_switch:
  assumes "wakes_only iw" and "sched_wf {} s" and "sched_switch (switched iw n) s = Ret () s'"
  shows "running_wf s'"
proof -
  obtain s1 where s1: "sched_wf {} s1" "qlist s1 RUNQ \<noteq> []" "sched_switch (switched iw n) s1 = Ret () (s'\<lparr>ipl := ipl s1\<rparr>)"
    using sched_switch_idle [OF assms] by blast
  then have "sched_inv (s'\<lparr>ipl := ipl s1\<rparr>)" using sched_switch_switched [OF s1(1,2), of iw n] by auto
  then show ?thesis by (auto simp: sched_inv_def running_wf_def)
qed

lemma running_wf_sleep:
  assumes iw: "wakes_only iw" and inv: "running_wf s" and q: "q \<noteq> RUNQ" and r: "sched_sleep_on (switched iw n) q s = Ret () s'"
  shows "running_wf s'"
  using inv
proof (rule running_wfE)
  fix me th assume me: "curthr s = Some me" "threads s me = Some th" "kt_wchan th = None"
    "sched_wf {me} s"
  then have "sched_wf {} (put_to_sleep KT_SLEEP q me th s)"
    using q sched_wf_put_to_sleep [of me "{}"] by auto
  then show ?thesis using r me
    by (auto simp: sched_sleep_on_def sleep_enqueue_eq intro: running_wf_switch [OF iw])
qed

lemma running_wf_csleep:
  assumes iw: "wakes_only iw" and inv: "running_wf s" and q: "q \<noteq> RUNQ"
    and r: "sched_cancellable_sleep_on (switched iw n) q s = Ret r s'"
  shows "running_wf s'"
  using inv
proof (rule running_wfE)
  fix me th assume me: "curthr s = Some me" "threads s me = Some th" "kt_wchan th = None"
    "sched_wf {me} s"
  then have "sched_wf {} (put_to_sleep KT_SLEEP_CANCELLABLE q me th s)"
    using q sched_wf_put_to_sleep [of me "{}"] by auto
  then show ?thesis using r me inv
    by (auto simp: sched_cancellable_sleep_on_def sleep_enqueue_eq curthr_cancelled_def kres_simps
        split: if_splits option.splits intro: running_wf_switch [OF iw])
qed

lemma sched_wf_exited:
  assumes wf: "sched_wf {me} s" and th: "threads s me = Some th"
  shows "sched_wf {me} (s\<lparr>threads := (threads s)(me \<mapsto> th\<lparr>kt_state := KT_EXITED\<rparr>)\<rparr>)"
    and "kt_state th = KT_EXITED \<Longrightarrow> sched_wf {} s"
proof -
  show "sched_wf {me} (s\<lparr>threads := (threads s)(me \<mapsto> th\<lparr>kt_state := KT_EXITED\<rparr>)\<rparr>)"
    using assms sched_wf_unqueued [OF wf th] unfolding sched_wf_def queues_wf_def link_wf_def by (auto split: if_splits)
  assume "kt_state th = KT_EXITED"
  then have "parked_wf th" using wf th by (simp add: sched_wf_def parked_wf_def asleep_def)
  then show "sched_wf {} s" using assms unfolding sched_wf_def by (metis empty_iff insert_iff option.inject)
qed

lemma sched_wf_new_thread:
  assumes wf: "sched_wf R s" and new: "threads s t = None" and th: "kt_wchan th = None" "kt_qlink th = None"
  shows "sched_wf (insert t R) (s\<lparr>threads := (threads s)(t \<mapsto> th)\<rparr>)"
    and "kt_state th = KT_NO_STATE \<Longrightarrow> t \<notin> R \<Longrightarrow> sched_wf R (s\<lparr>threads := (threads s)(t \<mapsto> th)\<rparr>)"
proof -
  have "t \<notin> set (qlist s q)" for q using wf new by (auto simp: sched_wf_def queues_wf_def)
  with assms show "sched_wf (insert t R) (s\<lparr>threads := (threads s)(t \<mapsto> th)\<rparr>)"
    and "kt_state th = KT_NO_STATE \<Longrightarrow> t \<notin> R \<Longrightarrow> sched_wf R (s\<lparr>threads := (threads s)(t \<mapsto> th)\<rparr>)"
    unfolding sched_wf_defs by (auto split: if_splits)
qed

lemma sched_wf_destroyed:
  assumes wf: "sched_wf R s" and t: "threads s t = Some th" "kt_state th = KT_EXITED" "t \<notin> R"
  shows "sched_wf R (s\<lparr>threads := (threads s)(t := None)\<rparr>)"
proof -
  have "kt_wchan th = None" using sched_wf_parked [OF wf t(1,3)] t(2) by (cases "kt_wchan th") (auto simp: parked_wf_def asleep_def)
  then have "t \<notin> set (qlist s q)" for q using wf t(1) unfolding sched_wf_def link_wf_def by (metis option.distinct(1))
  with wf show ?thesis unfolding sched_wf_defs by (auto split: if_splits)
qed

lemma thr_yield_eq:
  assumes inv: "running_wf s" and me: "curthr s = Some me"
  obtains s1 where "thr_yield env s = sched_switch env s1" "sched_wf {} s1"
    "qlist s1 RUNQ = me # qlist s RUNQ"
proof -
  obtain th where th: "threads s me = Some th" "kt_wchan th = None" "sched_wf {me} s"
    using inv me by (auto elim: running_wfE)
  then have "sched_wf {} (made_runnable me th s)"
    using sched_wf_made_runnable [of me "{}"] by auto
  with that [of "made_runnable me th s"] th me show thesis
    by (auto simp: thr_yield_def sched_make_runnable_eq) (simp add: made_runnable_def)
qed

lemma running_wf_yield:
  assumes inv: "running_wf s" and r: "thr_yield (switched iw n) s = Ret () s'"
  shows "sched_inv s'"
proof -
  obtain me where me: "curthr s = Some me" using inv by (rule running_wfE)
  with inv obtain s1 where s1: "thr_yield (switched iw n) s = sched_switch (switched iw n) s1" "sched_wf {} s1"
    "qlist s1 RUNQ = me # qlist s RUNQ" by (rule thr_yield_eq)
  with r sched_switch_switched [OF s1(2), of iw n] show ?thesis by auto
qed

lemma made_runnable_running:
  assumes wf: "sched_wf (insert t {me}) s" and me: "curthr s = Some me" "threads s me \<noteq> None" "t \<noteq> me"
    and th: "threads s t = Some th"
  shows "running_wf (made_runnable t th s)"
proof -
  have "sched_wf {me} (made_runnable t th s)"
    using sched_wf_made_runnable [of t "{me}", OF wf th] me(3) by (simp add: insert_Diff_if)
  then show ?thesis using me by (auto simp: running_wf_def made_runnable_def)
qed

lemma running_wf_start:
  assumes inv: "running_wf s" and t: "curthr s \<noteq> Some t" "threads s t = Some th"
    "kt_state th = KT_NO_STATE" and r: "sched_make_runnable t s = Ret () s'"
  shows "running_wf s'"
proof -
  obtain me mth where me: "curthr s = Some me" "threads s me = Some mth" "sched_wf {me} s"
    using inv by (auto elim: running_wfE)
  have w: "kt_wchan th = None"
    using sched_wf_parked [OF me(3) t(2)] me t
    by (cases "kt_wchan th") (auto simp: parked_wf_def asleep_def)
  then have "sched_wf (insert t {me}) s" using me t by (auto simp: sched_wf_def)
  then have "running_wf (made_runnable t th s)" using me t by (intro made_runnable_running) auto
  then show ?thesis using r sched_make_runnable_eq [OF t(2) w] by simp
qed

lemma running_wf_clone:
  assumes inv: "running_wf s" and t: "threads s t = None" "kt_wchan th = None" "kt_qlink th = None"
    and r: "sched_make_runnable t (s\<lparr>threads := (threads s)(t \<mapsto> th)\<rparr>) = Ret () s'"
  shows "running_wf s'"
proof -
  let ?s = "s\<lparr>threads := (threads s)(t \<mapsto> th)\<rparr>"
  obtain me mth where me: "curthr s = Some me" "threads s me = Some mth" "sched_wf {me} s"
    using inv by (auto elim: running_wfE)
  have "running_wf (made_runnable t th ?s)"
    using me t sched_wf_new_thread(1) [OF me(3) t] by (intro made_runnable_running) auto
  then show ?thesis using r sched_make_runnable_eq [of ?s t th] t(2) by simp
qed

lemma sched_step_running: "sched_step s s' \<Longrightarrow> running_wf s \<Longrightarrow> running_wf s'"
proof (induction rule: sched_step.induct)
  case (yield iw n s s')
  then show ?case by (blast intro: running_wf_yield sched_inv_running)
next
  case (exited s me s')
  then obtain th where th: "threads s me = Some th" "sched_wf {me} s" by (auto elim: running_wfE)
  with exited sched_wf_exited(1) [OF th(2,1)] show ?case by (auto simp: thr_update_def running_wf_def)
next
  case (leave iw s me th n s')
  then have "sched_wf {me} s" by (auto elim: running_wfE)
  with leave show ?case by (blast intro: running_wf_switch sched_wf_exited(2))
next
  case (wakeup q s r s')
  then obtain me where me: "curthr s = Some me" "sched_wf {me} s" by (auto elim: running_wfE)
  with wakeup sched_wf_wakeup [OF me(2) wakeup(1)] show ?case
    by (auto intro!: running_wf_cong [OF wakeup(3) me(1)])
next
  case (broadcast q s s')
  then obtain me where me: "curthr s = Some me" "sched_wf {me} s" by (auto elim: running_wfE)
  with broadcast sched_broadcast_on_wf [OF me(2) broadcast(1)] show ?case
    by (auto intro!: running_wf_cong [OF broadcast(3) me(1)])
next
  case (cancel t s s')
  then obtain me where me: "curthr s = Some me" "sched_wf {me} s" by (auto elim: running_wfE)
  with cancel sched_cancel_wf [OF me(2) cancel(1)] show ?case
    by (auto intro!: running_wf_cong [OF cancel(2) me(1)])
next
  case (create s t th)
  then obtain me mth where me: "curthr s = Some me" "threads s me = Some mth" "sched_wf {me} s" by (auto elim: running_wfE)
  with create sched_wf_new_thread(2) [OF me(3) create(1,3,4,2)] show ?case by (auto simp: running_wf_def)
next
  case (destroy s t th)
  then obtain me mth where me: "curthr s = Some me" "threads s me = Some mth" "sched_wf {me} s" by (auto elim: running_wfE)
  with destroy sched_wf_destroyed [OF me(3) destroy(2,3)] show ?case by (auto simp: running_wf_def)
qed (blast intro: running_wf_sleep running_wf_csleep running_wf_start running_wf_clone)+

inductive sched_reach :: "'z sched_state_scheme \<Rightarrow> 'z sched_state_scheme \<Rightarrow> bool"
  for s0 where
  reach_here: "sched_reach s0 s0"
| reach_step: "sched_reach s0 s \<Longrightarrow> sched_step s s' \<Longrightarrow> sched_reach s0 s'"

lemma sched_reach_running: "sched_reach s0 s \<Longrightarrow> sched_inv s0 \<Longrightarrow> running_wf s"
  by (induction rule: sched_reach.induct) (auto intro: sched_step_running sched_inv_running)

section \<open>Wait queues as an interface\<close>

text \<open>
  What a client of a wait queue relies on: \<open>wake\<close> removes the thread that has waited longest and
  appends it to those waiting for the processor; on an empty queue it does nothing. Lists are
  oldest first.
\<close>

primrec wake_times ::
  "('s \<Rightarrow> ('t option, 's) kres) \<Rightarrow> nat \<Rightarrow> 's \<Rightarrow> ('t list, 's) kres" where
  "wake_times w 0 s = Ret [] s"
| "wake_times w (Suc n) s =
     bindK (w s) (\<lambda>r s. bindK (wake_times w n s) (\<lambda>ts s.
       Ret (case r of None \<Rightarrow> ts | Some t \<Rightarrow> t # ts) s))"

locale wait_queue =
  fixes wake :: "'s \<Rightarrow> ('t option, 's) kres"
    and waiting :: "'s \<Rightarrow> 't list"
    and runnable :: "'s \<Rightarrow> 't list"
    and invar :: "'s \<Rightarrow> bool"
  assumes wake_first: "invar s \<Longrightarrow> waiting s = t # ts \<Longrightarrow>
      \<exists>s'. wake s = Ret (Some t) s' \<and> invar s' \<and> waiting s' = ts \<and> runnable s' = runnable s @ [t]"
    and wake_none: "invar s \<Longrightarrow> waiting s = [] \<Longrightarrow> wake s = Ret None s"
begin

lemma wake_times_fifo:
  "invar s \<Longrightarrow> n \<le> length (waiting s) \<Longrightarrow>
     \<exists>s'. wake_times wake n s = Ret (take n (waiting s)) s' \<and> invar s'
        \<and> waiting s' = drop n (waiting s) \<and> runnable s' = runnable s @ take n (waiting s)"
proof (induction n arbitrary: s)
  case 0
  then show ?case by simp
next
  case (Suc n)
  then obtain t ts where w: "waiting s = t # ts" by (cases "waiting s") auto
  then obtain s1 where s1: "wake s = Ret (Some t) s1" "invar s1" "waiting s1 = ts"
    "runnable s1 = runnable s @ [t]" using wake_first Suc.prems(1) by blast
  with Suc.IH [OF s1(2)] Suc.prems(2) w show ?case by fastforce
qed

lemma wake_times_all:
  "invar s \<Longrightarrow> \<exists>s'. wake_times wake (length (waiting s)) s = Ret (waiting s) s' \<and> invar s'
     \<and> waiting s' = [] \<and> runnable s' = runnable s @ waiting s"
  using wake_times_fifo [of s "length (waiting s)"] by simp

end

lemma sched_wakeup_on_fifo:
  assumes wf: "sched_wf R s" and q: "q \<noteq> RUNQ" and w: "rev (qlist s q) = t # ts"
  shows "\<exists>s'. sched_wakeup_on q s = Ret (Some t) s' \<and> sched_wf R s' \<and> rev (qlist s' q) = ts
      \<and> rev (qlist s' RUNQ) = rev (qlist s RUNQ) @ [t]"
proof -
  from w have ne: "qlist s q \<noteq> []" and l: "last (qlist s q) = t"
    and bl: "rev (butlast (qlist s q)) = ts"
    by (auto simp: rev_eq_Cons_iff)
  obtain th where th: "threads s t = Some th"
    "sched_wakeup_on q s = Ret (Some t) (moved_to_runq q t th s)"
    using sched_wakeup_on_eq [OF wf q ne] unfolding l by blast
  obtain r s' where "sched_wakeup_on q s = Ret r s'" "sched_wf R s'" "qlist s' q = butlast (qlist s q)"
    using sched_wf_wakeup [OF wf q] by blast
  with th bl show ?thesis by (auto simp: moved_to_runq_def)
qed

text \<open>Every queue of the scheduler but the run queue meets the interface.\<close>

interpretation waitq: wait_queue "sched_wakeup_on q" "\<lambda>s. rev (qlist s q)"
  "\<lambda>s. rev (qlist s RUNQ)" "\<lambda>s. q \<noteq> RUNQ \<and> sched_wf R s" for q R
  by unfold_locales (auto intro!: sched_wakeup_on_fifo simp: sched_wakeup_on_empty)

lemma broadcast_loop_wake_times:
  assumes "q \<noteq> RUNQ" and "sched_wf R s" and "length (qlist s q) = n"
  shows "broadcast_loop n q s = bindK (wake_times (sched_wakeup_on q) n s) (\<lambda>_ s. Ret () s)"
  using assms
proof (induction n arbitrary: s)
  case 0
  then show ?case by (simp add: sched_queue_empty_def)
next
  case (Suc n)
  then have ne: "qlist s q \<noteq> []" by auto
  obtain r s1 where s1: "sched_wakeup_on q s = Ret r s1" "sched_wf R s1"
    "qlist s1 q = butlast (qlist s q)"
    using sched_wf_wakeup [OF Suc.prems(2,1)] by blast
  with Suc.IH [OF Suc.prems(1) s1(2)] Suc.prems(3) ne show ?case
    by (simp add: sched_queue_empty_def bindK_assoc)
qed

section \<open>Example\<close>

text \<open>
  Thread 1 runs, 4 and then 5 wait for the processor, 2 and then 3 went to sleep on the queue of
  mutex 7.
\<close>

definition no_context :: context_t where
  "no_context = \<lparr>c_pdptr = 0, c_eip = 0, c_esp = 0, c_kstack = 0, c_kstacksz = 0\<rparr>"

definition example_thread :: "ktstate \<Rightarrow> qid option \<Rightarrow> kthread" where
  "example_thread st q = \<lparr>kt_state = st, kt_wchan = q, kt_qlink = q, kt_cancelled = False, kt_retval = 0,
     kt_errno = 0, kt_proc = Some 1, kt_kstack = None, kt_ctx = no_context\<rparr>"

definition example_sched :: "'z \<Rightarrow> 'z sched_state_scheme" where
  "example_sched z = \<lparr>threads = [1 \<mapsto> example_thread KT_RUN None, 2 \<mapsto> example_thread KT_SLEEP (Some (KMUTEXQ 7)),
       3 \<mapsto> example_thread KT_SLEEP (Some (KMUTEXQ 7)), 4 \<mapsto> example_thread KT_RUN (Some RUNQ),
       5 \<mapsto> example_thread KT_RUN (Some RUNQ)],
     queues = (\<lambda>_. \<lparr>tq_list = [], tq_size = 0\<rparr>)(RUNQ := \<lparr>tq_list = [5, 4], tq_size = 2\<rparr>,
       KMUTEXQ 7 := \<lparr>tq_list = [3, 2], tq_size = 2\<rparr>),
     curthr = Some 1, curproc = Some 1, ipl = IPL_LOW, \<dots> = z\<rparr>"

lemma example_sched_wf: "sched_wf {1} (example_sched z)"
  unfolding sched_wf_def queues_wf_def
  by (auto simp: example_sched_def example_thread_def link_wf_def parked_wf_def asleep_def split: if_splits)

lemma example_sched_inv: "sched_inv (example_sched z)"
  unfolding sched_inv_def using example_sched_wf
  by (auto simp: example_sched_def example_thread_def)

section \<open>Properties\<close>

text \<open>
  A broadcast on a wait queue returns, empties the queue, and puts every sleeper on the run
  queue behind the threads already there, in the order in which they went to sleep.
\<close>

theorem sched_broadcast_on_fifo:
  assumes "q \<noteq> RUNQ" and "sched_wf R s"
  shows "\<exists>s'. sched_broadcast_on q s = Ret () s' \<and> sched_wf R s' \<and> qlist s' q = []
    \<and> rev (qlist s' RUNQ) = rev (qlist s RUNQ) @ rev (qlist s q)"
proof -
  obtain s' where "wake_times (sched_wakeup_on q) (length (rev (qlist s q))) s = Ret (rev (qlist s q)) s'"
    "sched_wf R s'" "rev (qlist s' q) = []" "rev (qlist s' RUNQ) = rev (qlist s RUNQ) @ rev (qlist s q)"
    using waitq.wake_times_all [of q R s] assms by blast
  then show ?thesis
    using broadcast_loop_wake_times [OF assms refl] by (simp add: sched_broadcast_on_def)
qed

theorem sched_broadcast_on_fifo_witness:
  "\<exists>s'. sched_broadcast_on (KMUTEXQ 7) (example_sched ()) = Ret () s' \<and> sched_wf {1} s' \<and> qlist s' (KMUTEXQ 7) = []
    \<and> rev (qlist s' RUNQ) = rev (qlist (example_sched ()) RUNQ) @ rev (qlist (example_sched ()) (KMUTEXQ 7))"
  by (rule sched_broadcast_on_fifo [OF _ example_sched_wf]) simp

text \<open>
  C4: no thread is lost. In every state the scheduler reaches from a well-formed one, when threads sleep, yield, exit, wake
  and cancel each other, are created, cloned, started and destroyed, and interrupts wake threads while the run queue is empty, a thread
  other than the running one is on the run queue when it is runnable, and on exactly one wait
  queue when it sleeps; and every queue names only existing threads, each once.
\<close>

theorem sched_no_lost_thread:
  assumes "sched_inv s0" and "sched_reach s0 s" and "threads s t = Some th" and "curthr s \<noteq> Some t"
  shows "(kt_state th = KT_RUN \<longleftrightarrow> t \<in> set (qlist s RUNQ))
    \<and> (asleep th \<longleftrightarrow> (\<exists>q. q \<noteq> RUNQ \<and> t \<in> set (qlist s q)))
    \<and> (\<forall>q q'. t \<in> set (qlist s q) \<and> t \<in> set (qlist s q') \<longrightarrow> q = q')
    \<and> (\<forall>q. distinct (qlist s q) \<and> tq_size (queues s q) = int (length (qlist s q)))"
proof -
  obtain me where me: "curthr s = Some me" "sched_wf {me} s"
    using sched_reach_running [OF assms(2,1)] by (rule running_wfE)
  then have l: "link_wf s t th" "queues_wf s" using assms(3) by (auto simp: sched_wf_def)
  have p: "parked_wf th" using sched_wf_parked [OF me(2) assms(3)] me(1) assms(4) by simp
  have "asleep th \<longleftrightarrow> (\<exists>q. q \<noteq> RUNQ \<and> t \<in> set (qlist s q))"
    using p l(1) unfolding parked_wf_def link_wf_def by (metis option.exhaust option.sel option.distinct(1))
  with l p sched_wf_unique [OF me(2)] show ?thesis
    by (auto simp: parked_wf_def link_wf_def queues_wf_def)
qed

theorem sched_no_lost_thread_witness:
  "(kt_state (example_thread KT_SLEEP (Some (KMUTEXQ 7))) = KT_RUN \<longleftrightarrow> 2 \<in> set (qlist (example_sched ()) RUNQ))
    \<and> (asleep (example_thread KT_SLEEP (Some (KMUTEXQ 7))) \<longleftrightarrow> (\<exists>q. q \<noteq> RUNQ \<and> 2 \<in> set (qlist (example_sched ()) q)))
    \<and> (\<forall>q. distinct (qlist (example_sched ()) q)
         \<and> tq_size (queues (example_sched ()) q) = int (length (qlist (example_sched ()) q)))"
proof -
  have "threads (example_sched ()) 2 = Some (example_thread KT_SLEEP (Some (KMUTEXQ 7)))"
    "curthr (example_sched ()) \<noteq> Some 2" by (simp_all add: example_sched_def)
  from sched_no_lost_thread [OF example_sched_inv reach_here this] show ?thesis by blast
qed

primrec yields :: "('z sched_state_scheme) sched_env \<Rightarrow> nat \<Rightarrow> 'z sched_state_scheme \<Rightarrow> (unit, 'z sched_state_scheme) kres" where
  "yields env 0 s = Ret () s"
| "yields env (Suc n) s = bindK (thr_yield env s) (\<lambda>_ s. yields env n s)"

lemma thr_yield_rotates:
  assumes inv: "sched_inv s" and me: "curthr s = Some me"
  shows "\<exists>s'. thr_yield (switched iw n) s = Ret () s' \<and> sched_inv s'
    \<and> curthr s' = Some (last (me # qlist s RUNQ)) \<and> qlist s' RUNQ = butlast (me # qlist s RUNQ)"
proof -
  obtain s1 where s1: "thr_yield (switched iw n) s = sched_switch (switched iw n) s1" "sched_wf {} s1"
    "qlist s1 RUNQ = me # qlist s RUNQ" using sched_inv_running [OF inv] me by (rule thr_yield_eq)
  then show ?thesis using sched_switch_switched [OF s1(2), of iw n] by auto
qed

text \<open>
  C24: yielding is round robin. A runnable thread with \<open>k\<close> threads ahead of it on the run queue is
  running after \<open>k + 1\<close> yields, whatever thread runs in between.
\<close>

theorem yields_reach_every_thread:
  assumes "sched_inv s" and "qlist s RUNQ = younger @ t # older"
  shows "\<exists>s'. yields (switched iw n) (Suc (length older)) s = Ret () s' \<and> sched_inv s' \<and> curthr s' = Some t"
  using assms
proof (induction older arbitrary: s younger rule: rev_induct)
  case Nil
  obtain me where me: "curthr s = Some me" using Nil.prems(1) by (rule sched_invE)
  show ?case using thr_yield_rotates [OF Nil.prems(1) me, of iw n] Nil.prems(2) by auto
next
  case (snoc x older)
  obtain me where me: "curthr s = Some me" using snoc.prems(1) by (rule sched_invE)
  obtain s1 where s1: "thr_yield (switched iw n) s = Ret () s1" "sched_inv s1"
    "qlist s1 RUNQ = (me # younger) @ t # older"
    using thr_yield_rotates [OF snoc.prems(1) me, of iw n] snoc.prems(2) by (auto simp: butlast_append)
  show ?case using snoc.IH [OF s1(2,3)] s1(1) by simp
qed

theorem yields_reach_every_thread_witness:
  "\<exists>s'. yields (switched id 0) (Suc (length [4 :: ptr])) (example_sched ()) = Ret () s' \<and> sched_inv s' \<and> curthr s' = Some 5"
  by (rule yields_reach_every_thread [OF example_sched_inv, where younger = "[]"]) (simp add: example_sched_def)

end
