(* ===== verification/Kmutex.thy ===== *)
theory Kmutex
  imports Sched
begin

text \<open>
  The mutexes of \<open>src/kernel/proc/kmutex.c\<close>. A mutex is named by its address \<open>m\<close>; its holder is a
  field of the state and its wait queue is \<open>KMUTEXQ m\<close>. Locking a taken mutex sleeps, so a lock
  operation takes the scheduler's environment; unlocking hands the mutex to the thread that has
  waited longest.
\<close>

section \<open>State and operations\<close>

record mutex_state = sched_state +
  km_holder :: "ptr \<Rightarrow> ptr option"

abbreviation waiters :: "'z mutex_state_scheme \<Rightarrow> ptr \<Rightarrow> ptr list" where
  "waiters s m \<equiv> rev (qlist s (KMUTEXQ m))"

definition kmutex_init :: "ptr \<Rightarrow> 'z mutex_state_scheme \<Rightarrow> 'z mutex_state_scheme" where
  "kmutex_init m s =
     (let s = sched_queue_init (KMUTEXQ m) s in s\<lparr>km_holder := (km_holder s)(m := None)\<rparr>)"

definition kmutex_lock ::
  "('z mutex_state_scheme) sched_env \<Rightarrow> ptr \<Rightarrow> 'z mutex_state_scheme
     \<Rightarrow> (unit, 'z mutex_state_scheme) kres" where
  "kmutex_lock env m s =
     bindK (kassert (curthr s \<noteq> None \<and> curthr s \<noteq> km_holder s m) s) (\<lambda>_ s.
       if km_holder s m = None then Ret () (s\<lparr>km_holder := (km_holder s)(m := curthr s)\<rparr>)
       else sched_sleep_on env (KMUTEXQ m) s)"

definition kmutex_lock_cancellable ::
  "('z mutex_state_scheme) sched_env \<Rightarrow> ptr \<Rightarrow> 'z mutex_state_scheme
     \<Rightarrow> (errno + unit, 'z mutex_state_scheme) kres" where
  "kmutex_lock_cancellable env m s =
     bindK (kassert (curthr s \<noteq> None \<and> curthr s \<noteq> km_holder s m) s) (\<lambda>_ s.
       if km_holder s m = None
       then Ret (Inr ()) (s\<lparr>km_holder := (km_holder s)(m := curthr s)\<rparr>)
       else sched_cancellable_sleep_on env (KMUTEXQ m) s)"

definition kmutex_unlock ::
  "ptr \<Rightarrow> 'z mutex_state_scheme \<Rightarrow> (unit, 'z mutex_state_scheme) kres" where
  "kmutex_unlock m s =
     bindK (kassert (curthr s \<noteq> None \<and> curthr s = km_holder s m) s) (\<lambda>_ s.
     bindK (if sched_queue_empty (KMUTEXQ m) s
            then Ret () (s\<lparr>km_holder := (km_holder s)(m := None)\<rparr>)
            else bindK (sched_wakeup_on (KMUTEXQ m) s) (\<lambda>h s.
                   Ret () (s\<lparr>km_holder := (km_holder s)(m := h)\<rparr>))) (\<lambda>_ s.
     kassert (curthr s \<noteq> km_holder s m) s))"

section \<open>Mutex invariant\<close>

text \<open>
  Threads wait only for a mutex that is held, and never for one they hold themselves.
\<close>

definition mutex_wf :: "'z mutex_state_scheme \<Rightarrow> bool" where
  "mutex_wf s \<longleftrightarrow> (\<forall>m. (waiters s m \<noteq> [] \<longrightarrow> km_holder s m \<noteq> None)
      \<and> (\<forall>h. km_holder s m = Some h \<longrightarrow> h \<notin> set (waiters s m)))"

definition mutex_inv :: "'z mutex_state_scheme \<Rightarrow> bool" where
  "mutex_inv s \<longleftrightarrow> sched_inv s \<and> mutex_wf s"

text \<open>The invariant of the steps, which also holds while the running thread exits.\<close>

definition mutex_ok :: "'z mutex_state_scheme \<Rightarrow> bool" where
  "mutex_ok s \<longleftrightarrow> running_wf s \<and> mutex_wf s"

lemma mutex_inv_ok: "mutex_inv s \<Longrightarrow> mutex_ok s"
  by (simp add: mutex_inv_def mutex_ok_def sched_inv_running)

lemma sched_wf_km_holder [simp]: "sched_wf R (s\<lparr>km_holder := h\<rparr>) = sched_wf R s"
  by (simp add: sched_wf_def queues_wf_def link_wf_def)

lemma running_wf_km_holder [simp]: "running_wf (s\<lparr>km_holder := h\<rparr>) = running_wf s"
  by (simp add: running_wf_def)

text \<open>The scheduler's own steps do not touch the holders (they are not part of its state).\<close>

lemma moved_to_runq_km_holder [simp]: "km_holder (moved_to_runq q t th s) = km_holder s"
  by (simp add: moved_to_runq_def)

lemma put_to_sleep_km_holder [simp]: "km_holder (put_to_sleep st q t th s) = km_holder s"
  by (simp add: put_to_sleep_def)

lemma dispatched_km_holder [simp]: "km_holder (dispatched t th s) = km_holder s"
  by (simp add: dispatched_def)

lemma set_cancelled_km_holder [simp]: "km_holder (set_cancelled t th s) = km_holder s"
  by (simp add: set_cancelled_def)

lemma mutex_wf_holder: "mutex_wf s \<Longrightarrow> km_holder s m = Some h \<Longrightarrow> h \<notin> set (qlist s (KMUTEXQ m))"
  by (simp add: mutex_wf_def)

lemma mutex_wf_waiters: "mutex_wf s \<Longrightarrow> qlist s (KMUTEXQ m) \<noteq> [] \<Longrightarrow> km_holder s m \<noteq> None"
  by (simp add: mutex_wf_def)

lemma mutex_wfI:
  assumes "\<And>m. qlist s (KMUTEXQ m) \<noteq> [] \<Longrightarrow> km_holder s m \<noteq> None"
    and "\<And>m h. km_holder s m = Some h \<Longrightarrow> h \<notin> set (qlist s (KMUTEXQ m))"
  shows "mutex_wf s"
  using assms by (simp add: mutex_wf_def)

lemma kmutex_unlock_eq:
  assumes wf: "sched_wf R s" and mw: "mutex_wf s"
    and cur: "curthr s = Some me" and h: "km_holder s m = Some me" and w: "waiters s m = t # ts"
  obtains th where "threads s t = Some th" and "t \<noteq> me" and "t \<notin> R"
    and "kmutex_unlock m s = Ret ()
      ((moved_to_runq (KMUTEXQ m) t th s)\<lparr>km_holder := (km_holder s)(m := Some t)\<rparr>)"
proof -
  have ne: "qlist s (KMUTEXQ m) \<noteq> []" and l: "last (qlist s (KMUTEXQ m)) = t"
    using w by (auto simp: rev_eq_Cons_iff)
  have tm: "t \<noteq> me" using mutex_wf_holder [OF mw h] w by (metis list.set_intros(1) set_rev)
  obtain th where th: "threads s t = Some th" "t \<notin> R"
    "sched_wakeup_on (KMUTEXQ m) s = Ret (Some t) (moved_to_runq (KMUTEXQ m) t th s)"
    using sched_wakeup_on_eq [OF wf _ ne] unfolding l by blast
  then have "kmutex_unlock m s = Ret ()
      ((moved_to_runq (KMUTEXQ m) t th s)\<lparr>km_holder := (km_holder s)(m := Some t)\<rparr>)"
    using cur h tm ne
    by (simp add: kmutex_unlock_def sched_queue_empty_def) (simp add: moved_to_runq_def)
  with th(1) tm th(2) show thesis by (rule that)
qed

lemma kmutex_unlock_free:
  assumes "curthr s = Some me" and "km_holder s m = Some me" and "waiters s m = []"
  shows "kmutex_unlock m s = Ret () (s\<lparr>km_holder := (km_holder s)(m := None)\<rparr>)"
  using assms by (simp add: kmutex_unlock_def sched_queue_empty_def)

text \<open>One handover: the oldest waiter holds the mutex, is off the wait queue and is runnable.\<close>

lemma kmutex_unlock_handover:
  assumes wf: "sched_wf R s" and mw: "mutex_wf s"
    and cur: "curthr s = Some me" and h: "km_holder s m = Some me" and w: "waiters s m = t # ts"
  shows "\<exists>s'. kmutex_unlock m s = Ret () s' \<and> sched_wf R s' \<and> mutex_wf s'
    \<and> km_holder s' = (km_holder s)(m := Some t) \<and> waiters s' m = ts
    \<and> rev (qlist s' RUNQ) = rev (qlist s RUNQ) @ [t] \<and> curthr s' = Some me
    \<and> (\<forall>r\<in>R. threads s' r = threads s r)"
proof -
  obtain th where th: "threads s t = Some th" "t \<noteq> me" "t \<notin> R"
    "kmutex_unlock m s = Ret ()
      ((moved_to_runq (KMUTEXQ m) t th s)\<lparr>km_holder := (km_holder s)(m := Some t)\<rparr>)"
    using wf mw cur h w by (rule kmutex_unlock_eq)
  have q: "qlist s (KMUTEXQ m) = rev ts @ [t]" using w by (simp add: rev_eq_Cons_iff)
  have d: "t \<notin> set ts" using wf q unfolding sched_wf_def queues_wf_def
    by (metis distinct.simps(2) distinct_rev w)
  have "sched_wf R (moved_to_runq (KMUTEXQ m) t th s)"
    using wf th(1) q by (auto intro: sched_wf_moved)
  moreover have "remove1 t (rev ts @ [t]) = rev ts" using d by (simp add: remove1_append)
  moreover have "t \<notin> set (qlist s (KMUTEXQ m'))" if "m' \<noteq> m" for m'
    using sched_wf_unique [OF wf, of t "KMUTEXQ m"] q that by fastforce
  ultimately show ?thesis using th cur q d mutex_wf_holder [OF mw] mutex_wf_waiters [OF mw]
    by (auto simp: moved_to_runq_def intro!: mutex_wfI split: if_splits)
qed

lemma kmutex_unlock_ok:
  assumes inv: "mutex_ok s" and u: "kmutex_unlock m s = Ret () s'"
  shows "mutex_ok s'"
proof -
  obtain me where me: "curthr s = Some me" "km_holder s m = Some me"
    using u by (auto simp: kmutex_unlock_def kres_simps)
  have wf: "sched_wf {me} s" and si: "running_wf s" and mw: "mutex_wf s"
    using inv me by (auto simp: mutex_ok_def elim: running_wfE)
  show ?thesis
  proof (cases "waiters s m")
    case Nil
    then show ?thesis using u kmutex_unlock_free [OF me Nil] si mutex_wf_holder [OF mw] mutex_wf_waiters [OF mw]
      by (auto simp: mutex_ok_def intro!: mutex_wfI split: if_splits)
  next
    case (Cons t ts)
    then show ?thesis using kmutex_unlock_handover [OF wf mw me Cons] u me
      by (auto simp: mutex_ok_def intro!: running_wf_cong [OF si me(1)])
  qed
qed

text \<open>
  Going to sleep on a queue adds the running thread to it; interrupts may take sleepers off the wait queues
  before the next thread runs.
\<close>

lemma woken_km_holder: "woken s s' \<Longrightarrow> km_holder s' = km_holder s \<and> (\<forall>q. q \<noteq> RUNQ \<longrightarrow> set (qlist s' q) \<subseteq> set (qlist s q))"
  unfolding woken_def by force

lemma sched_switch_keeps:
  assumes iw: "wakes_only iw" and wf: "sched_wf {} s" and r: "sched_switch (switched iw n) s = Ret () s'"
  shows "km_holder s' = km_holder s \<and> (\<forall>q. q \<noteq> RUNQ \<longrightarrow> set (qlist s' q) \<subseteq> set (qlist s q))"
proof -
  obtain s1 where s1: "sched_wf {} s1" "woken s s1" "qlist s1 RUNQ \<noteq> []" "sched_switch (switched iw n) s1 = Ret () (s'\<lparr>ipl := ipl s1\<rparr>)"
    using sched_switch_idle [OF assms] by blast
  have "last (qlist s1 RUNQ) \<in> set (qlist s1 RUNQ)" using s1(3) by simp
  with s1(1) obtain th where th: "threads s1 (last (qlist s1 RUNQ)) = Some th" by (rule sched_wf_thread)
  have e: "s'\<lparr>ipl := ipl s1\<rparr> = (dispatched (last (qlist s1 RUNQ)) th s1)\<lparr>ipl := ipl s1\<rparr>"
    using sched_switch_eq [OF s1(1,3) th, of "switched iw n"] s1(4) by (simp add: switched_def)
  have "km_holder s' = km_holder s1" "qlist s' q = qlist s1 q" if "q \<noteq> RUNQ" for q
    using arg_cong [OF e, of km_holder] arg_cong [OF e, of "\<lambda>x. qlist x q"] that by (simp_all add: dispatched_def)
  then show ?thesis using woken_km_holder [OF s1(2)] by (metis qid.distinct(1))
qed

lemma put_to_sleep_switch:
  assumes iw: "wakes_only iw" and inv: "running_wf s" and me: "curthr s = Some me" "threads s me = Some th" and q: "q \<noteq> RUNQ"
    and st: "st = KT_SLEEP \<or> st = KT_SLEEP_CANCELLABLE"
    and r: "sched_switch (switched iw n) (put_to_sleep st q me th s) = Ret () s'"
  shows "km_holder s' = km_holder s
    \<and> (\<forall>q'. q' \<noteq> RUNQ \<longrightarrow> set (qlist s' q') \<subseteq> (if q' = q then insert me (set (qlist s q)) else set (qlist s q')))"
proof -
  have "sched_wf {me} s" using inv me by (auto elim: running_wfE)
  then have "sched_wf {} (put_to_sleep st q me th s)"
    using sched_wf_put_to_sleep [of me "{}" s th q st] me q st by auto
  from sched_switch_keeps [OF iw this r] show ?thesis by (auto simp: put_to_sleep_def split: if_splits)
qed

lemma mutex_wf_joined:
  assumes mw: "mutex_wf s" and h: "km_holder s m = Some h" "h \<noteq> me"
    and s': "km_holder s' = km_holder s
      \<and> (\<forall>q'. q' \<noteq> RUNQ \<longrightarrow> set (qlist s' q') \<subseteq> (if q' = KMUTEXQ m then insert me (set (qlist s (KMUTEXQ m))) else set (qlist s q')))"
  shows "mutex_wf s'"
proof (rule mutex_wfI)
  have q: "set (qlist s' (KMUTEXQ n)) \<subseteq> (if n = m then insert me (set (qlist s (KMUTEXQ m))) else set (qlist s (KMUTEXQ n)))" for n
    using conjunct2 [OF s', rule_format, of "KMUTEXQ n"] by simp
  fix n
  show "km_holder s' n \<noteq> None" if ne: "qlist s' (KMUTEXQ n) \<noteq> []"
  proof (cases "n = m")
    case False
    then have "qlist s (KMUTEXQ n) \<noteq> []" using q [of n] ne by (metis empty_set set_empty subset_empty)
    then show ?thesis using s' mutex_wf_waiters [OF mw, of n] by simp
  qed (use h s' in simp)
  fix h' assume "km_holder s' n = Some h'"
  then show "h' \<notin> set (qlist s' (KMUTEXQ n))"
    using h s' q [of n] mutex_wf_holder [OF mw, of n] by (auto split: if_splits)
qed

lemma mutex_ok_taken:
  assumes inv: "mutex_ok s" and cur: "curthr s = Some me"
  shows "mutex_ok (s\<lparr>km_holder := (km_holder s)(m := Some me)\<rparr>)"
proof -
  obtain th where th: "threads s me = Some th" "sched_wf {me} s"
    using inv cur by (auto simp: mutex_ok_def elim: running_wfE)
  then have "me \<notin> set (qlist s q)" for q by (auto dest: sched_wf_unqueued)
  moreover have mw: "mutex_wf s" using inv by (simp add: mutex_ok_def)
  ultimately show ?thesis using inv mutex_wf_holder [OF mw] mutex_wf_waiters [OF mw]
    by (auto simp: mutex_ok_def intro!: mutex_wfI split: if_splits)
qed

lemma kmutex_lock_ok:
  assumes iw: "wakes_only iw" and inv: "mutex_ok s" and r: "kmutex_lock (switched iw n) m s = Ret () s'"
  shows "mutex_ok s'"
proof -
  obtain me th where me: "curthr s = Some me" "threads s me = Some th" "kt_wchan th = None"
    using inv by (auto simp: mutex_ok_def elim: running_wfE)
  show ?thesis
  proof (cases "km_holder s m")
    case None
    then show ?thesis using r me mutex_ok_taken [OF inv me(1)] by (auto simp: kmutex_lock_def)
  next
    case (Some h)
    with r me have sl: "sched_sleep_on (switched iw n) (KMUTEXQ m) s = Ret () s'" and "h \<noteq> me"
      by (auto simp: kmutex_lock_def kres_simps)
    have sw: "sched_switch (switched iw n) (put_to_sleep KT_SLEEP (KMUTEXQ m) me th s) = Ret () s'"
      using sl me by (simp add: sched_sleep_on_def sleep_enqueue_eq)
    have "mutex_wf s'" using inv
      by (intro mutex_wf_joined [OF _ Some \<open>h \<noteq> me\<close> put_to_sleep_switch [OF iw _ me(1,2) _ _ sw]]) (simp_all add: mutex_ok_def)
    then show ?thesis using running_wf_sleep [OF iw _ _ sl] inv by (simp add: mutex_ok_def)
  qed
qed

lemma kmutex_lock_cancellable_ok:
  assumes iw: "wakes_only iw" and inv: "mutex_ok s" and r: "kmutex_lock_cancellable (switched iw n) m s = Ret x s'"
  shows "mutex_ok s'"
proof -
  obtain me th where me: "curthr s = Some me" "threads s me = Some th" "kt_wchan th = None"
    using inv by (auto simp: mutex_ok_def elim: running_wfE)
  show ?thesis
  proof (cases "km_holder s m")
    case None
    then show ?thesis using r me mutex_ok_taken [OF inv me(1)]
      by (auto simp: kmutex_lock_cancellable_def)
  next
    case (Some h)
    with r me have sl: "sched_cancellable_sleep_on (switched iw n) (KMUTEXQ m) s = Ret x s'" and "h \<noteq> me"
      by (auto simp: kmutex_lock_cancellable_def kres_simps)
    consider "s' = s" | "sched_switch (switched iw n) (put_to_sleep KT_SLEEP_CANCELLABLE (KMUTEXQ m) me th s) = Ret () s'"
      using sl me by (auto simp: sched_cancellable_sleep_on_def sleep_enqueue_eq curthr_cancelled_def
          kres_simps split: if_splits option.splits)
    then show ?thesis
    proof cases
      case 1
      then show ?thesis using inv by simp
    next
      case 2
      have "mutex_wf s'" using inv
        by (intro mutex_wf_joined [OF _ Some \<open>h \<noteq> me\<close> put_to_sleep_switch [OF iw _ me(1,2) _ _ 2]]) (simp_all add: mutex_ok_def)
      then show ?thesis using running_wf_csleep [OF iw _ _ sl] inv by (simp add: mutex_ok_def)
    qed
  qed
qed

section \<open>Mutexes as a state machine\<close>

text \<open>
  The steps of a kernel with mutexes: lock, cancellable lock, unlock, and any step of the
  scheduler that neither changes a holder nor puts a thread to sleep on a mutex queue.
\<close>

inductive mutex_step :: "'z mutex_state_scheme \<Rightarrow> 'z mutex_state_scheme \<Rightarrow> bool" where
  lock: "wakes_only iw \<Longrightarrow> kmutex_lock (switched iw n) m s = Ret () s' \<Longrightarrow> mutex_step s s'"
| lock_cancellable: "wakes_only iw \<Longrightarrow> kmutex_lock_cancellable (switched iw n) m s = Ret x s' \<Longrightarrow> mutex_step s s'"
| unlock: "kmutex_unlock m s = Ret () s' \<Longrightarrow> mutex_step s s'"
| other: "sched_step s s' \<Longrightarrow> km_holder s' = km_holder s \<Longrightarrow>
    (\<And>m. set (waiters s' m) \<subseteq> set (waiters s m)) \<Longrightarrow> mutex_step s s'"

inductive mutex_reach :: "'z mutex_state_scheme \<Rightarrow> 'z mutex_state_scheme \<Rightarrow> bool"
  for s0 where
  mreach_here: "mutex_reach s0 s0"
| mreach_step: "mutex_reach s0 s \<Longrightarrow> mutex_step s s' \<Longrightarrow> mutex_reach s0 s'"

lemma mutex_step_ok: "mutex_step s s' \<Longrightarrow> mutex_ok s \<Longrightarrow> mutex_ok s'"
proof (induction rule: mutex_step.induct)
  case (other s s')
  have mw: "mutex_wf s" using other by (simp add: mutex_ok_def)
  have sub: "set (qlist s' (KMUTEXQ m)) \<subseteq> set (qlist s (KMUTEXQ m))" for m
    using other.hyps(3) [of m] by simp
  then have ne: "qlist s (KMUTEXQ m) \<noteq> []" if "qlist s' (KMUTEXQ m) \<noteq> []" for m
    using that by (metis set_empty subset_empty)
  have "mutex_wf s'"
  proof (rule mutex_wfI)
    fix m show "km_holder s' m \<noteq> None" if "qlist s' (KMUTEXQ m) \<noteq> []"
      using that ne mutex_wf_waiters [OF mw] other.hyps(2) by simp
    fix h assume "km_holder s' m = Some h"
    then show "h \<notin> set (qlist s' (KMUTEXQ m))"
      using sub [of m] mutex_wf_holder [OF mw] other.hyps(2) by auto
  qed
  then show ?case using other sched_step_running by (auto simp: mutex_ok_def)
qed (blast intro: kmutex_lock_ok kmutex_lock_cancellable_ok kmutex_unlock_ok)+

section \<open>Example\<close>

text \<open>Thread 1 holds mutex 7, for which threads 2 and 3 wait.\<close>

definition example_mutex :: mutex_state where
  "example_mutex = example_sched (mutex_state.fields (\<lambda>m. if m = 7 then Some 1 else None))"

lemma example_mutex_wf: "mutex_wf example_mutex"
  by (simp add: mutex_wf_def example_mutex_def example_sched_def mutex_state.fields_def)

lemma example_mutex_inv: "mutex_inv example_mutex"
  using example_mutex_wf example_sched_inv by (simp add: mutex_inv_def example_mutex_def)

section \<open>Properties\<close>

text \<open>
  C5: in every reachable state a thread waits only for a mutex that another thread holds, so no
  thread ever sleeps on a free mutex or on one it holds itself.
\<close>

theorem mutex_waiters_have_holder:
  assumes "mutex_inv s0" and "mutex_reach s0 s" and "t \<in> set (waiters s m)"
  shows "\<exists>h. km_holder s m = Some h \<and> h \<noteq> t"
proof -
  have "mutex_ok s" using assms(2,1)
    by (induction rule: mutex_reach.induct) (auto simp: mutex_inv_ok intro: mutex_step_ok)
  then have mw: "mutex_wf s" by (simp add: mutex_ok_def)
  then obtain h where h: "km_holder s m = Some h"
    using mutex_wf_waiters [OF mw, of m] assms(3) by fastforce
  with mutex_wf_holder [OF mw h] assms(3) show ?thesis by auto
qed

theorem mutex_waiters_have_holder_witness:
  "\<exists>h. km_holder example_mutex 7 = Some h \<and> h \<noteq> 2"
  by (rule mutex_waiters_have_holder [OF example_mutex_inv mreach_here]) (simp add: example_mutex_def example_sched_def)

text \<open>Each holder in turn comes to run and unlocks.\<close>

primrec unlocks :: "nat \<Rightarrow> ptr \<Rightarrow> 'z mutex_state_scheme \<Rightarrow> (unit, 'z mutex_state_scheme) kres" where
  "unlocks 0 m s = Ret () s"
| "unlocks (Suc n) m s =
     bindK (kmutex_unlock m (s\<lparr>curthr := km_holder s m\<rparr>)) (\<lambda>_ s. unlocks n m s)"

text \<open>
  C25: a mutex is granted in the order of waiting. When \<open>n\<close> successive holders have unlocked, the
  mutex is held by the \<open>n\<close>-th waiter, and the threads behind it still wait in their order.
\<close>

theorem kmutex_fifo_handover:
  assumes "sched_wf R s" and "mutex_wf s" and "km_holder s m = Some h" and "n \<le> length (waiters s m)"
  shows "\<exists>s'. unlocks n m s = Ret () s' \<and> km_holder s' m = Some ((h # waiters s m) ! n)
    \<and> waiters s' m = drop n (waiters s m)"
  using assms
proof (induction n arbitrary: s h)
  case 0
  then show ?case by simp
next
  case (Suc n)
  obtain t ts where w: "waiters s m = t # ts" using Suc.prems(4) by (cases "waiters s m") auto
  let ?s = "s\<lparr>curthr := Some h\<rparr>"
  have "sched_wf R ?s" "mutex_wf ?s" using Suc.prems(1,2) by (simp_all add: mutex_wf_def)
  then obtain s1 where s1: "kmutex_unlock m ?s = Ret () s1" "sched_wf R s1" "mutex_wf s1"
    "km_holder s1 m = Some t" "waiters s1 m = ts"
    using kmutex_unlock_handover [of R ?s h m t ts] Suc.prems(3) w by auto
  have "n \<le> length (waiters s1 m)" using Suc.prems(4) w s1(5) by simp
  from Suc.IH [OF s1(2-4) this] show ?case using s1 w Suc.prems(3) by simp
qed

theorem kmutex_fifo_handover_witness:
  "\<exists>s'. unlocks 2 7 example_mutex = Ret () s' \<and> km_holder s' 7 = Some ((1 # waiters example_mutex 7) ! 2)
    \<and> waiters s' 7 = drop 2 (waiters example_mutex 7)"
proof (rule kmutex_fifo_handover [OF _ example_mutex_wf])
  show "sched_wf {1} example_mutex" unfolding example_mutex_def by (rule example_sched_wf)
qed (simp_all add: example_mutex_def example_sched_def mutex_state.fields_def)

end
