(* ===== verification/Vmarea.thy ===== *)
theory Vmarea
  imports Kprelude
begin

text \<open>
  Virtual memory areas and the list operations of \<open>src/kernel/vm/vmmap.c\<close> that read or order an
  address space without touching memory objects: \<open>vmmap_insert\<close>, \<open>vmmap_find_range\<close>,
  \<open>vmmap_lookup\<close> and \<open>vmmap_is_range_empty\<close>. Page numbers are 32-bit words and every subtraction
  wraps around as in the code.

  The abstract view of an address space is a partial function from page numbers to what is
  mapped there (\<open>view\<close>); the operations are shown to read and update that function.
\<close>

section \<open>Data\<close>

text \<open>
  \<open>vma_id\<close> is the address of the area, which pointer comparison and list links go by. \<open>vma_olink\<close> names the object in whose list
  of areas the link is, and is None for a link with null pointers.
\<close>

record vmarea =
  vma_id :: ptr
  vma_start :: u32
  vma_end :: u32
  vma_off :: u32
  vma_prot :: u32
  vma_flags :: u32
  vma_vmmap :: "ptr option"
  vma_obj :: "ptr option"
  vma_olink :: "ptr option"

record vmmap =
  vmm_id :: ptr
  vmm_list :: "vmarea list"
  vmm_proc :: "ptr option"

datatype vmdir = VMMAP_DIR_LOHI | VMMAP_DIR_HILO | VMMAP_DIR_OTHER

section \<open>Operations\<close>

fun vmlist_insert :: "vmarea \<Rightarrow> vmarea list \<Rightarrow> vmarea list" where
  "vmlist_insert newvma [] = [newvma]"
| "vmlist_insert newvma (oldvma # rest) =
     (if vma_start oldvma > vma_start newvma \<and> vma_end oldvma > vma_end newvma
      then newvma # oldvma # rest
      else oldvma # vmlist_insert newvma rest)"

definition vmmap_insert :: "kconfig \<Rightarrow> vmarea \<Rightarrow> vmmap \<Rightarrow> (unit, vmmap) kres" where
  "vmmap_insert c newvma m =
     bindK (kassert (vma_vmmap newvma = None) m) (\<lambda>_ m.
     bindK (kassert (vma_start newvma < vma_end newvma) m) (\<lambda>_ m.
     bindK (kassert (user_lo c \<le> vma_start newvma \<and> user_hi c \<ge> vma_end newvma) m) (\<lambda>_ m.
       let newvma = newvma\<lparr>vma_vmmap := Some (vmm_id m)\<rparr>
       in Ret () (m\<lparr>vmm_list := vmlist_insert newvma (vmm_list m)\<rparr>))))"

fun lohi_scan :: "u32 \<Rightarrow> u32 \<Rightarrow> vmarea \<Rightarrow> vmarea list \<Rightarrow> int" where
  "lohi_scan hi npages vma_prev [] =
     (if hi - vma_end vma_prev \<ge> npages then sint (vma_end vma_prev) else -1)"
| "lohi_scan hi npages vma_prev (vma_cur # rest) =
     (if vma_id vma_prev \<noteq> vma_id vma_cur
      then if vma_start vma_cur - vma_end vma_prev \<ge> npages then sint (vma_end vma_prev)
           else lohi_scan hi npages vma_cur rest
      else lohi_scan hi npages vma_prev rest)"

text \<open>The scan from high to low runs over the reversed list.\<close>

fun hilo_scan :: "u32 \<Rightarrow> u32 \<Rightarrow> vmarea \<Rightarrow> vmarea list \<Rightarrow> int" where
  "hilo_scan lo npages vma_prev [] =
     (if vma_start vma_prev \<ge> npages
      then if vma_start vma_prev - npages \<ge> lo then sint (vma_start vma_prev - npages) else -1
      else -1)"
| "hilo_scan lo npages vma_prev (vma_cur # rest) =
     (if vma_id vma_prev \<noteq> vma_id vma_cur \<and> vma_start vma_prev - vma_end vma_cur \<ge> npages
      then sint (vma_start vma_prev - npages)
      else hilo_scan lo npages vma_cur rest)"

definition vmmap_find_range :: "kconfig \<Rightarrow> u32 \<Rightarrow> vmdir \<Rightarrow> vmmap \<Rightarrow> (int, vmmap) kres" where
  "vmmap_find_range c npages dir m =
     bindK (kassert (0 < npages) m) (\<lambda>_ m.
       let xs = vmm_list m in
       case dir of
         VMMAP_DIR_LOHI \<Rightarrow>
           if xs = [] then Ret (sint (user_lo c)) m
           else if vma_start (hd xs) \<noteq> user_lo c \<and> vma_start (hd xs) - user_lo c \<ge> npages
             then Ret (sint (user_lo c)) m
           else Ret (lohi_scan (user_hi c) npages (hd xs) xs) m
       | VMMAP_DIR_HILO \<Rightarrow>
           if xs = [] then Ret (sint (user_hi c - npages)) m
           else if user_hi c - vma_end (last xs) \<ge> npages
             then Ret (sint (user_hi c - npages)) m
           else Ret (hilo_scan (user_lo c) npages (last xs) (rev xs)) m
       | VMMAP_DIR_OTHER \<Rightarrow> Ret (-1) m)"

definition vmmap_lookup :: "vmmap \<Rightarrow> u32 \<Rightarrow> vmarea option" where
  "vmmap_lookup m vfn = find (\<lambda>vma. vma_start vma \<le> vfn \<and> vma_end vma > vfn) (vmm_list m)"

definition vmmap_is_range_empty :: "kconfig \<Rightarrow> u32 \<Rightarrow> u32 \<Rightarrow> vmmap \<Rightarrow> (bool, vmmap) kres" where
  "vmmap_is_range_empty c startvfn npages m =
     (let endvfn = startvfn + npages in
      bindK (kassert (startvfn < endvfn \<and> user_lo c \<le> startvfn \<and> user_hi c \<ge> endvfn) m) (\<lambda>_ m.
        Ret (\<forall>vma\<in>set (vmm_list m). startvfn \<ge> vma_end vma \<or> endvfn \<le> vma_start vma) m))"

section \<open>Well-formed address spaces\<close>

text \<open>
  The areas are ordered and disjoint, each is a non-empty part of user memory, and no area is
  listed twice.
\<close>

definition before :: "vmarea \<Rightarrow> vmarea \<Rightarrow> bool" where
  "before a b \<longleftrightarrow> vma_end a \<le> vma_start b"

definition vma_ok :: "kconfig \<Rightarrow> vmarea \<Rightarrow> bool" where
  "vma_ok c a \<longleftrightarrow> vma_start a < vma_end a \<and> user_lo c \<le> vma_start a \<and> vma_end a \<le> user_hi c"

definition vmas_ok :: "kconfig \<Rightarrow> vmarea list \<Rightarrow> bool" where
  "vmas_ok c xs \<longleftrightarrow> sorted_wrt before xs \<and> (\<forall>a\<in>set xs. vma_ok c a) \<and> distinct (map vma_id xs)"

definition covers :: "vmarea \<Rightarrow> u32 \<Rightarrow> bool" where
  "covers a v \<longleftrightarrow> vma_start a \<le> v \<and> v < vma_end a"

text \<open>
  What an area maps at page \<open>v\<close>: protection, flags, memory object and page of the object; and the
  address space as a partial function.
\<close>

type_synonym pageview = "u32 \<times> u32 \<times> ptr option \<times> u32"

definition page_of :: "vmarea \<Rightarrow> u32 \<Rightarrow> pageview" where
  "page_of a v = (vma_prot a, vma_flags a, vma_obj a, vma_off a + (v - vma_start a))"

definition view :: "vmarea list \<Rightarrow> u32 \<rightharpoonup> pageview" where
  "view xs v = map_option (\<lambda>a. page_of a v) (find (\<lambda>a. covers a v) xs)"

text \<open>
  \<open>free_range c xs v n\<close>: the \<open>n\<close> pages from \<open>v\<close> lie in user memory and none of them is mapped.
  The second form speaks of the boundaries of the areas, as the code does.
\<close>

definition free_range :: "kconfig \<Rightarrow> vmarea list \<Rightarrow> u32 \<Rightarrow> u32 \<Rightarrow> bool" where
  "free_range c xs v n \<longleftrightarrow> unat (user_lo c) \<le> unat v \<and> unat v + unat n \<le> unat (user_hi c) \<and>
     (\<forall>w. unat v \<le> unat w \<and> unat w < unat v + unat n \<longrightarrow> view xs w = None)"

definition clear_of :: "vmarea list \<Rightarrow> nat \<Rightarrow> nat \<Rightarrow> bool" where
  "clear_of xs v n \<longleftrightarrow> (\<forall>a\<in>set xs. v + n \<le> unat (vma_start a) \<or> unat (vma_end a) \<le> v)"

lemma view_eq_None: "view xs v = None \<longleftrightarrow> (\<forall>a\<in>set xs. \<not> covers a v)"
  by (auto simp: view_def find_None_iff)

lemma covers_unat: "covers a v \<longleftrightarrow> unat (vma_start a) \<le> unat v \<and> unat v < unat (vma_end a)"
  by (simp add: covers_def word_le_nat_alt word_less_nat_alt)

lemma vma_okD:
  assumes "vma_ok c a"
  shows "unat (vma_start a) < unat (vma_end a)" "unat (user_lo c) \<le> unat (vma_start a)"
    "unat (vma_end a) \<le> unat (user_hi c)" "unat (vma_start a) < 2 ^ 20" "unat (vma_end a) < 2 ^ 20"
  using assms unat_user_hi [of c] by (auto simp: vma_ok_def word_le_nat_alt word_less_nat_alt)

lemma vmas_okD: "vmas_ok c xs \<Longrightarrow> a \<in> set xs \<Longrightarrow> vma_ok c a"
  by (simp add: vmas_ok_def)

lemma covers_unique:
  assumes "vmas_ok c xs" and "a \<in> set xs" and "b \<in> set xs" and "covers a v" and "covers b v"
  shows "a = b"
proof -
  have "sorted_wrt before xs" using assms(1) by (simp add: vmas_ok_def)
  then show ?thesis using assms(2-5)
    by (induction xs) (auto simp: before_def covers_unat word_le_nat_alt)
qed

lemma vmmap_lookup_covers: "vmmap_lookup m v = find (\<lambda>a. covers a v) (vmm_list m)"
  by (simp add: vmmap_lookup_def covers_def)

lemma find_covers_eq:
  assumes "vmas_ok c xs"
  shows "find (\<lambda>a. covers a v) xs = Some a \<longleftrightarrow> a \<in> set xs \<and> covers a v"
proof
  assume "find (\<lambda>a. covers a v) xs = Some a"
  then show "a \<in> set xs \<and> covers a v" by (auto simp: find_Some_iff)
next
  assume a: "a \<in> set xs \<and> covers a v"
  then obtain b where b: "find (\<lambda>a. covers a v) xs = Some b"
    by (cases "find (\<lambda>a. covers a v) xs") (auto simp: find_None_iff)
  then have "b \<in> set xs" "covers b v" by (auto simp: find_Some_iff)
  with a b show "find (\<lambda>a. covers a v) xs = Some a" using covers_unique [OF assms] by blast
qed

lemma unmapped_clear_of:
  assumes ok: "\<forall>a\<in>set xs. vma_ok c a" and n: "0 < n" and fit: "v + n \<le> 2 ^ 32"
  shows "(\<forall>w. v \<le> unat w \<and> unat w < v + n \<longrightarrow> view xs w = None) \<longleftrightarrow> clear_of xs v n"
proof
  assume free: "\<forall>w. v \<le> unat w \<and> unat w < v + n \<longrightarrow> view xs w = None"
  show "clear_of xs v n" unfolding clear_of_def
  proof (intro ballI)
    fix a assume a: "a \<in> set xs"
    then have s: "unat (vma_start a) < unat (vma_end a)" using ok vma_okD(1) by blast
    have nc: "\<not> (v \<le> unat w \<and> unat w < v + n \<and> covers a w)" for w
      using free a by (auto simp: view_eq_None)
    have "unat (of_nat v :: u32) = v" using fit n by (simp add: unat_of_nat)
    with nc [of "vma_start a"] nc [of "of_nat v"] s n
    show "v + n \<le> unat (vma_start a) \<or> unat (vma_end a) \<le> v" by (auto simp: covers_unat)
  qed
next
  assume "clear_of xs v n"
  then show "\<forall>w. v \<le> unat w \<and> unat w < v + n \<longrightarrow> view xs w = None"
    by (fastforce simp: clear_of_def view_eq_None covers_unat)
qed

lemma free_range_iff:
  assumes "vmas_ok c xs" and "0 < n"
  shows "free_range c xs v n \<longleftrightarrow> unat (user_lo c) \<le> unat v \<and> unat v + unat n \<le> unat (user_hi c)
    \<and> clear_of xs (unat v) (unat n)"
proof -
  have "0 < unat n" using assms(2) by (simp add: word_less_nat_alt)
  moreover have "\<forall>a\<in>set xs. vma_ok c a" using assms(1) by (simp add: vmas_ok_def)
  ultimately show ?thesis
    using unmapped_clear_of [of xs c "unat n" "unat v"] unat_user_hi [of c]
    unfolding free_range_def by auto
qed

section \<open>Insertion\<close>

lemma set_vmlist_insert: "set (vmlist_insert a xs) = insert a (set xs)"
  by (induction xs) auto

lemma map_id_vmlist_insert:
  "distinct (map vma_id (vmlist_insert a xs)) \<longleftrightarrow> vma_id a \<notin> vma_id ` set xs \<and> distinct (map vma_id xs)"
  by (induction xs) (auto simp: set_vmlist_insert)

lemma sorted_vmlist_insert:
  assumes "sorted_wrt before xs" and "\<forall>b\<in>set xs. before a b \<or> before b a"
    and "\<forall>b\<in>insert a (set xs). vma_start b < vma_end b"
  shows "sorted_wrt before (vmlist_insert a xs)"
  using assms
proof (induction xs)
  case (Cons b xs)
  have ab: "vma_start a < vma_end a" "vma_start b < vma_end b" using Cons.prems(3) by simp_all
  have bx: "\<forall>x\<in>set xs. before b x" and IH: "sorted_wrt before (vmlist_insert a xs)"
    using Cons by simp_all
  show ?case
  proof (cases "before a b")
    case True
    then have "vma_start a < vma_start b" "vma_end a < vma_end b"
      using ab by (simp_all add: before_def)
    moreover have "before a x" if "x \<in> set xs" for x
      using bx that True ab by (force simp: before_def)
    ultimately show ?thesis using Cons.prems(1) True by simp
  next
    case False
    then have "before b a" using Cons.prems(2) by simp
    moreover have "\<not> vma_start a < vma_start b" using ab \<open>before b a\<close> by (simp add: before_def)
    ultimately show ?thesis using IH bx by (simp add: set_vmlist_insert)
  qed
qed simp

lemma view_override:
  assumes ok: "vmas_ok c ys" and set: "set ys = insert a (set xs)" and xs: "vmas_ok c xs"
  shows "view ys = (\<lambda>v. if covers a v then Some (page_of a v) else view xs v)"
proof
  fix v
  show "view ys v = (if covers a v then Some (page_of a v) else view xs v)"
  proof (cases "covers a v")
    case True
    with set have "find (\<lambda>a. covers a v) ys = Some a" by (simp add: find_covers_eq [OF ok])
    with True show ?thesis by (simp add: view_def)
  next
    case False
    have "find (\<lambda>a. covers a v) ys = Some b \<longleftrightarrow> find (\<lambda>a. covers a v) xs = Some b" for b
      using False set by (auto simp: find_covers_eq [OF ok] find_covers_eq [OF xs])
    then have "find (\<lambda>a. covers a v) ys = find (\<lambda>a. covers a v) xs"
      by (metis not_Some_eq)
    with False show ?thesis by (simp add: view_def)
  qed
qed

lemma vmlist_insert_ok:
  assumes ok: "vmas_ok c xs" and a: "vma_ok c a" and fresh: "vma_id a \<notin> vma_id ` set xs"
    and free: "\<forall>v. covers a v \<longrightarrow> view xs v = None"
  shows "vmas_ok c (vmlist_insert a xs)"
proof -
  have "before a b \<or> before b a" if b: "b \<in> set xs" for b
  proof -
    have "\<not> (covers a v \<and> covers b v)" for v using free b by (auto simp: view_eq_None)
    from this [of "vma_start a"] this [of "vma_start b"] vma_okD(1) [OF a] vma_okD(1) [OF vmas_okD [OF ok b]]
    show ?thesis by (auto simp: covers_unat before_def word_le_nat_alt)
  qed
  then show ?thesis using assms
    by (auto simp: vmas_ok_def set_vmlist_insert map_id_vmlist_insert vma_ok_def intro!: sorted_vmlist_insert)
qed

lemma vma_vmmap_update [simp]:
  "vma_ok c (a\<lparr>vma_vmmap := p\<rparr>) = vma_ok c a" "covers (a\<lparr>vma_vmmap := p\<rparr>) = covers a"
  "page_of (a\<lparr>vma_vmmap := p\<rparr>) = page_of a"
  by (auto simp: vma_ok_def covers_def page_of_def fun_eq_iff)

section \<open>The search for a free range\<close>

text \<open>
  Of the gaps at or above the end of the previous area, \<open>lohi_scan\<close> returns the lowest that
  fits; of those at or below the start of the previous area, \<open>hilo_scan\<close> the highest.
\<close>

lemma unat_diff_ge: "unat b \<le> unat (a::u32) \<Longrightarrow> unat (a - b) = unat a - unat b"
  by (simp add: unat_sub word_le_nat_alt)

lemmas vfn_arith = word_le_nat_alt unat_diff_ge clear_of_def before_def

lemma clear_of_Cons: "clear_of (a # xs) v n \<longleftrightarrow>
    (v + n \<le> unat (vma_start a) \<or> unat (vma_end a) \<le> v) \<and> clear_of xs v n"
  by (simp add: clear_of_def)

lemma clear_of_ConsD: "clear_of (a # xs) v n \<Longrightarrow> clear_of xs v n"
  by (simp add: clear_of_def)

lemma lohi_scan_correct:
  assumes "vmas_ok c (p # xs)" and "0 < n" and "unat hi = unat (user_hi c)"
  shows "(lohi_scan hi n p xs = -1 \<and>
            (\<forall>v. unat (vma_end p) \<le> v \<and> v + unat n \<le> unat hi \<longrightarrow> \<not> clear_of xs v (unat n)))
       \<or> (\<exists>w::u32. lohi_scan hi n p xs = int (unat w) \<and> unat (vma_end p) \<le> unat w
            \<and> unat w + unat n \<le> unat hi \<and> clear_of xs (unat w) (unat n)
            \<and> (\<forall>v. unat (vma_end p) \<le> v \<and> clear_of xs v (unat n) \<longrightarrow> unat w \<le> v))"
  using assms
proof (induction xs arbitrary: p)
  case Nil
  then have p: "vma_ok c p" by (simp add: vmas_ok_def)
  have "unat (hi - vma_end p) = unat hi - unat (vma_end p)"
    using vma_okD(3) [OF p] Nil by (simp add: unat_diff_ge)
  note fit = this
  show ?case
  proof (cases "n \<le> hi - vma_end p")
    case True
    then show ?thesis using vma_okD [OF p] Nil fit
      by (intro disjI2 exI [of _ "vma_end p"]) (simp add: vfn_arith sint_vfn)
  next
    case False
    then show ?thesis using vma_okD [OF p] Nil fit
      by (intro disjI1) (auto simp: vfn_arith)
  qed
next
  case (Cons q xs)
  have ok: "vmas_ok c (q # xs)" and p: "vma_ok c p" and q: "vma_ok c q" and ne: "vma_id p \<noteq> vma_id q"
    and pq: "unat (vma_end p) \<le> unat (vma_start q)"
    using Cons.prems(1) by (auto simp: vmas_ok_def before_def word_le_nat_alt)
  have above: "unat (vma_end q) \<le> unat (vma_start b)" if "b \<in> set xs" for b
    using ok that by (auto simp: vmas_ok_def before_def word_le_nat_alt)
  note bnd = vma_okD [OF p] vma_okD [OF q]
  show ?case
  proof (cases "n \<le> vma_start q - vma_end p")
    case True
    then have fits: "unat (vma_end p) + unat n \<le> unat (vma_start q)"
      using pq by (simp add: vfn_arith)
    then have "clear_of (q # xs) (unat (vma_end p)) (unat n)"
      using above bnd(6) by (fastforce simp: clear_of_def)
    then show ?thesis using True ne fits bnd Cons.prems(3)
      by (intro disjI2 exI [of _ "vma_end p"]) (simp add: sint_vfn)
  next
    case False
    then have nofit: "\<not> unat (vma_end p) + unat n \<le> unat (vma_start q)"
      using pq by (simp add: vfn_arith)
    then have up: "unat (vma_end q) \<le> v" if "unat (vma_end p) \<le> v" "clear_of (q # xs) v (unat n)" for v
      using that by (auto simp: clear_of_def)
    have step: "lohi_scan hi n p (q # xs) = lohi_scan hi n q xs" using ne False by simp
    show ?thesis using Cons.IH [OF ok Cons.prems(2,3)]
    proof (elim disjE exE conjE)
      assume "lohi_scan hi n q xs = -1"
        and "\<forall>v. unat (vma_end q) \<le> v \<and> v + unat n \<le> unat hi \<longrightarrow> \<not> clear_of xs v (unat n)"
      then show ?thesis using step up by (intro disjI1) (auto dest: clear_of_ConsD)
    next
      fix w :: u32
      assume "lohi_scan hi n q xs = int (unat w)" "unat (vma_end q) \<le> unat w"
        "unat w + unat n \<le> unat hi" "clear_of xs (unat w) (unat n)"
        "\<forall>v. unat (vma_end q) \<le> v \<and> clear_of xs v (unat n) \<longrightarrow> unat w \<le> v"
      then show ?thesis using step up bnd pq
        by (intro disjI2 exI [of _ w]) (auto simp: clear_of_Cons dest: clear_of_ConsD)
    qed
  qed
qed

lemma hilo_scan_correct:
  assumes "vmas_ok c (rev (p # xs))" and "0 < n" and "unat lo = unat (user_lo c)"
  shows "(hilo_scan lo n p xs = -1 \<and>
            (\<forall>v. unat lo \<le> v \<and> v + unat n \<le> unat (vma_start p) \<longrightarrow> \<not> clear_of xs v (unat n)))
       \<or> (\<exists>w::u32. hilo_scan lo n p xs = int (unat w) \<and> unat lo \<le> unat w
            \<and> unat w + unat n \<le> unat (vma_start p) \<and> clear_of xs (unat w) (unat n)
            \<and> (\<forall>v. v + unat n \<le> unat (vma_start p) \<and> clear_of xs v (unat n) \<longrightarrow> v \<le> unat w))"
  using assms
proof (induction xs arbitrary: p)
  case Nil
  then have p: "vma_ok c p" by (simp add: vmas_ok_def)
  show ?case
  proof (cases "n \<le> vma_start p \<and> lo \<le> vma_start p - n")
    case True
    then have "unat (vma_start p - n) = unat (vma_start p) - unat n" by (simp add: vfn_arith)
    then show ?thesis using vma_okD [OF p] Nil True
      by (intro disjI2 exI [of _ "vma_start p - n"]) (auto simp: vfn_arith sint_vfn)
  next
    case False
    then show ?thesis using vma_okD [OF p] Nil
      by (intro disjI1) (auto simp: vfn_arith)
  qed
next
  case (Cons q xs)
  have ok: "vmas_ok c (rev (q # xs))" and p: "vma_ok c p" and q: "vma_ok c q" and ne: "vma_id p \<noteq> vma_id q"
    and pq: "unat (vma_end q) \<le> unat (vma_start p)"
    using Cons.prems(1) by (auto simp: vmas_ok_def before_def word_le_nat_alt sorted_wrt_append)
  have below: "unat (vma_end b) \<le> unat (vma_start q)" if "b \<in> set xs" for b
    using ok that by (auto simp: vmas_ok_def before_def word_le_nat_alt sorted_wrt_append)
  note bnd = vma_okD [OF p] vma_okD [OF q]
  show ?case
  proof (cases "n \<le> vma_start p - vma_end q")
    case True
    then have fits: "unat (vma_end q) + unat n \<le> unat (vma_start p)"
      using pq by (simp add: vfn_arith)
    then have e: "unat (vma_start p - n) = unat (vma_start p) - unat n" by (simp add: unat_diff_ge)
    have "clear_of (q # xs) (unat (vma_start p) - unat n) (unat n)"
      using below bnd(6) fits by (fastforce simp: clear_of_def)
    then show ?thesis using True ne fits bnd Cons.prems(3) e
      by (intro disjI2 exI [of _ "vma_start p - n"]) (auto simp: sint_vfn)
  next
    case False
    then have nofit: "\<not> unat (vma_end q) + unat n \<le> unat (vma_start p)"
      using pq by (simp add: vfn_arith)
    then have down: "v + unat n \<le> unat (vma_start q)"
      if "v + unat n \<le> unat (vma_start p)" "clear_of (q # xs) v (unat n)" for v
      using that by (auto simp: clear_of_def)
    have step: "hilo_scan lo n p (q # xs) = hilo_scan lo n q xs" using ne False by simp
    show ?thesis using Cons.IH [OF ok Cons.prems(2,3)]
    proof (elim disjE exE conjE)
      assume "hilo_scan lo n q xs = -1"
        and "\<forall>v. unat lo \<le> v \<and> v + unat n \<le> unat (vma_start q) \<longrightarrow> \<not> clear_of xs v (unat n)"
      then show ?thesis using step down by (intro disjI1) (auto dest: clear_of_ConsD)
    next
      fix w :: u32
      assume "hilo_scan lo n q xs = int (unat w)" "unat lo \<le> unat w"
        "unat w + unat n \<le> unat (vma_start q)" "clear_of xs (unat w) (unat n)"
        "\<forall>v. v + unat n \<le> unat (vma_start q) \<and> clear_of xs v (unat n) \<longrightarrow> v \<le> unat w"
      then show ?thesis using step down bnd pq
        by (intro disjI2 exI [of _ w]) (auto simp: clear_of_Cons dest: clear_of_ConsD)
    qed
  qed
qed

section \<open>Properties\<close>

text \<open>An address space with two areas, for the examples.\<close>

definition example_vma :: "ptr \<Rightarrow> u32 \<Rightarrow> u32 \<Rightarrow> vmarea" where
  "example_vma i lo hi = \<lparr>vma_id = i, vma_start = lo, vma_end = hi, vma_off = 0, vma_prot = 3,
     vma_flags = 2, vma_vmmap = None, vma_obj = Some i, vma_olink = None\<rparr>"

definition example_map :: vmmap where
  "example_map = \<lparr>vmm_id = 1, vmm_list = [example_vma 2 0x400 0x410, example_vma 3 0x418 0x500],
     vmm_proc = None\<rparr>"

lemma example_map_ok: "vmas_ok example_cfg (vmm_list example_map)"
  by (simp add: example_map_def example_vma_def vmas_ok_def before_def vma_ok_def)

text \<open>
  C7: inserting an area into a free part of the address space succeeds, keeps the list of areas
  ordered, disjoint and within user memory, maps exactly the pages of the new area to it and leaves
  every other page as it was.
\<close>

theorem vmmap_insert_correct:
  assumes ok: "vmas_ok c (vmm_list m)" and a: "vma_ok c a" and n: "vma_vmmap a = None"
    and fresh: "vma_id a \<notin> vma_id ` set (vmm_list m)"
    and free: "\<forall>v. covers a v \<longrightarrow> view (vmm_list m) v = None"
  shows "\<exists>m'. vmmap_insert c a m = Ret () m' \<and> vmas_ok c (vmm_list m')
    \<and> view (vmm_list m') = (\<lambda>v. if covers a v then Some (page_of a v) else view (vmm_list m) v)"
proof -
  let ?a = "a\<lparr>vma_vmmap := Some (vmm_id m)\<rparr>"
  let ?xs = "vmlist_insert ?a (vmm_list m)"
  have r: "vmmap_insert c a m = Ret () (m\<lparr>vmm_list := ?xs\<rparr>)"
    using a n by (simp add: vmmap_insert_def vma_ok_def)
  have "vmas_ok c ?xs" using vmlist_insert_ok [of c "vmm_list m" ?a] ok a fresh free by simp
  with view_override [OF this set_vmlist_insert ok] r show ?thesis by (simp cong: if_cong)
qed

theorem vmmap_insert_correct_witness:
  "\<exists>m'. vmmap_insert example_cfg (example_vma 4 0x412 0x416) example_map = Ret () m'
     \<and> vmas_ok example_cfg (vmm_list m')
     \<and> view (vmm_list m') = (\<lambda>v. if covers (example_vma 4 0x412 0x416) v
          then Some (page_of (example_vma 4 0x412 0x416) v) else view (vmm_list example_map) v)"
  by (rule vmmap_insert_correct [OF example_map_ok])
    (auto simp: example_map_def example_vma_def vma_ok_def view_eq_None covers_unat)

text \<open>
  A range of user pages is reported empty exactly when no page of it is mapped; the call fails
  its assertion exactly when the range is empty, wraps around or leaves user memory.
\<close>

theorem vmmap_is_range_empty_correct:
  assumes "vmas_ok c (vmm_list m)"
  shows "vmmap_is_range_empty c v n m =
    (if 0 < n \<and> unat (user_lo c) \<le> unat v \<and> unat v + unat n \<le> unat (user_hi c)
     then Ret (free_range c (vmm_list m) v n) m else Stop KASSERT_failed)"
proof -
  have hi: "unat (user_hi c) < 2 ^ 20" by (rule unat_user_hi)
  have sum: "unat (v + n) = (unat v + unat n) mod 2 ^ 32" by (simp add: unat_word_ariths)
  have guard: "v < v + n \<and> user_lo c \<le> v \<and> user_hi c \<ge> v + n \<longleftrightarrow>
    0 < n \<and> unat (user_lo c) \<le> unat v \<and> unat v + unat n \<le> unat (user_hi c)"
  proof (cases "unat v + unat n < 2 ^ 32")
    case True
    then have "unat (v + n) = unat v + unat n" using sum by simp
    then show ?thesis by (auto simp: word_le_nat_alt word_less_nat_alt)
  next
    case False
    have "unat v < 2 ^ 32" "unat n < 2 ^ 32" using unsigned_less [where ?'b = 32 and ?'a = nat] by auto
    then have "unat (v + n) = unat v + unat n - 2 ^ 32" using False sum by (simp add: le_mod_geq)
    then have "\<not> v < v + n" using \<open>unat n < 2 ^ 32\<close> by (simp add: word_less_nat_alt)
    then show ?thesis using False hi by simp
  qed
  show ?thesis
  proof (cases "0 < n \<and> unat (user_lo c) \<le> unat v \<and> unat v + unat n \<le> unat (user_hi c)")
    case True
    then have "unat (v + n) = unat v + unat n" using sum hi by simp
    then have "(\<forall>a\<in>set (vmm_list m). v \<ge> vma_end a \<or> v + n \<le> vma_start a) \<longleftrightarrow> free_range c (vmm_list m) v n"
      using True by (auto simp: free_range_iff [OF assms] clear_of_def word_le_nat_alt)
    with True guard show ?thesis by (simp add: vmmap_is_range_empty_def Let_def)
  next
    case False
    with guard show ?thesis by (simp add: vmmap_is_range_empty_def Let_def)
  qed
qed

theorem vmmap_is_range_empty_witness:
  "vmmap_is_range_empty example_cfg 0x410 8 example_map =
     Ret (free_range example_cfg (vmm_list example_map) 0x410 8) example_map"
  using vmmap_is_range_empty_correct [OF example_map_ok, of "0x410" 8] by simp

text \<open>
  C8: the search from low to high leaves the map as it is and returns the lowest free range of the
  requested length when there is one. When there is none it returns \<open>-1\<close> if the map has an area; on a map
  without areas it returns the start of user memory, whether the length fits there or not, where its comment promises \<open>-1\<close>.
\<close>

theorem vmmap_find_range_lohi:
  assumes ok: "vmas_ok c (vmm_list m)" and n: "0 < n"
  shows "\<exists>r. vmmap_find_range c n VMMAP_DIR_LOHI m = Ret r m
    \<and> (r = (if vmm_list m = [] then int (unat (user_lo c)) else -1) \<and> (\<forall>v. \<not> free_range c (vmm_list m) v n)
       \<or> (\<exists>w::u32. r = int (unat w) \<and> free_range c (vmm_list m) w n
            \<and> (\<forall>v. free_range c (vmm_list m) v n \<longrightarrow> w \<le> v)))"
proof (cases "vmm_list m")
  case Nil
  have "unat (user_lo c) < 2 ^ 20" by (rule unat_ADDR_TO_PN_less)
  then have r: "vmmap_find_range c n VMMAP_DIR_LOHI m = Ret (int (unat (user_lo c))) m"
    using n Nil by (simp add: vmmap_find_range_def sint_vfn)
  show ?thesis
  proof (cases "unat (user_lo c) + unat n \<le> unat (user_hi c)")
    case True
    then show ?thesis using r Nil
      by (simp add: free_range_def view_def word_le_nat_alt) (rule disjI2, rule exI [of _ "user_lo c"], simp)
  next
    case False
    then show ?thesis using r Nil by (simp add: free_range_def)
  qed
next
  case (Cons p xs)
  have p: "vma_ok c p" and ok': "vmas_ok c (p # xs)" using ok Cons by (auto simp: vmas_ok_def)
  note fr = free_range_iff [OF ok' n]
  have above: "unat (vma_end p) \<le> unat (vma_start b)" if "b \<in> set xs" for b
    using ok' that by (auto simp: vmas_ok_def before_def word_le_nat_alt)
  note bnd = vma_okD [OF p]
  show ?thesis
  proof (cases "unat (user_lo c) + unat n \<le> unat (vma_start p)")
    case True
    then have "vma_start p \<noteq> user_lo c" "n \<le> vma_start p - user_lo c"
      using n bnd by (auto simp: vfn_arith word_less_nat_alt)
    moreover have "free_range c (p # xs) (user_lo c) n"
      using True bnd above by (fastforce simp: fr clear_of_def)
    ultimately show ?thesis using n Cons unat_ADDR_TO_PN_less [of "USER_MEM_LOW c"] fr
      by (intro exI [of _ "int (unat (user_lo c))"] conjI disjI2 exI [of _ "user_lo c"])
        (auto simp: vmmap_find_range_def sint_vfn word_le_nat_alt)
  next
    case False
    then have "\<not> (vma_start p \<noteq> user_lo c \<and> n \<le> vma_start p - user_lo c)"
      using bnd by (auto simp: vfn_arith)
    then have r: "vmmap_find_range c n VMMAP_DIR_LOHI m = Ret (lohi_scan (user_hi c) n p xs) m"
      using n Cons by (auto simp: vmmap_find_range_def)
    have up: "free_range c (p # xs) v n \<longleftrightarrow> unat (vma_end p) \<le> unat v
        \<and> unat v + unat n \<le> unat (user_hi c) \<and> clear_of xs (unat v) (unat n)" for v
      using False bnd n by (auto simp: fr clear_of_Cons word_less_nat_alt)
    show ?thesis using lohi_scan_correct [OF ok' n refl] r Cons up by (auto simp: word_le_nat_alt)
  qed
qed

theorem vmmap_find_range_lohi_witness:
  "\<exists>r. vmmap_find_range example_cfg 9 VMMAP_DIR_LOHI example_map = Ret r example_map
    \<and> (r = -1 \<or> (\<exists>w::u32. r = int (unat w) \<and> free_range example_cfg (vmm_list example_map) w 9))"
proof -
  have "vmm_list example_map \<noteq> []" by (simp add: example_map_def)
  with vmmap_find_range_lohi [OF example_map_ok, of 9] show ?thesis by fastforce
qed

text \<open>
  The search from high to low returns the highest free range of the requested length and leaves
  the map as it is; it returns \<open>-1\<close> exactly when there is none.
\<close>

theorem vmmap_find_range_hilo:
  assumes ok: "vmas_ok c (vmm_list m)" and n: "0 < n"
    and ne: "vmm_list m \<noteq> [] \<or> unat (user_lo c) + unat n \<le> unat (user_hi c)"
  shows "\<exists>r. vmmap_find_range c n VMMAP_DIR_HILO m = Ret r m
    \<and> (r = -1 \<and> (\<forall>v. \<not> free_range c (vmm_list m) v n)
       \<or> (\<exists>w::u32. r = int (unat w) \<and> free_range c (vmm_list m) w n
            \<and> (\<forall>v. free_range c (vmm_list m) v n \<longrightarrow> v \<le> w)))"
proof (cases "rev (vmm_list m)")
  case Nil
  then have e: "unat (user_hi c - n) = unat (user_hi c) - unat n"
    using ne by (simp add: unat_diff_ge)
  then show ?thesis using n ne Nil unat_user_hi [of c]
    by (intro exI [of _ "int (unat (user_hi c - n))"] conjI disjI2 exI [of _ "user_hi c - n"])
      (auto simp: vmmap_find_range_def free_range_def view_def word_le_nat_alt sint_vfn)
next
  case (Cons p xs)
  then have m: "vmm_list m = rev xs @ [p]" by (simp add: rev_eq_Cons_iff)
  have p: "vma_ok c p" and ok': "vmas_ok c (rev (p # xs))" using ok m by (auto simp: vmas_ok_def)
  have fr: "free_range c (vmm_list m) v n \<longleftrightarrow> unat (user_lo c) \<le> unat v \<and> unat v + unat n \<le> unat (user_hi c)
      \<and> clear_of (p # xs) (unat v) (unat n)" for v
    using free_range_iff [OF ok n] m by (auto simp: clear_of_def)
  have below: "unat (vma_end b) \<le> unat (vma_start p)" if "b \<in> set xs" for b
    using ok' that by (auto simp: vmas_ok_def before_def word_le_nat_alt sorted_wrt_append)
  note bnd = vma_okD [OF p]
  have skip: "hilo_scan (user_lo c) n p (p # xs) = hilo_scan (user_lo c) n p xs" by simp
  show ?thesis
  proof (cases "n \<le> user_hi c - vma_end p")
    case True
    then have fits: "unat (vma_end p) + unat n \<le> unat (user_hi c)" using bnd by (simp add: vfn_arith)
    then have e: "unat (user_hi c - n) = unat (user_hi c) - unat n" by (simp add: unat_diff_ge)
    have "clear_of (p # xs) (unat (user_hi c) - unat n) (unat n)"
      using fits bnd below by (fastforce simp: clear_of_def)
    then show ?thesis using n True m fits bnd e unat_user_hi [of c]
      by (intro exI [of _ "int (unat (user_hi c - n))"] conjI disjI2 exI [of _ "user_hi c - n"])
        (auto simp: vmmap_find_range_def sint_vfn word_le_nat_alt fr [unfolded m])
  next
    case False
    then have nofit: "\<not> unat (vma_end p) + unat n \<le> unat (user_hi c)" using bnd by (simp add: vfn_arith)
    have r: "vmmap_find_range c n VMMAP_DIR_HILO m = Ret (hilo_scan (user_lo c) n p xs) m"
      using n m False skip by (simp add: vmmap_find_range_def)
    have down: "free_range c (vmm_list m) v n \<longleftrightarrow> unat (user_lo c) \<le> unat v
        \<and> unat v + unat n \<le> unat (vma_start p) \<and> clear_of xs (unat v) (unat n)" for v
      using nofit bnd n by (auto simp: fr clear_of_Cons word_less_nat_alt)
    show ?thesis using hilo_scan_correct [OF ok' n refl] r down by (auto simp: word_le_nat_alt)
  qed
qed

theorem vmmap_find_range_hilo_witness:
  "\<exists>r. vmmap_find_range example_cfg 9 VMMAP_DIR_HILO example_map = Ret r example_map
    \<and> (r = -1 \<or> (\<exists>w::u32. r = int (unat w) \<and> free_range example_cfg (vmm_list example_map) w 9))"
proof -
  have "vmm_list example_map \<noteq> [] \<or> unat (user_lo example_cfg) + unat (9 :: u32) \<le> unat (user_hi example_cfg)"
    by (simp add: example_map_def)
  from vmmap_find_range_hilo [OF example_map_ok _ this] show ?thesis by fastforce
qed

end
