(* ===== verification/Kstate.thy ===== *)
theory Kstate
  imports Kmutex Vmarea
begin

text \<open>
  The state of the kernel above the scheduler and the mutexes, and the environment of code that
  is not part of the sources.

  Every C structure is a record kept in a heap from addresses to records; freeing a structure
  removes it from its heap, so that a later use of the address is a \<open>BAD_POINTER\<close>. Memory that
  the kernel reads and writes by the byte (page frames, buffers) is \<open>kmem\<close>. Calls to the page
  table and translation buffer code are recorded in order in \<open>hwlog\<close>. The head of a vnode's
  memory object (\<open>vn_mmobj\<close>) is the vnode itself, and \<open>vn_refcount\<close> and \<open>vn_nrespages\<close> are the
  counters of that object: a vnode and its memory object share one address.
\<close>

section \<open>Structures\<close>

datatype mmobj_ops = anon_mmobj_ops | shadow_mmobj_ops | vnode_mmobj_ops

text \<open>
  The union \<open>mmo_un\<close>: the areas of a bottom object, or the bottom object of a shadow. \<open>mmo_vmas_relinked\<close> is a list of areas
  into which a link has been inserted that was in it already: following \<open>l_next\<close> from the head gives the areas named, but the
  \<open>l_prev\<close> pointers do not mirror it any more. In \<open>mmo_vmas_looped\<close> that link was the last one and has become its own
  successor, so that following \<open>l_next\<close> gives the areas named and then the last of them for ever.
\<close>

datatype mmo_un = mmo_vmas "ptr list" | mmo_vmas_relinked "ptr list" | mmo_vmas_looped "ptr list"
  | mmo_bottom_obj "ptr option"

text \<open>The areas that are reached from the head, where there is an end to them.\<close>

definition vmas_of :: "mmo_un \<Rightarrow> ptr list option" where
  "vmas_of u = (case u of mmo_vmas vs \<Rightarrow> Some vs | mmo_vmas_relinked vs \<Rightarrow> Some vs | mmo_vmas_looped _ \<Rightarrow> None | mmo_bottom_obj _ \<Rightarrow> None)"

lemma vmas_of_simps [simp]:
  "vmas_of (mmo_vmas vs) = Some vs" "vmas_of (mmo_vmas_relinked vs) = Some vs" "vmas_of (mmo_vmas_looped vs) = None"
  "vmas_of (mmo_bottom_obj b) = None"
  by (simp_all add: vmas_of_def)

record mmobj =
  mmo_ops :: mmobj_ops
  mmo_refcount :: int
  mmo_nrespages :: int
  mmo_respages :: "ptr list"
  mmo_un_f :: mmo_un
  mmo_shadowed :: "ptr option"

record pframe =
  pf_obj :: "ptr option"
  pf_pagenum :: u32
  pf_addr :: u32
  pf_busy :: bool
  pf_dirty :: bool
  pf_pincount :: int

text \<open>
  A page is pinned when its pin count is positive and free when it belongs to no object, as the
  comments of \<open>pframe.c\<close> have it.
\<close>

definition pframe_is_pinned :: "pframe \<Rightarrow> bool" where "pframe_is_pinned f \<longleftrightarrow> pf_pincount f > 0"
definition pframe_is_free :: "pframe \<Rightarrow> bool" where "pframe_is_free f \<longleftrightarrow> pf_obj f = None"

datatype vnode_ops = fs_vops | bytedev_spec_vops | blockdev_spec_vops

datatype vn_kind = S_IFREG | S_IFDIR | S_IFCHR | S_IFBLK | S_IFOTHER

text \<open>The mode of a vnode: its file type, and the other bits, which are zero when the mode is the bare type.\<close>

record vnode =
  vn_ops :: vnode_ops
  vn_fs :: ptr
  vn_vno :: nat
  vn_mode :: vn_kind
  vn_perm :: u32
  vn_len :: u32
  vn_devid :: u32
  vn_busy :: bool
  vn_cdev :: "ptr option"
  vn_bdev :: "ptr option"

text \<open>The comparison \<open>vn_mode == k\<close>, which \<open>S_ISDIR\<close> and its like make of the file type alone.\<close>

definition mode_is :: "vnode \<Rightarrow> vn_kind \<Rightarrow> bool" where "mode_is v k \<longleftrightarrow> vn_mode v = k \<and> vn_perm v = 0"

datatype proc_state = PROC_RUNNING | PROC_DEAD

text \<open>A pointer that the code may leave null is an option; a page directory is an address, null when it is \<open>NULL\<close>.\<close>

abbreviation (input) NULL :: ptr where "NULL \<equiv> 0"

record proc =
  p_pid :: int
  p_comm :: string
  p_threads :: "ptr list"
  p_children :: "ptr list"
  p_pproc :: "ptr option"
  p_status :: u32
  p_state :: proc_state
  p_pagedir :: ptr
  p_vmmap :: "ptr option"
  p_brk :: u32
  p_start_brk :: u32
  p_files :: "ptr option list"
  p_cwd :: "ptr option"

text \<open>An address space in the heap: the areas are named by their addresses.\<close>

record vmmap_node =
  vmn_list :: "ptr list"
  vmn_proc :: "ptr option"

text \<open>An open file: the structure of \<open>fs/file.h\<close>, whose operations are not part of the sources.\<close>

record file_t =
  f_pos :: u32
  f_mode :: u32
  f_refcount :: int
  f_vnode :: "ptr option"

datatype hwevent =
    TLB_FLUSH u32
  | TLB_FLUSH_RANGE u32 u32
  | TLB_FLUSH_ALL
  | PT_MAP ptr u32 u32 bool bool
  | PT_UNMAP ptr u32
  | PT_UNMAP_RANGE ptr u32 u32
  | PT_DESTROY_PAGEDIR ptr
  | PAGE_FREE_N u32

record kstate = mutex_state +
  kmem :: "u32 \<Rightarrow> u8"
  hwlog :: "hwevent list"
  pages_out :: "u32 list"
  mmobjs :: "ptr \<rightharpoonup> mmobj"
  pframes :: "ptr \<rightharpoonup> pframe"
  npinned :: int
  pinned_list :: "ptr list"
  nallocated :: int
  alloc_list :: "ptr list"
  pframe_hash :: "nat \<Rightarrow> ptr list"
  nfreepages_min :: nat
  nfreepages_target :: nat
  vmareas :: "ptr \<rightharpoonup> vmarea"
  vmmaps :: "ptr \<rightharpoonup> vmmap_node"
  vnodes :: "ptr \<rightharpoonup> vnode"
  vnode_inuse_list :: "ptr list"
  procs :: "ptr \<rightharpoonup> proc"
  files :: "ptr \<rightharpoonup> file_t"
  vfs_root_vn :: "ptr option"
  next_pid :: int
  all_procs :: "ptr list"
  proc_initproc :: "ptr option"

type_synonym 'a kop = "kstate \<Rightarrow> ('a, kstate) kres"

section \<open>Environment\<close>

text \<open>
  The functions of other parts of the kernel: the slab and page allocators, which choose a free
  address given what is allocated or fail; what memory from the area allocator contains; the number
  of free pages; the operations of the file system and of the devices (a table may hold a null
  pointer, which is None); the open files of \<open>fs/file.c\<close>; and the fuel for waits and chains.
\<close>

record kenv = "kstate sched_env" +
  cfg :: kconfig
  page_alloc :: "u32 list \<Rightarrow> u32 option"
  page_free_count :: "u32 list \<Rightarrow> nat"
  pframe_slab :: "(ptr \<rightharpoonup> pframe) \<Rightarrow> ptr option"
  mmobj_slab :: "(ptr \<rightharpoonup> mmobj) \<Rightarrow> ptr option"
  vmarea_slab :: "(ptr \<rightharpoonup> vmarea) \<Rightarrow> ptr option"
  vmmap_slab :: "(ptr \<rightharpoonup> vmmap_node) \<Rightarrow> ptr option"
  fs_fillpage :: "ptr \<Rightarrow> u32 \<Rightarrow> u32 \<Rightarrow> (errno + unit) kop"
  fs_dirtypage :: "ptr \<Rightarrow> u32 \<Rightarrow> (errno + unit) kop"
  fs_cleanpage :: "ptr \<Rightarrow> u32 \<Rightarrow> u32 \<Rightarrow> (errno + unit) kop"
  fs_mmap :: "ptr \<Rightarrow> ptr \<Rightarrow> (errno + ptr) kop"
  fs_query_vnode :: "ptr \<Rightarrow> bool kop"
  fs_delete_vnode :: "ptr \<Rightarrow> unit kop"
  cd_fillpage :: "ptr \<Rightarrow> (ptr \<Rightarrow> u32 \<Rightarrow> u32 \<Rightarrow> (errno + unit) kop) option"
  cd_dirtypage :: "ptr \<Rightarrow> (ptr \<Rightarrow> u32 \<Rightarrow> (errno + unit) kop) option"
  cd_cleanpage :: "ptr \<Rightarrow> (ptr \<Rightarrow> u32 \<Rightarrow> u32 \<Rightarrow> (errno + unit) kop) option"
  cd_mmap :: "ptr \<Rightarrow> (ptr \<Rightarrow> ptr \<Rightarrow> (errno + ptr) kop) option"
  chain_fuel :: nat
  slab_contents :: "ptr \<Rightarrow> vmarea"
  pt_virt_to_phys :: "u32 \<Rightarrow> u32"
  fget :: "int \<Rightarrow> ptr option kop"
  fput :: "ptr \<Rightarrow> unit kop"
  fref :: "ptr \<Rightarrow> unit kop"
  fs_read :: "ptr \<Rightarrow> u32 \<Rightarrow> u32 \<Rightarrow> u32 \<Rightarrow> (errno + u32) kop"
  fs_write :: "ptr \<Rightarrow> u32 \<Rightarrow> u32 \<Rightarrow> u32 \<Rightarrow> (errno + u32) kop"
  fs_stat :: "ptr \<Rightarrow> u32 \<Rightarrow> (errno + unit) kop"
  fs_lookup :: "ptr \<Rightarrow> (string \<Rightarrow> (errno + ptr) kop) option"
  fs_create :: "ptr \<Rightarrow> (string \<Rightarrow> (errno + ptr) kop) option"
  fs_mknod :: "ptr \<Rightarrow> (string \<Rightarrow> vn_kind \<Rightarrow> u32 \<Rightarrow> (errno + unit) kop) option"
  fs_link :: "ptr \<Rightarrow> (ptr \<Rightarrow> string \<Rightarrow> (errno + unit) kop) option"
  fs_unlink :: "ptr \<Rightarrow> (string \<Rightarrow> (errno + unit) kop) option"
  fs_mkdir :: "ptr \<Rightarrow> (string \<Rightarrow> (errno + unit) kop) option"
  fs_rmdir :: "ptr \<Rightarrow> (string \<Rightarrow> (errno + unit) kop) option"
  fs_readdir :: "ptr \<Rightarrow> (u32 \<Rightarrow> u32 \<Rightarrow> (errno + u32) kop) option"
  fs_root :: "ptr \<Rightarrow> ptr"
  fs_read_vnode :: "ptr \<Rightarrow> unit kop"
  vnode_slab :: "kstate \<Rightarrow> ptr option"
  cd_read :: "ptr \<Rightarrow> (ptr \<Rightarrow> u32 \<Rightarrow> u32 \<Rightarrow> u32 \<Rightarrow> (errno + u32) kop) option"
  cd_write :: "ptr \<Rightarrow> (ptr \<Rightarrow> u32 \<Rightarrow> u32 \<Rightarrow> u32 \<Rightarrow> (errno + u32) kop) option"
  bytedev_lookup :: "u32 \<Rightarrow> ptr option"
  blockdev_lookup :: "u32 \<Rightarrow> ptr option"
  proc_slab :: "(ptr \<rightharpoonup> proc) \<Rightarrow> ptr option"
  slab_proc :: "ptr \<Rightarrow> proc"
  kthread_slab :: "kstate \<Rightarrow> ptr option"
  slab_kthread :: "ptr \<Rightarrow> kthread"
  stack_alloc :: "kstate \<Rightarrow> u32 option"
  pt_create_pagedir :: "kstate \<Rightarrow> ptr"
  context_setup :: "nat \<Rightarrow> u32 \<Rightarrow> u32 \<Rightarrow> u32 option \<Rightarrow> ptr \<Rightarrow> context_t"
  userland_entry :: nat
  kmalloc :: "u32 \<Rightarrow> u32 option kop"
  kfree :: "u32 \<Rightarrow> unit kop"

text \<open>
  What the kernel relies on of an allocator: it never hands out an address that is in use.
\<close>

definition allocs_fresh :: "kenv \<Rightarrow> bool" where
  "allocs_fresh env \<longleftrightarrow>
     (\<forall>h p. pframe_slab env h = Some p \<longrightarrow> h p = None) \<and>
     (\<forall>h p. mmobj_slab env h = Some p \<longrightarrow> h p = None) \<and>
     (\<forall>h p. vmarea_slab env h = Some p \<longrightarrow> h p = None) \<and>
     (\<forall>h p. vmmap_slab env h = Some p \<longrightarrow> h p = None) \<and>
     (\<forall>ps a. page_alloc env ps = Some a \<longrightarrow> a \<notin> set ps \<and> PAGE_ALIGNED a)"

text \<open>\<open>slab_room slab k h\<close>: the allocator has \<open>k\<close> addresses left besides those in use.\<close>

definition slab_room :: "((ptr \<rightharpoonup> 'o) \<Rightarrow> ptr option) \<Rightarrow> nat \<Rightarrow> (ptr \<rightharpoonup> 'o) \<Rightarrow> bool" where
  "slab_room slab k h \<longleftrightarrow> finite (dom h)
     \<and> (\<forall>h'. finite (dom h') \<and> card (dom h') < card (dom h) + k \<longrightarrow> slab h' \<noteq> None)"

lemma slab_room_slab: "slab_room slab (Suc k) h \<Longrightarrow> \<exists>p. slab h = Some p"
  unfolding slab_room_def by auto

lemma slab_room_new: "slab_room slab (Suc k) h \<Longrightarrow> dom h' = insert p (dom h) \<Longrightarrow> p \<notin> dom h \<Longrightarrow> slab_room slab k h'"
  by (simp add: slab_room_def)

lemma slab_room_same: "slab_room slab (Suc k) h \<Longrightarrow> dom h' = dom h \<Longrightarrow> slab_room slab k h'"
  by (simp add: slab_room_def)

abbreviation senv :: "kenv \<Rightarrow> kstate sched_env" where "senv env \<equiv> sched_env.truncate env"

section \<open>Byte memory\<close>

definition memcpy :: "u32 \<Rightarrow> u32 \<Rightarrow> u32 \<Rightarrow> kstate \<Rightarrow> kstate" where
  "memcpy d s n st =
     st\<lparr>kmem := (\<lambda>a. if a - d < n then kmem st (s + (a - d)) else kmem st a)\<rparr>"

definition memset0 :: "u32 \<Rightarrow> u32 \<Rightarrow> kstate \<Rightarrow> kstate" where
  "memset0 d n st = st\<lparr>kmem := (\<lambda>a. if a - d < n then 0 else kmem st a)\<rparr>"

text \<open>A 32-bit word in memory: the lowest byte first.\<close>

definition store32 :: "u32 \<Rightarrow> u32 \<Rightarrow> kstate \<Rightarrow> kstate" where
  "store32 a w s = s\<lparr>kmem := (\<lambda>x. if x - a < 4 then ucast (drop_bit (8 * unat (x - a)) w) else kmem s x)\<rparr>"

definition load32 :: "(u32 \<Rightarrow> u8) \<Rightarrow> u32 \<Rightarrow> u32" where
  "load32 m a = ucast (m a) OR push_bit 8 (ucast (m (a + 1))) OR push_bit 16 (ucast (m (a + 2))) OR push_bit 24 (ucast (m (a + 3)))"

text \<open>The contents of the page frame at an address.\<close>

definition page_bytes :: "kstate \<Rightarrow> u32 \<Rightarrow> u32 \<Rightarrow> u8" where
  "page_bytes s a i = (if i < PAGE_SIZE then kmem s (a + i) else 0)"

text \<open>Two page frames at different page-aligned addresses do not overlap.\<close>

lemma ADDR_TO_PN_add:
  fixes x k :: u32
  assumes "PAGE_ALIGNED x" and "k < 4096"
  shows "ADDR_TO_PN (x + k) = ADDR_TO_PN x"
proof -
  have k: "unat k < 4096" using assms(2) by (simp add: word_less_nat_alt)
  have m: "unat x mod 4096 = 0" using assms(1) by (simp add: PAGE_ALIGNED_def flip: unat_PAGE_OFFSET)
  then obtain q where q: "unat x = 4096 * q" by (auto simp: mod_eq_0_iff_dvd elim: dvdE)
  have "unat x < 2 ^ 32" using unsigned_less [of x, where ?'a = nat] by simp
  then have "q < 2 ^ 20" using q by simp
  then have "unat x + unat k < 2 ^ 32" using q k by simp
  then have "unat (x + k) = 4096 * q + unat k" using q by (simp add: unat_word_ariths)
  then have "unat (x + k) div 4096 = unat x div 4096" using q k by simp
  then show ?thesis by (simp add: word_unat_eq_iff unat_ADDR_TO_PN)
qed

lemma page_frames_disjoint:
  assumes "PAGE_ALIGNED a" and "PAGE_ALIGNED b" and "a \<noteq> b" and "i < PAGE_SIZE"
  shows "\<not> b + i - a < PAGE_SIZE"
proof
  assume *: "b + i - a < PAGE_SIZE"
  define j where "j = b + i - a"
  have e: "a + j = b + i" by (simp add: j_def)
  have "ADDR_TO_PN (a + j) = ADDR_TO_PN a" "ADDR_TO_PN (b + i) = ADDR_TO_PN b"
    using * assms(1,2,4) unfolding j_def [symmetric] PAGE_SIZE_def by (simp_all add: ADDR_TO_PN_add)
  then have "ADDR_TO_PN a = ADDR_TO_PN b" using e by simp
  then have "unat a = unat b"
    using addr_decompose [of a] addr_decompose [of b] assms(1,2) by (simp add: PAGE_ALIGNED_def)
  then show False using assms(3) by (simp add: word_unat_eq_iff)
qed

lemma page_bytes_memcpy:
  assumes "PAGE_ALIGNED d" and "PAGE_ALIGNED a"
  shows "page_bytes (memcpy d s PAGE_SIZE st) a = (if a = d then page_bytes st s else page_bytes st a)"
  using page_frames_disjoint [OF assms]
  by (auto simp: page_bytes_def memcpy_def fun_eq_iff add_diff_eq)

lemma page_bytes_memset0:
  assumes "PAGE_ALIGNED d" and "PAGE_ALIGNED a"
  shows "page_bytes (memset0 d PAGE_SIZE st) a = (if a = d then (\<lambda>_. 0) else page_bytes st a)"
  using page_frames_disjoint [OF assms]
  by (auto simp: page_bytes_def memset0_def fun_eq_iff add_diff_eq)

section \<open>Updates of heap structures\<close>

definition mmo_upd :: "ptr \<Rightarrow> (mmobj \<Rightarrow> mmobj) \<Rightarrow> unit kop" where
  "mmo_upd o' f s = bindK (deref (mmobjs s) o' s) (\<lambda>m s. Ret () (s\<lparr>mmobjs := (mmobjs s)(o' \<mapsto> f m)\<rparr>))"

definition pf_upd :: "ptr \<Rightarrow> (pframe \<Rightarrow> pframe) \<Rightarrow> unit kop" where
  "pf_upd p f s = bindK (deref (pframes s) p s) (\<lambda>fr s. Ret () (s\<lparr>pframes := (pframes s)(p \<mapsto> f fr)\<rparr>))"

definition hw :: "hwevent \<Rightarrow> kstate \<Rightarrow> kstate" where
  "hw e s = s\<lparr>hwlog := hwlog s @ [e]\<rparr>"

lemma sched_wf_kstate [simp]:
  "sched_wf R (s\<lparr>kmem := x_kmem\<rparr>) = sched_wf R s"
  "sched_wf R (s\<lparr>hwlog := x_hwlog\<rparr>) = sched_wf R s"
  "sched_wf R (s\<lparr>pages_out := x_pages_out\<rparr>) = sched_wf R s"
  "sched_wf R (s\<lparr>mmobjs := x_mmobjs\<rparr>) = sched_wf R s"
  "sched_wf R (s\<lparr>pframes := x_pframes\<rparr>) = sched_wf R s"
  "sched_wf R (s\<lparr>npinned := x_npinned\<rparr>) = sched_wf R s"
  "sched_wf R (s\<lparr>pinned_list := x_pinned_list\<rparr>) = sched_wf R s"
  "sched_wf R (s\<lparr>nallocated := x_nallocated\<rparr>) = sched_wf R s"
  "sched_wf R (s\<lparr>alloc_list := x_alloc_list\<rparr>) = sched_wf R s"
  "sched_wf R (s\<lparr>pframe_hash := x_pframe_hash\<rparr>) = sched_wf R s"
  "sched_wf R (s\<lparr>vmareas := x_vmareas\<rparr>) = sched_wf R s"
  "sched_wf R (s\<lparr>vmmaps := x_vmmaps\<rparr>) = sched_wf R s"
  "sched_wf R (s\<lparr>vnodes := x_vnodes\<rparr>) = sched_wf R s"
  "sched_wf R (s\<lparr>vnode_inuse_list := x_vnode_inuse_list\<rparr>) = sched_wf R s"
  "sched_wf R (s\<lparr>procs := x_procs\<rparr>) = sched_wf R s"
  "sched_wf R (s\<lparr>files := x_files\<rparr>) = sched_wf R s"
  by (rule sched_wf_cong; simp)+

lemma mmo_upd_eq [simp]:
  "mmobjs s o' = Some m \<Longrightarrow> mmo_upd o' f s = Ret () (s\<lparr>mmobjs := (mmobjs s)(o' \<mapsto> f m)\<rparr>)"
  by (simp add: mmo_upd_def)

lemma pf_upd_eq [simp]:
  "pframes s p = Some fr \<Longrightarrow> pf_upd p f s = Ret () (s\<lparr>pframes := (pframes s)(p \<mapsto> f fr)\<rparr>)"
  by (simp add: pf_upd_def)

section \<open>A small kernel for the examples\<close>

text \<open>
  An environment with eight pages and eight addresses for each kind of structure, and a file
  system whose operations succeed; and the state of a kernel with one running thread and the given
  memory objects.
\<close>

definition first_free :: "(ptr \<rightharpoonup> 'o) \<Rightarrow> ptr option" where
  "first_free h = find (\<lambda>p. h p = None) [1, 2, 3, 4, 5, 6, 7, 8]"

definition example_proc :: proc where
  "example_proc = \<lparr>p_pid = 1, p_comm = ''init'', p_threads = [1], p_children = [], p_pproc = None, p_status = 0,
     p_state = PROC_RUNNING, p_pagedir = 1, p_vmmap = Some 1, p_brk = 0, p_start_brk = 0,
     p_files = [None, None, None, None], p_cwd = None\<rparr>"

definition example_env :: kenv where
  "example_env = \<lparr>intr_wait = id, context_switch = Ret (), wait_fuel = 0, cfg = example_cfg,
     page_alloc = (\<lambda>ps. find (\<lambda>a. a \<notin> set ps) [0x1000, 0x2000, 0x3000, 0x4000, 0x5000, 0x6000, 0x7000, 0x8000]),
     page_free_count = (\<lambda>ps. 8 - length ps),
     pframe_slab = first_free, mmobj_slab = first_free, vmarea_slab = first_free, vmmap_slab = first_free,
     fs_fillpage = (\<lambda>_ _ _. Ret (Inr ())), fs_dirtypage = (\<lambda>_ _. Ret (Inr ())),
     fs_cleanpage = (\<lambda>_ _ _. Ret (Inr ())), fs_mmap = (\<lambda>v _. Ret (Inr v)),
     fs_query_vnode = (\<lambda>_. Ret True), fs_delete_vnode = (\<lambda>_. Ret ()),
     cd_fillpage = (\<lambda>_. None), cd_dirtypage = (\<lambda>_. None), cd_cleanpage = (\<lambda>_. None),
     cd_mmap = (\<lambda>_. None), chain_fuel = 16,
     slab_contents = (\<lambda>p. \<lparr>vma_id = p, vma_start = 0, vma_end = 0, vma_off = 0, vma_prot = 0, vma_flags = 0,
       vma_vmmap = None, vma_obj = None, vma_olink = None\<rparr>),
     pt_virt_to_phys = id, fget = (\<lambda>_. Ret None), fput = (\<lambda>_. Ret ()), fref = (\<lambda>_. Ret ()),
     fs_read = (\<lambda>_ _ _ n. Ret (Inr n)), fs_write = (\<lambda>_ _ _ n. Ret (Inr n)), fs_stat = (\<lambda>_ _. Ret (Inr ())),
     fs_lookup = (\<lambda>_. None), fs_create = (\<lambda>_. None), fs_mknod = (\<lambda>_. None), fs_link = (\<lambda>_. None),
     fs_unlink = (\<lambda>_. None), fs_mkdir = (\<lambda>_. None), fs_rmdir = (\<lambda>_. None), fs_readdir = (\<lambda>_. None),
     fs_root = id, fs_read_vnode = (\<lambda>_. Ret ()), vnode_slab = (\<lambda>s. find (\<lambda>p. vnodes s p = None \<and> mmobjs s p = None) [1, 2, 3, 4, 5, 6, 7, 8]),
     cd_read = (\<lambda>_. None), cd_write = (\<lambda>_. None), bytedev_lookup = (\<lambda>_. None), blockdev_lookup = (\<lambda>_. None),
     proc_slab = first_free, slab_proc = (\<lambda>_. example_proc), kthread_slab = (\<lambda>s. first_free (threads s)),
     slab_kthread = (\<lambda>_. example_thread KT_NO_STATE None), stack_alloc = (\<lambda>_. Some 0xA000),
     pt_create_pagedir = (\<lambda>_. 1), context_setup = (\<lambda>_ _ _ _ _. no_context), userland_entry = 0,
     kmalloc = (\<lambda>n. Ret (Some 0x9000)), kfree = (\<lambda>_. Ret ())\<rparr>"

lemma first_free_fresh: "first_free h = Some p \<Longrightarrow> h p = None"
  unfolding first_free_def find_Some_iff by blast

lemma first_free_room:
  assumes "finite (dom h)" and "card (dom h) < 8"
  shows "first_free h \<noteq> None"
proof
  assume "first_free h = None"
  then have "set [1, 2, 3, 4, 5, 6, 7, 8] \<subseteq> dom h" unfolding first_free_def find_None_iff by auto
  from card_mono [OF assms(1) this] assms(2) show False by simp
qed

lemma first_free_slab_room: "finite (dom h) \<Longrightarrow> card (dom h) + k \<le> 8 \<Longrightarrow> slab_room first_free k h"
  unfolding slab_room_def by (intro conjI allI impI first_free_room) auto

lemma find_unused: "find (\<lambda>a. a \<notin> set ps) xs = Some a \<Longrightarrow> a \<notin> set ps \<and> a \<in> set xs"
  unfolding find_Some_iff by (metis nth_mem)

lemma example_pages_aligned:
  "a \<in> set [0x1000, 0x2000, 0x3000, 0x4000, 0x5000, 0x6000, 0x7000, 0x8000] \<Longrightarrow> PAGE_ALIGNED a"
  by (auto simp: PAGE_ALIGNED_def PAGE_OFFSET_def)

lemma example_env_sel:
  "pframe_slab example_env = first_free" "mmobj_slab example_env = first_free"
  "vmarea_slab example_env = first_free" "vmmap_slab example_env = first_free"
  "page_alloc example_env ps = find (\<lambda>a. a \<notin> set ps) [0x1000, 0x2000, 0x3000, 0x4000, 0x5000, 0x6000, 0x7000, 0x8000]"
  by (simp_all only: example_env_def kenv.select_convs)

lemma example_env_fresh: "allocs_fresh example_env"
  unfolding allocs_fresh_def example_env_sel
  by (intro conjI allI impI)
    (erule first_free_fresh, erule first_free_fresh, erule first_free_fresh, erule first_free_fresh,
      drule find_unused, erule conjunct1, drule find_unused, erule example_pages_aligned [OF conjunct2])

definition kstate0 :: "(ptr \<rightharpoonup> mmobj) \<Rightarrow> kstate" where
  "kstate0 h = \<lparr>threads = [1 \<mapsto> \<lparr>kt_state = KT_RUN, kt_wchan = None, kt_qlink = None, kt_cancelled = False,
        kt_retval = 0, kt_errno = 0, kt_proc = Some 1, kt_kstack = None,
        kt_ctx = no_context\<rparr>],
     queues = (\<lambda>_. \<lparr>tq_list = [], tq_size = 0\<rparr>), curthr = Some 1, curproc = Some 1, ipl = IPL_LOW,
     km_holder = (\<lambda>_. None), kmem = (\<lambda>a. ucast a), hwlog = [], pages_out = [], mmobjs = h,
     pframes = (\<lambda>_. None), npinned = 0, pinned_list = [], nallocated = 0, alloc_list = [],
     pframe_hash = (\<lambda>_. []), nfreepages_min = 0, nfreepages_target = 0, vmareas = (\<lambda>_. None),
     vmmaps = (\<lambda>_. None), vnodes = (\<lambda>_. None), vnode_inuse_list = [], procs = (\<lambda>_. None),
     files = (\<lambda>_. None), vfs_root_vn = None, next_pid = 0, all_procs = [], proc_initproc = None\<rparr>"

lemma kstate0_sched_wf: "sched_wf {1} (kstate0 h)"
  by (simp add: kstate0_def sched_wf_def queues_wf_def link_wf_def)

end
