(* ===== verification/Mmobj.thy ===== *)
theory Mmobj
  imports Kstate
begin

text \<open>
  Memory objects: creation of anonymous and shadow objects (\<open>src/kernel/vm/anon.c\<close>,
  \<open>src/kernel/vm/shadow.c\<close>), and the entry points of the three kinds of object that touch no other
  object: \<open>ref\<close>, \<open>dirtypage\<close> and \<open>cleanpage\<close> (the third kind are the objects of vnodes in
  \<open>src/kernel/fs/vnode.c\<close>). \<open>mmo_ref\<close>, \<open>mmo_dirtypage\<close> and \<open>mmo_cleanpage\<close> are the calls through
  the table \<open>mmo_ops\<close>.
\<close>

section \<open>Creation\<close>

definition anon_create :: "kenv \<Rightarrow> ptr kop" where
  "anon_create env s =
     (case mmobj_slab env (mmobjs s) of
        None \<Rightarrow> Stop BAD_POINTER
      | Some newOne \<Rightarrow>
          Ret newOne (s\<lparr>mmobjs := (mmobjs s)(newOne \<mapsto>
            \<lparr>mmo_ops = anon_mmobj_ops, mmo_refcount = 1, mmo_nrespages = 0, mmo_respages = [],
             mmo_un_f = mmo_vmas [], mmo_shadowed = None\<rparr>)\<rparr>))"

definition shadow_create :: "kenv \<Rightarrow> ptr option kop" where
  "shadow_create env s =
     (case mmobj_slab env (mmobjs s) of
        None \<Rightarrow> Ret None s
      | Some newOne \<Rightarrow>
          Ret (Some newOne) (s\<lparr>mmobjs := (mmobjs s)(newOne \<mapsto>
            \<lparr>mmo_ops = shadow_mmobj_ops, mmo_refcount = 1, mmo_nrespages = 0, mmo_respages = [],
             mmo_un_f = mmo_bottom_obj None, mmo_shadowed = None\<rparr>)\<rparr>))"

section \<open>References\<close>

definition anon_ref :: "ptr \<Rightarrow> unit kop" where
  "anon_ref ob s =
     bindK (deref (mmobjs s) ob s) (\<lambda>m s.
     bindK (kassert (0 < mmo_refcount m \<and> mmo_ops m = anon_mmobj_ops) s) (\<lambda>_ s.
       mmo_upd ob (\<lambda>m. m\<lparr>mmo_refcount := mmo_refcount m + 1\<rparr>) s))"

definition shadow_ref :: "ptr \<Rightarrow> unit kop" where
  "shadow_ref ob s =
     bindK (deref (mmobjs s) ob s) (\<lambda>m s.
     bindK (kassert (0 < mmo_refcount m \<and> mmo_ops m = shadow_mmobj_ops) s) (\<lambda>_ s.
       mmo_upd ob (\<lambda>m. m\<lparr>mmo_refcount := mmo_refcount m + 1\<rparr>) s))"

definition vref :: "ptr \<Rightarrow> unit kop" where
  "vref vn s =
     bindK (deref (mmobjs s) vn s) (\<lambda>m s.
     bindK (kassert (0 < mmo_refcount m) s) (\<lambda>_ s.
       mmo_upd vn (\<lambda>m. m\<lparr>mmo_refcount := mmo_refcount m + 1\<rparr>) s))"

definition vo_vref :: "ptr \<Rightarrow> unit kop" where
  "vo_vref ob = vref ob"

definition mmo_ref :: "ptr \<Rightarrow> unit kop" where
  "mmo_ref ob s =
     bindK (deref (mmobjs s) ob s) (\<lambda>m s.
       case mmo_ops m of
         anon_mmobj_ops \<Rightarrow> anon_ref ob s
       | shadow_mmobj_ops \<Rightarrow> shadow_ref ob s
       | vnode_mmobj_ops \<Rightarrow> vo_vref ob s)"

lemma mmo_ref_eq:
  "mmobjs s ob = Some m \<Longrightarrow> mmo_ref ob s =
     (if 0 < mmo_refcount m
      then Ret () (s\<lparr>mmobjs := (mmobjs s)(ob \<mapsto> m\<lparr>mmo_refcount := mmo_refcount m + 1\<rparr>)\<rparr>)
      else Stop KASSERT_failed)"
  by (cases "mmo_ops m") (simp_all add: mmo_ref_def anon_ref_def shadow_ref_def vo_vref_def vref_def)

section \<open>Dirtying and cleaning a page\<close>

definition anon_dirtypage :: "ptr \<Rightarrow> ptr \<Rightarrow> (errno + unit) kop" where
  "anon_dirtypage ob pf s =
     bindK (deref (pframes s) pf s) (\<lambda>f s.
     bindK (if \<not> pf_dirty f then pf_upd pf (\<lambda>f. f\<lparr>pf_dirty := True\<rparr>) s else Ret () s) (\<lambda>_ s.
     bindK (deref (pframes s) pf s) (\<lambda>f s.
       Ret (if pf_dirty f then Inr () else Inl EMINUS1) s)))"

definition shadow_dirtypage :: "ptr \<Rightarrow> ptr \<Rightarrow> (errno + unit) kop" where
  "shadow_dirtypage ob pf s =
     bindK (deref (pframes s) pf s) (\<lambda>f s.
     bindK (if \<not> pf_dirty f then pf_upd pf (\<lambda>f. f\<lparr>pf_dirty := True\<rparr>) s else Ret () s) (\<lambda>_ s.
     bindK (deref (pframes s) pf s) (\<lambda>f s.
       Ret (if pf_dirty f then Inr () else Inl EMINUS1) s)))"

definition anon_cleanpage :: "ptr \<Rightarrow> ptr \<Rightarrow> (errno + unit) kop" where
  "anon_cleanpage ob pf s =
     bindK (deref (pframes s) pf s) (\<lambda>f s.
       if pframe_is_pinned f
       then bindK (pf_upd pf (\<lambda>f. f\<lparr>pf_dirty := False\<rparr>) s) (\<lambda>_ s. Ret (Inr ()) s)
       else bindK (pf_upd pf (\<lambda>f. f\<lparr>pf_dirty := False\<rparr>) s) (\<lambda>_ s. Ret (Inr ()) s))"

definition shadow_cleanpage :: "ptr \<Rightarrow> ptr \<Rightarrow> (errno + unit) kop" where
  "shadow_cleanpage ob pf s =
     bindK (deref (pframes s) pf s) (\<lambda>f s.
       if pframe_is_pinned f
       then bindK (pf_upd pf (\<lambda>f. f\<lparr>pf_dirty := False\<rparr>) s) (\<lambda>_ s. Ret (Inr ()) s)
       else bindK (pf_upd pf (\<lambda>f. f\<lparr>pf_dirty := False\<rparr>) s) (\<lambda>_ s. Ret (Inr ()) s))"

text \<open>
  The page operations of special files: only byte devices have them, and a block device's table
  holds null pointers there.
\<close>

definition special_file_fillpage :: "kenv \<Rightarrow> ptr \<Rightarrow> u32 \<Rightarrow> u32 \<Rightarrow> (errno + unit) kop" where
  "special_file_fillpage env file offset pagebuf s =
     bindK (deref (vnodes s) file s) (\<lambda>v s.
     bindK (kassert (vn_mode v = S_IFCHR) s) (\<lambda>_ s.
       case vn_cdev v of
         None \<Rightarrow> Stop KASSERT_failed
       | Some cdev \<Rightarrow>
           (case cd_fillpage env cdev of
              None \<Rightarrow> Stop KASSERT_failed
            | Some fillpage \<Rightarrow> fillpage file offset pagebuf s)))"

definition special_file_dirtypage :: "kenv \<Rightarrow> ptr \<Rightarrow> u32 \<Rightarrow> (errno + unit) kop" where
  "special_file_dirtypage env file offset s =
     bindK (deref (vnodes s) file s) (\<lambda>v s.
     bindK (kassert (vn_mode v = S_IFCHR) s) (\<lambda>_ s.
       case vn_cdev v of
         None \<Rightarrow> Stop KASSERT_failed
       | Some cdev \<Rightarrow>
           (case cd_dirtypage env cdev of
              None \<Rightarrow> Stop KASSERT_failed
            | Some dirtypage \<Rightarrow> dirtypage file offset s)))"

definition special_file_cleanpage :: "kenv \<Rightarrow> ptr \<Rightarrow> u32 \<Rightarrow> u32 \<Rightarrow> (errno + unit) kop" where
  "special_file_cleanpage env file offset pagebuf s =
     bindK (deref (vnodes s) file s) (\<lambda>v s.
     bindK (kassert (vn_mode v = S_IFCHR) s) (\<lambda>_ s.
       case vn_cdev v of
         None \<Rightarrow> Stop KASSERT_failed
       | Some cdev \<Rightarrow>
           (case cd_cleanpage env cdev of
              None \<Rightarrow> Stop KASSERT_failed
            | Some cleanpage \<Rightarrow> cleanpage file offset pagebuf s)))"

definition special_file_mmap :: "kenv \<Rightarrow> ptr \<Rightarrow> ptr \<Rightarrow> (errno + ptr) kop" where
  "special_file_mmap env file vma s =
     bindK (deref (vnodes s) file s) (\<lambda>v s.
     bindK (kassert (vn_mode v = S_IFCHR) s) (\<lambda>_ s.
       case vn_cdev v of
         None \<Rightarrow> Stop KASSERT_failed
       | Some cdev \<Rightarrow>
           (case cd_mmap env cdev of
              None \<Rightarrow> Stop KASSERT_failed
            | Some mmap \<Rightarrow> mmap file vma s)))"

definition vn_fillpage :: "kenv \<Rightarrow> ptr \<Rightarrow> u32 \<Rightarrow> u32 \<Rightarrow> (errno + unit) kop" where
  "vn_fillpage env vn off buf s =
     bindK (deref (vnodes s) vn s) (\<lambda>v s.
       case vn_ops v of
         fs_vops \<Rightarrow> fs_fillpage env vn off buf s
       | bytedev_spec_vops \<Rightarrow> special_file_fillpage env vn off buf s
       | blockdev_spec_vops \<Rightarrow> Stop BAD_POINTER)"

definition vn_dirtypage :: "kenv \<Rightarrow> ptr \<Rightarrow> u32 \<Rightarrow> (errno + unit) kop" where
  "vn_dirtypage env vn off s =
     bindK (deref (vnodes s) vn s) (\<lambda>v s.
       case vn_ops v of
         fs_vops \<Rightarrow> fs_dirtypage env vn off s
       | bytedev_spec_vops \<Rightarrow> special_file_dirtypage env vn off s
       | blockdev_spec_vops \<Rightarrow> Stop BAD_POINTER)"

definition vn_cleanpage :: "kenv \<Rightarrow> ptr \<Rightarrow> u32 \<Rightarrow> u32 \<Rightarrow> (errno + unit) kop" where
  "vn_cleanpage env vn off buf s =
     bindK (deref (vnodes s) vn s) (\<lambda>v s.
       case vn_ops v of
         fs_vops \<Rightarrow> fs_cleanpage env vn off buf s
       | bytedev_spec_vops \<Rightarrow> special_file_cleanpage env vn off buf s
       | blockdev_spec_vops \<Rightarrow> Stop BAD_POINTER)"

definition vn_mmap :: "kenv \<Rightarrow> ptr \<Rightarrow> ptr \<Rightarrow> (errno + ptr) kop" where
  "vn_mmap env vn vma s =
     bindK (deref (vnodes s) vn s) (\<lambda>v s.
       case vn_ops v of
         fs_vops \<Rightarrow> fs_mmap env vn vma s
       | bytedev_spec_vops \<Rightarrow> special_file_mmap env vn vma s
       | blockdev_spec_vops \<Rightarrow> Stop BAD_POINTER)"

definition vdirtypage :: "kenv \<Rightarrow> ptr \<Rightarrow> ptr \<Rightarrow> (errno + unit) kop" where
  "vdirtypage env ob pf s =
     bindK (deref (pframes s) pf s) (\<lambda>f s.
       if \<not> pf_dirty f then vn_dirtypage env ob (PN_TO_ADDR (pf_pagenum f)) s
       else Ret (Inr ()) s)"

definition vcleanpage :: "kenv \<Rightarrow> ptr \<Rightarrow> ptr \<Rightarrow> (errno + unit) kop" where
  "vcleanpage env ob pf s =
     bindK (deref (pframes s) pf s) (\<lambda>f s.
       vn_cleanpage env ob (PN_TO_ADDR (pf_pagenum f)) (pf_addr f) s)"

definition mmo_dirtypage :: "kenv \<Rightarrow> ptr \<Rightarrow> ptr \<Rightarrow> (errno + unit) kop" where
  "mmo_dirtypage env ob pf s =
     bindK (deref (mmobjs s) ob s) (\<lambda>m s.
       case mmo_ops m of
         anon_mmobj_ops \<Rightarrow> anon_dirtypage ob pf s
       | shadow_mmobj_ops \<Rightarrow> shadow_dirtypage ob pf s
       | vnode_mmobj_ops \<Rightarrow> vdirtypage env ob pf s)"

definition mmo_cleanpage :: "kenv \<Rightarrow> ptr \<Rightarrow> ptr \<Rightarrow> (errno + unit) kop" where
  "mmo_cleanpage env ob pf s =
     bindK (deref (mmobjs s) ob s) (\<lambda>m s.
       case mmo_ops m of
         anon_mmobj_ops \<Rightarrow> anon_cleanpage ob pf s
       | shadow_mmobj_ops \<Rightarrow> shadow_cleanpage ob pf s
       | vnode_mmobj_ops \<Rightarrow> vcleanpage env ob pf s)"

text \<open>Pages of anonymous and shadow objects are marked dirty and clean in place.\<close>

lemma mmo_dirtypage_eq:
  assumes "mmobjs s ob = Some m" and "mmo_ops m \<noteq> vnode_mmobj_ops" and "pframes s pf = Some f"
  shows "mmo_dirtypage env ob pf s = Ret (Inr ()) (s\<lparr>pframes := (pframes s)(pf \<mapsto> f\<lparr>pf_dirty := True\<rparr>)\<rparr>)"
proof (cases "pf_dirty f")
  case True
  then have u: "f\<lparr>pf_dirty := True\<rparr> = f" by (cases f) simp
  have "(pframes s)(pf \<mapsto> f) = pframes s" using assms(3) by (auto simp: fun_upd_idem)
  then show ?thesis using assms True unfolding u
    by (cases "mmo_ops m") (auto simp: mmo_dirtypage_def anon_dirtypage_def shadow_dirtypage_def)
next
  case False
  then show ?thesis using assms
    by (cases "mmo_ops m") (auto simp: mmo_dirtypage_def anon_dirtypage_def shadow_dirtypage_def)
qed

lemma mmo_cleanpage_eq:
  assumes "mmobjs s ob = Some m" and "mmo_ops m \<noteq> vnode_mmobj_ops" and "pframes s pf = Some f"
  shows "mmo_cleanpage env ob pf s = Ret (Inr ()) (s\<lparr>pframes := (pframes s)(pf \<mapsto> f\<lparr>pf_dirty := False\<rparr>)\<rparr>)"
  using assms by (cases "mmo_ops m") (auto simp: mmo_cleanpage_def anon_cleanpage_def shadow_cleanpage_def)

end
