(* ===== verification/Pframe.thy ===== *)
theory Pframe
  imports Mmobj
begin

text \<open>
  Page frames, \<open>src/kernel/mm/pframe.c\<close>: the resident page table, the allocated and pinned lists,
  and the operations on a page. Operations that call back into the page's object through
  \<open>fillpage\<close> or \<open>put\<close> take that entry point as an argument (\<open>fill\<close>, \<open>put\<close>); it is tied to the
  three kinds of objects in theory \<open>Pager\<close>.

  A frame's \<open>pf_link\<close> is in at most one of the two lists, so removing the link removes the frame
  from both; the same holds for \<open>pf_hlink\<close> and the hash chains.
\<close>

section \<open>Lists and the hash table\<close>

definition hash_page :: "kenv \<Rightarrow> ptr \<Rightarrow> u32 \<Rightarrow> nat" where
  "hash_page env ob pagenum = unat ((of_nat ob :: u32) + pagenum) mod PF_HASH_SIZE (cfg env)"

definition pf_link_remove :: "ptr \<Rightarrow> kstate \<Rightarrow> kstate" where
  "pf_link_remove pf s =
     s\<lparr>alloc_list := remove1 pf (alloc_list s), pinned_list := remove1 pf (pinned_list s)\<rparr>"

definition pf_hlink_remove :: "ptr \<Rightarrow> kstate \<Rightarrow> kstate" where
  "pf_hlink_remove pf s = s\<lparr>pframe_hash := (\<lambda>i. remove1 pf (pframe_hash s i))\<rparr>"

definition pageoutd_needed :: "kenv \<Rightarrow> kstate \<Rightarrow> bool" where
  "pageoutd_needed env s \<longleftrightarrow>
     page_free_count env (pages_out s) \<le> nfreepages_min s \<and> alloc_list s \<noteq> []"

definition pageoutd_target_met :: "kenv \<Rightarrow> kstate \<Rightarrow> bool" where
  "pageoutd_target_met env s \<longleftrightarrow> page_free_count env (pages_out s) \<ge> nfreepages_target s"

definition pageoutd_wakeup :: "unit kop" where
  "pageoutd_wakeup = sched_broadcast_on PAGEOUTDQ"

definition pframe_init :: "kenv \<Rightarrow> kstate \<Rightarrow> kstate" where
  "pframe_init env s =
     sched_queue_init ALLOCQ
       (s\<lparr>npinned := 0, pinned_list := [], nallocated := 0, alloc_list := [],
          pframe_hash := (\<lambda>i. if i < PF_HASH_SIZE (cfg env) then [] else pframe_hash s i),
          nfreepages_target := page_free_count env (pages_out s) div 2, nfreepages_min := 0\<rparr>)"

section \<open>Resident pages\<close>

primrec chain_find :: "ptr \<Rightarrow> u32 \<Rightarrow> ptr list \<Rightarrow> ptr option kop" where
  "chain_find ob pagenum [] s = Ret None s"
| "chain_find ob pagenum (pf # rest) s =
     bindK (deref (pframes s) pf s) (\<lambda>f s.
       if pf_obj f = Some ob \<and> pf_pagenum f = pagenum
       then if \<not> pframe_is_pinned f
            then (let s = pf_link_remove pf s in
                  Ret (Some pf) (s\<lparr>alloc_list := alloc_list s @ [pf]\<rparr>))
            else Ret (Some pf) s
       else chain_find ob pagenum rest s)"

definition pframe_get_resident :: "kenv \<Rightarrow> ptr \<Rightarrow> u32 \<Rightarrow> ptr option kop" where
  "pframe_get_resident env ob pagenum s =
     chain_find ob pagenum (pframe_hash s (hash_page env ob pagenum)) s"

definition pframe_alloc :: "kenv \<Rightarrow> ptr \<Rightarrow> u32 \<Rightarrow> ptr option kop" where
  "pframe_alloc env ob pagenum s =
     (case pframe_slab env (pframes s) of
        None \<Rightarrow> Ret None s
      | Some pf \<Rightarrow>
          (case page_alloc env (pages_out s) of
             None \<Rightarrow> Ret None s
           | Some addr \<Rightarrow>
               let s = s\<lparr>pages_out := addr # pages_out s,
                         nallocated := nallocated s + 1,
                         alloc_list := alloc_list s @ [pf],
                         pframes := (pframes s)(pf \<mapsto>
                           \<lparr>pf_obj = Some ob, pf_pagenum = pagenum, pf_addr = addr, pf_busy = False,
                            pf_dirty = False, pf_pincount = 0\<rparr>)\<rparr>;
                   s = sched_queue_init (PFWAITQ pf) s;
                   h = hash_page env ob pagenum;
                   s = s\<lparr>pframe_hash := (pframe_hash s)(h := pf # pframe_hash s h)\<rparr>
               in bindK (mmo_ref ob s) (\<lambda>_ s.
                  bindK (mmo_upd ob (\<lambda>m. m\<lparr>mmo_nrespages := mmo_nrespages m + 1,
                                           mmo_respages := pf # mmo_respages m\<rparr>) s) (\<lambda>_ s.
                    Ret (Some pf) s))))"

definition pframe_fill :: "(ptr \<Rightarrow> ptr \<Rightarrow> (errno + unit) kop) \<Rightarrow> ptr \<Rightarrow> (errno + unit) kop" where
  "pframe_fill fill pf s =
     bindK (pf_upd pf (\<lambda>f. f\<lparr>pf_busy := True\<rparr>) s) (\<lambda>_ s.
     bindK (deref (pframes s) pf s) (\<lambda>f s.
       case pf_obj f of
         None \<Rightarrow> Stop BAD_POINTER
       | Some ob \<Rightarrow>
           bindK (fill ob pf s) (\<lambda>ret s.
           bindK (pf_upd pf (\<lambda>f. f\<lparr>pf_busy := False\<rparr>) s) (\<lambda>_ s.
           bindK (sched_broadcast_on (PFWAITQ pf) s) (\<lambda>_ s.
             Ret ret s)))))"

text \<open>\<open>again\<close> is the recursive call after waiting for a busy page.\<close>

definition pframe_get ::
  "kenv \<Rightarrow> (ptr \<Rightarrow> ptr \<Rightarrow> (errno + unit) kop) \<Rightarrow> (ptr \<Rightarrow> u32 \<Rightarrow> (errno + ptr) kop)
     \<Rightarrow> ptr \<Rightarrow> u32 \<Rightarrow> (errno + ptr) kop" where
  "pframe_get env fill again ob pagenum s =
     bindK (pframe_get_resident env ob pagenum s) (\<lambda>temp s.
       case temp of
         Some pf \<Rightarrow>
           bindK (deref (pframes s) pf s) (\<lambda>f s.
             if pf_busy f
             then bindK (sched_sleep_on (senv env) (PFWAITQ pf) s) (\<lambda>_ s. again ob pagenum s)
             else Ret (Inr pf) s)
       | None \<Rightarrow>
           bindK (if pageoutd_needed env s
                  then bindK (pageoutd_wakeup s) (\<lambda>_ s. sched_sleep_on (senv env) ALLOCQ s)
                  else Ret () s) (\<lambda>_ s.
           bindK (pframe_alloc env ob pagenum s) (\<lambda>temp s.
             case temp of
               None \<Rightarrow> Ret (Inl EMINUS1) s
             | Some pf \<Rightarrow>
                 bindK (pframe_fill fill pf s) (\<lambda>ret s.
                   case ret of Inl e \<Rightarrow> Ret (Inl e) s | Inr _ \<Rightarrow> Ret (Inr pf) s))))"

section \<open>Pinning\<close>

definition pframe_pin :: "ptr \<Rightarrow> unit kop" where
  "pframe_pin pf s =
     bindK (deref (pframes s) pf s) (\<lambda>f s.
     bindK (kassert (\<not> pframe_is_free f) s) (\<lambda>_ s.
     bindK (kassert (pf_pincount f \<ge> 0) s) (\<lambda>_ s.
       if \<not> pframe_is_pinned f
       then if alloc_list s \<noteq> []
            then let s = pf_link_remove pf s;
                     s = s\<lparr>nallocated := nallocated s - 1, pinned_list := pinned_list s @ [pf],
                           npinned := npinned s + 1\<rparr>
                 in pf_upd pf (\<lambda>f. f\<lparr>pf_pincount := pf_pincount f + 1\<rparr>) s
            else Ret () s
       else pf_upd pf (\<lambda>f. f\<lparr>pf_pincount := pf_pincount f + 1\<rparr>) s)))"

definition pframe_unpin :: "ptr \<Rightarrow> unit kop" where
  "pframe_unpin pf s =
     bindK (deref (pframes s) pf s) (\<lambda>f s.
     bindK (kassert (\<not> pframe_is_free f) s) (\<lambda>_ s.
     bindK (kassert (pf_pincount f > 0) s) (\<lambda>_ s.
       if pframe_is_pinned f
       then bindK (pf_upd pf (\<lambda>f. f\<lparr>pf_pincount := pf_pincount f - 1\<rparr>) s) (\<lambda>_ s.
            bindK (deref (pframes s) pf s) (\<lambda>f s.
              if pf_pincount f = 0
              then if pinned_list s \<noteq> []
                   then let s = pf_link_remove pf s
                        in Ret () (s\<lparr>npinned := npinned s - 1, alloc_list := alloc_list s @ [pf],
                                     nallocated := nallocated s + 1\<rparr>)
                   else Ret () s
              else Ret () s))
       else Ret () s)))"

section \<open>Dirty pages\<close>

definition pframe_dirty :: "kenv \<Rightarrow> ptr \<Rightarrow> (errno + unit) kop" where
  "pframe_dirty env pf s =
     bindK (deref (pframes s) pf s) (\<lambda>f s.
     bindK (kassert (\<not> pf_busy f) s) (\<lambda>_ s.
     bindK (pf_upd pf (\<lambda>f. f\<lparr>pf_busy := True\<rparr>) s) (\<lambda>_ s.
       case pf_obj f of
         None \<Rightarrow> Stop BAD_POINTER
       | Some ob \<Rightarrow>
           bindK (mmo_dirtypage env ob pf s) (\<lambda>ret s.
           bindK (case ret of Inr _ \<Rightarrow> pf_upd pf (\<lambda>f. f\<lparr>pf_dirty := True\<rparr>) s | Inl _ \<Rightarrow> Ret () s) (\<lambda>_ s.
           bindK (pf_upd pf (\<lambda>f. f\<lparr>pf_busy := False\<rparr>) s) (\<lambda>_ s.
           bindK (sched_broadcast_on (PFWAITQ pf) s) (\<lambda>_ s.
             Ret ret s)))))))"

text \<open>
  The areas that map an object: those of the object at the bottom of its chain, which is the object itself unless it is a
  shadow, whose \<open>mmo_bottom_obj\<close> every function that puts it over an object sets.
\<close>

definition mmobj_bottom_vmas :: "ptr \<Rightarrow> ptr list kop" where
  "mmobj_bottom_vmas ob s =
     bindK (deref (mmobjs s) ob s) (\<lambda>m s.
       case mmo_un_f m of
         mmo_vmas vs \<Rightarrow> Ret vs s
       | mmo_vmas_relinked vs \<Rightarrow> Ret vs s
       | mmo_vmas_looped _ \<Rightarrow> Stop NOT_FOLLOWED
       | mmo_bottom_obj None \<Rightarrow> Stop BAD_POINTER
       | mmo_bottom_obj (Some b) \<Rightarrow>
           bindK (deref (mmobjs s) b s) (\<lambda>m s.
             case mmo_un_f m of
               mmo_vmas vs \<Rightarrow> Ret vs s
             | mmo_vmas_relinked vs \<Rightarrow> Ret vs s
             | mmo_vmas_looped _ \<Rightarrow> Stop NOT_FOLLOWED
             | mmo_bottom_obj _ \<Rightarrow> Stop BAD_POINTER))"

primrec unmap_from_areas :: "u32 \<Rightarrow> ptr list \<Rightarrow> unit kop" where
  "unmap_from_areas pagenum [] s = Ret () s"
| "unmap_from_areas pagenum (v # rest) s =
     bindK (deref (vmareas s) v s) (\<lambda>vma s.
       if pagenum \<ge> vma_off vma \<and> pagenum < vma_off vma + (vma_end vma - vma_start vma)
       then let vaddr = PN_TO_ADDR (vma_start vma + pagenum - vma_off vma) in
            case vma_vmmap vma of
              None \<Rightarrow> Stop BAD_POINTER
            | Some mp \<Rightarrow>
                bindK (deref (vmmaps s) mp s) (\<lambda>vm s.
                  case vmn_proc vm of
                    None \<Rightarrow> unmap_from_areas pagenum rest s
                  | Some p \<Rightarrow>
                      bindK (deref (procs s) p s) (\<lambda>pr s.
                        unmap_from_areas pagenum rest (hw (PT_UNMAP (p_pagedir pr) vaddr) s)))
       else unmap_from_areas pagenum rest s)"

definition pframe_remove_from_pts :: "ptr \<Rightarrow> unit kop" where
  "pframe_remove_from_pts pf s =
     bindK (deref (pframes s) pf s) (\<lambda>f s.
       case pf_obj f of
         None \<Rightarrow> Stop BAD_POINTER
       | Some ob \<Rightarrow> bindK (mmobj_bottom_vmas ob s) (\<lambda>vs s. unmap_from_areas (pf_pagenum f) vs s))"

definition pframe_clean :: "kenv \<Rightarrow> ptr \<Rightarrow> (errno + unit) kop" where
  "pframe_clean env pf s =
     bindK (deref (pframes s) pf s) (\<lambda>f s.
     bindK (kassert (pf_dirty f) s) (\<lambda>_ s.
     bindK (kassert (pf_pincount f = 0) s) (\<lambda>_ s.
     bindK (pf_upd pf (\<lambda>f. f\<lparr>pf_dirty := False\<rparr>) s) (\<lambda>_ s.
     bindK (pframe_remove_from_pts pf (hw (TLB_FLUSH (pf_addr f)) s)) (\<lambda>_ s.
     bindK (pf_upd pf (\<lambda>f. f\<lparr>pf_busy := True\<rparr>) s) (\<lambda>_ s.
       case pf_obj f of
         None \<Rightarrow> Stop BAD_POINTER
       | Some ob \<Rightarrow>
           bindK (mmo_cleanpage env ob pf s) (\<lambda>ret s.
           bindK (case ret of Inl _ \<Rightarrow> pf_upd pf (\<lambda>f. f\<lparr>pf_dirty := True\<rparr>) s | Inr _ \<Rightarrow> Ret () s) (\<lambda>_ s.
           bindK (pf_upd pf (\<lambda>f. f\<lparr>pf_busy := False\<rparr>) s) (\<lambda>_ s.
           bindK (sched_broadcast_on (PFWAITQ pf) s) (\<lambda>_ s.
             Ret ret s))))))))))"

section \<open>Freeing and migration\<close>

text \<open>
  \<open>pframe_free\<close> unlinks the frame from its object after it has given it back to the slab allocator, a use of freed memory. The
  definition has what the code gets when the allocator leaves the contents of a freed frame alone until it is handed out
  again.
\<close>

definition pframe_free :: "(ptr \<Rightarrow> unit kop) \<Rightarrow> ptr \<Rightarrow> unit kop" where
  "pframe_free put pf s =
     bindK (deref (pframes s) pf s) (\<lambda>f s.
     bindK (kassert (\<not> pframe_is_pinned f) s) (\<lambda>_ s.
       case pf_obj f of
         None \<Rightarrow> Stop KASSERT_failed
       | Some ob \<Rightarrow>
           bindK (kassert (\<not> pf_busy f) s) (\<lambda>_ s.
           bindK (pframe_remove_from_pts pf (hw (TLB_FLUSH (pf_addr f)) s)) (\<lambda>_ s.
             let s = pf_hlink_remove pf s;
                 s = s\<lparr>nallocated := nallocated s - 1\<rparr>;
                 s = pf_link_remove pf s;
                 s = s\<lparr>pages_out := remove1 (pf_addr f) (pages_out s), pframes := (pframes s)(pf := None)\<rparr>
             in bindK (mmo_upd ob (\<lambda>m. m\<lparr>mmo_nrespages := mmo_nrespages m - 1,
                                         mmo_respages := remove1 pf (mmo_respages m)\<rparr>) s) (\<lambda>_ s.
                  put ob s)))))"

definition pframe_migrate :: "kenv \<Rightarrow> (ptr \<Rightarrow> unit kop) \<Rightarrow> ptr \<Rightarrow> ptr \<Rightarrow> unit kop" where
  "pframe_migrate env put pf dest s =
     bindK (deref (pframes s) pf s) (\<lambda>f s.
     bindK (kassert (\<not> pf_busy f) s) (\<lambda>_ s.
     bindK (pframe_get_resident env dest (pf_pagenum f) s) (\<lambda>r s.
       case r of
         Some _ \<Rightarrow>
           bindK (pframe_unpin pf s) (\<lambda>_ s.
           bindK (pframe_clean env pf s) (\<lambda>_ s.
             pframe_free put pf s))
       | None \<Rightarrow>
           (case pf_obj f of
              None \<Rightarrow> Stop BAD_POINTER
            | Some src \<Rightarrow>
                bindK (pf_upd pf (\<lambda>f. f\<lparr>pf_obj := Some dest\<rparr>) s) (\<lambda>_ s.
                  let s = pf_hlink_remove pf s in
                  bindK (mmo_upd src (\<lambda>m. m\<lparr>mmo_respages := remove1 pf (mmo_respages m),
                                            mmo_nrespages := mmo_nrespages m - 1\<rparr>) s) (\<lambda>_ s.
                  bindK (put src s) (\<lambda>_ s.
                    let h = hash_page env dest (pf_pagenum f);
                        s = s\<lparr>pframe_hash := (pframe_hash s)(h := pf # pframe_hash s h)\<rparr>
                    in bindK (mmo_upd dest (\<lambda>m. m\<lparr>mmo_respages := pf # mmo_respages m,
                                                  mmo_nrespages := mmo_nrespages m + 1\<rparr>) s) (\<lambda>_ s.
                         mmo_ref dest s)))))))) "

section \<open>Writing back and paging out\<close>

primrec clean_all_iter :: "kenv \<Rightarrow> unit kop \<Rightarrow> ptr list \<Rightarrow> unit kop" where
  "clean_all_iter env again [] s = Ret () s"
| "clean_all_iter env again (pf # rest) s =
     bindK (deref (pframes s) pf s) (\<lambda>f s.
     bindK (kassert (\<not> pframe_is_pinned f) s) (\<lambda>_ s.
     bindK (kassert (\<not> pframe_is_free f) s) (\<lambda>_ s.
       if pf_busy f then bindK (sched_sleep_on (senv env) (PFWAITQ pf) s) (\<lambda>_ s. again s)
       else if pf_dirty f then bindK (pframe_clean env pf s) (\<lambda>_ s. again s)
       else clean_all_iter env again rest s)))"

primrec pframe_clean_all :: "nat \<Rightarrow> kenv \<Rightarrow> unit kop" where
  "pframe_clean_all 0 env s = Stop OUT_OF_FUEL"
| "pframe_clean_all (Suc n) env s = clean_all_iter env (pframe_clean_all n env) (alloc_list s) s"

primrec pageout_loop :: "nat \<Rightarrow> kenv \<Rightarrow> (ptr \<Rightarrow> unit kop) \<Rightarrow> unit kop" where
  "pageout_loop 0 env put s =
     (if \<not> pageoutd_target_met env s \<and> alloc_list s \<noteq> [] then Stop OUT_OF_FUEL else Ret () s)"
| "pageout_loop (Suc n) env put s =
     (if \<not> pageoutd_target_met env s \<and> alloc_list s \<noteq> []
      then let pf = hd (alloc_list s) in
        bindK (deref (pframes s) pf s) (\<lambda>f s.
        bindK (if pf_busy f then sched_sleep_on (senv env) (PFWAITQ pf) s
               else if pf_dirty f then bindK (pframe_clean env pf s) (\<lambda>_ s. Ret () s)
               else pframe_free put pf s) (\<lambda>_ s.
          pageout_loop n env put s))
      else Ret () s)"

text \<open>
  The pageout daemon; \<open>exit\<close> is \<open>kthread_exit\<close>. The outer loop runs once per wakeup.
\<close>

primrec pageoutd_run ::
  "nat \<Rightarrow> nat \<Rightarrow> kenv \<Rightarrow> (ptr \<Rightarrow> unit kop) \<Rightarrow> unit kop \<Rightarrow> unit kop" where
  "pageoutd_run 0 fuel env put exit s = Stop OUT_OF_FUEL"
| "pageoutd_run (Suc n) fuel env put exit s =
     bindK (kassert (nallocated s \<ge> 0) s) (\<lambda>_ s.
     bindK (pageout_loop fuel env put s) (\<lambda>_ s.
     bindK (sched_broadcast_on ALLOCQ s) (\<lambda>_ s.
     bindK (sched_cancellable_sleep_on (senv env) PAGEOUTDQ s) (\<lambda>r s.
       case r of
         Inl _ \<Rightarrow> bindK (exit s) (\<lambda>_ s. pageoutd_run n fuel env put exit s)
       | Inr _ \<Rightarrow> pageoutd_run n fuel env put exit s))))"

section \<open>The page cache invariant\<close>

text \<open>
  Every frame is on the allocated list or, exactly when its pin count is positive, on the pinned
  list; the counters are the lengths of the lists.
\<close>

definition lists_wf :: "kstate \<Rightarrow> bool" where
  "lists_wf s \<longleftrightarrow> distinct (alloc_list s) \<and> distinct (pinned_list s)
     \<and> nallocated s = int (length (alloc_list s)) \<and> npinned s = int (length (pinned_list s))
     \<and> (\<forall>p. p \<in> set (alloc_list s) \<longleftrightarrow> (\<exists>f. pframes s p = Some f \<and> pf_pincount f = 0))
     \<and> (\<forall>p. p \<in> set (pinned_list s) \<longleftrightarrow> (\<exists>f. pframes s p = Some f \<and> pf_pincount f > 0))
     \<and> (\<forall>p f. pframes s p = Some f \<longrightarrow> 0 \<le> pf_pincount f)"

text \<open>\<open>holds_page s p ob n\<close>: frame \<open>p\<close> holds page \<open>n\<close> of object \<open>ob\<close>.\<close>

definition holds_page :: "kstate \<Rightarrow> ptr \<Rightarrow> ptr \<Rightarrow> u32 \<Rightarrow> bool" where
  "holds_page s p ob n \<longleftrightarrow> (\<exists>f. pframes s p = Some f \<and> pf_obj f = Some ob \<and> pf_pagenum f = n)"

text \<open>The hash table lists every frame in the chain of its page, and a page has one frame.\<close>

definition hash_wf :: "kenv \<Rightarrow> kstate \<Rightarrow> bool" where
  "hash_wf env s \<longleftrightarrow> (\<forall>i. distinct (pframe_hash s i))
     \<and> (\<forall>i p. p \<in> set (pframe_hash s i) \<longleftrightarrow> (\<exists>ob n. holds_page s p ob n \<and> hash_page env ob n = i))
     \<and> (\<forall>p q ob n. holds_page s p ob n \<and> holds_page s q ob n \<longrightarrow> p = q)"

text \<open>
  An object lists the frames that hold its pages and counts them, and its references include one
  for each of them; every frame belongs to an object.
\<close>

definition obj_wf :: "kstate \<Rightarrow> ptr \<Rightarrow> mmobj \<Rightarrow> bool" where
  "obj_wf s ob m \<longleftrightarrow> distinct (mmo_respages m)
     \<and> mmo_nrespages m = int (length (mmo_respages m)) \<and> mmo_nrespages m \<le> mmo_refcount m
     \<and> (\<forall>p. p \<in> set (mmo_respages m) \<longleftrightarrow> (\<exists>n. holds_page s p ob n))"

definition objs_wf :: "kstate \<Rightarrow> bool" where
  "objs_wf s \<longleftrightarrow> (\<forall>p f. pframes s p = Some f \<longrightarrow> (\<exists>ob m. pf_obj f = Some ob \<and> mmobjs s ob = Some m))
     \<and> (\<forall>ob m. mmobjs s ob = Some m \<longrightarrow> obj_wf s ob m)"

text \<open>Different frames use different pages, which are allocated and aligned.\<close>

definition addrs_wf :: "kstate \<Rightarrow> bool" where
  "addrs_wf s \<longleftrightarrow> distinct (pages_out s)
     \<and> (\<forall>p f. pframes s p = Some f \<longrightarrow> pf_addr f \<in> set (pages_out s) \<and> PAGE_ALIGNED (pf_addr f))
     \<and> (\<forall>p q f g. pframes s p = Some f \<and> pframes s q = Some g \<and> pf_addr f = pf_addr g \<longrightarrow> p = q)"

definition pages_wf :: "kenv \<Rightarrow> kstate \<Rightarrow> bool" where
  "pages_wf env s \<longleftrightarrow> lists_wf s \<and> hash_wf env s \<and> objs_wf s \<and> addrs_wf s"

lemmas pages_wf_defs = pages_wf_def lists_wf_def hash_wf_def objs_wf_def addrs_wf_def

lemma lists_wf_list:
  "lists_wf s \<Longrightarrow> pframes s p = Some f \<Longrightarrow>
     (p \<in> set (alloc_list s) \<longleftrightarrow> \<not> pframe_is_pinned f) \<and> (p \<in> set (pinned_list s) \<longleftrightarrow> pframe_is_pinned f)"
  unfolding lists_wf_def pframe_is_pinned_def by force

lemma lists_wf_alloc: "lists_wf s \<Longrightarrow> p \<in> set (alloc_list s) \<Longrightarrow> pframes s p = Some f \<Longrightarrow> pf_pincount f = 0"
  unfolding lists_wf_def by (metis option.inject)

lemma holds_page_frame: "holds_page s p ob n \<Longrightarrow> \<exists>f. pframes s p = Some f \<and> pf_obj f = Some ob \<and> pf_pagenum f = n"
  by (simp add: holds_page_def)

lemma holds_page_cong: "pframes s' = pframes s \<Longrightarrow> holds_page s' = holds_page s"
  by (simp add: holds_page_def fun_eq_iff)

lemma hash_wf_cong:
  "pframes s' = pframes s \<Longrightarrow> pframe_hash s' = pframe_hash s \<Longrightarrow> hash_wf env s' = hash_wf env s"
  by (simp add: hash_wf_def holds_page_cong [of s' s])

lemma obj_wf_cong: "holds_page s' = holds_page s \<Longrightarrow> obj_wf s' = obj_wf s"
  by (simp add: obj_wf_def fun_eq_iff)

lemma objs_wf_cong: "pframes s' = pframes s \<Longrightarrow> mmobjs s' = mmobjs s \<Longrightarrow> objs_wf s' = objs_wf s"
  by (simp add: objs_wf_def obj_wf_cong [OF holds_page_cong, of s' s])

lemma frame_owner:
  "objs_wf s \<Longrightarrow> pframes s p = Some f \<Longrightarrow> \<exists>ob m. pf_obj f = Some ob \<and> mmobjs s ob = Some m \<and> obj_wf s ob m"
  unfolding objs_wf_def by blast

lemma frame_not_free: "objs_wf s \<Longrightarrow> pframes s p = Some f \<Longrightarrow> \<not> pframe_is_free f"
  using frame_owner by (fastforce simp: pframe_is_free_def)

lemma addrs_wf_cong: "pframes s' = pframes s \<Longrightarrow> pages_out s' = pages_out s \<Longrightarrow> addrs_wf s' = addrs_wf s"
  by (simp add: addrs_wf_def)

lemma lists_wf_cong:
  "pframes s' = pframes s \<Longrightarrow> alloc_list s' = alloc_list s \<Longrightarrow> pinned_list s' = pinned_list s \<Longrightarrow>
     nallocated s' = nallocated s \<Longrightarrow> npinned s' = npinned s \<Longrightarrow> lists_wf s' = lists_wf s"
  by (simp add: lists_wf_def)

lemma hash_wf_unique: "hash_wf env s \<Longrightarrow> holds_page s p ob n \<Longrightarrow> holds_page s q ob n \<Longrightarrow> q = p"
  unfolding hash_wf_def by blast

lemma hash_wf_chain:
  "hash_wf env s \<Longrightarrow> p \<in> set (pframe_hash s i) \<longleftrightarrow> (\<exists>ob n. holds_page s p ob n \<and> hash_page env ob n = i)"
  unfolding hash_wf_def by blast

lemma pages_wfD:
  assumes "pages_wf env s"
  shows "lists_wf s" "hash_wf env s" "objs_wf s" "addrs_wf s"
  using assms by (simp_all add: pages_wf_def)

subsection \<open>Looking up a resident page\<close>

text \<open>A page that is requested moves to the end of the allocated list.\<close>

definition touched :: "ptr \<Rightarrow> kstate \<Rightarrow> kstate" where
  "touched p s =
     (case pframes s p of
        Some f \<Rightarrow> if pframe_is_pinned f then s else s\<lparr>alloc_list := remove1 p (alloc_list s) @ [p]\<rparr>
      | None \<Rightarrow> s)"

lemma touched_frame [simp]:
  "pframes (touched p s) = pframes s" "mmobjs (touched p s) = mmobjs s"
  "pframe_hash (touched p s) = pframe_hash s" "kmem (touched p s) = kmem s"
  "pages_out (touched p s) = pages_out s" "npinned (touched p s) = npinned s"
  "nallocated (touched p s) = nallocated s" "pinned_list (touched p s) = pinned_list s"
  "hwlog (touched p s) = hwlog s" "vmareas (touched p s) = vmareas s" "vmmaps (touched p s) = vmmaps s"
  "vnodes (touched p s) = vnodes s" "procs (touched p s) = procs s" "threads (touched p s) = threads s"
  "queues (touched p s) = queues s" "curthr (touched p s) = curthr s" "curproc (touched p s) = curproc s"
  "holds_page (touched p s) = holds_page s"
  by (auto simp: touched_def holds_page_def fun_eq_iff split: option.splits)

lemma set_alloc_list_touched [simp]:
  "lists_wf s \<Longrightarrow> set (alloc_list (touched p s)) = set (alloc_list s)"
  "lists_wf s \<Longrightarrow> length (alloc_list (touched p s)) = length (alloc_list s)"
  "lists_wf s \<Longrightarrow> distinct (alloc_list (touched p s))"
proof -
  have m: "p \<in> set (alloc_list s)" if "lists_wf s" "pframes s p = Some f" "\<not> pframe_is_pinned f" for f
    using lists_wf_list that by blast
  show "lists_wf s \<Longrightarrow> set (alloc_list (touched p s)) = set (alloc_list s)"
    and "lists_wf s \<Longrightarrow> length (alloc_list (touched p s)) = length (alloc_list s)"
    and "lists_wf s \<Longrightarrow> distinct (alloc_list (touched p s))"
    using m move_to_back [of p "alloc_list s"] by (auto simp: touched_def lists_wf_def split: option.splits)
qed

lemma pages_wf_touched [simp]: "pages_wf env s \<Longrightarrow> pages_wf env (touched p s)"
  unfolding pages_wf_def
  by (simp add: hash_wf_cong [of "touched p s" s] objs_wf_cong [of "touched p s" s]
      addrs_wf_cong [of "touched p s" s]) (simp add: lists_wf_def)

lemma chain_find_none:
  assumes "\<And>p. p \<in> set ps \<Longrightarrow> pframes s p \<noteq> None" and "\<And>p. p \<in> set ps \<Longrightarrow> \<not> holds_page s p ob n"
  shows "chain_find ob n ps s = Ret None s"
  using assms
proof (induction ps)
  case (Cons q ps)
  obtain g where g: "pframes s q = Some g" using Cons.prems(1) [of q] by auto
  have "\<not> (pf_obj g = Some ob \<and> pf_pagenum g = n)" using Cons.prems(2) [of q] g by (simp add: holds_page_def)
  then have "chain_find ob n (q # ps) s = chain_find ob n ps s" using g by auto
  then show ?case using Cons by simp
qed simp

lemma chain_find_some:
  assumes "\<And>q. q \<in> set ps \<Longrightarrow> pframes s q \<noteq> None" and "p \<in> set ps" and "holds_page s p ob n"
    and "\<And>q. q \<noteq> p \<Longrightarrow> \<not> holds_page s q ob n" and wf: "lists_wf s"
  shows "chain_find ob n ps s = Ret (Some p) (touched p s)"
  using assms(1-4)
proof (induction ps)
  case (Cons q ps)
  obtain g where g: "pframes s q = Some g" using Cons.prems(1) [of q] by auto
  have np: "remove1 q (pinned_list s) = pinned_list s" if "\<not> pframe_is_pinned g"
    using lists_wf_list [OF wf g] that by (simp add: remove1_idem)
  show ?case
  proof (cases "holds_page s q ob n")
    case True
    then have "q = p" using Cons.prems(4) by blast
    moreover have "pf_obj g = Some ob" "pf_pagenum g = n" using True g by (simp_all add: holds_page_def)
    ultimately show ?thesis using g np by (simp add: touched_def pf_link_remove_def)
  next
    case False
    then have "\<not> (pf_obj g = Some ob \<and> pf_pagenum g = n)" using g by (simp add: holds_page_def)
    then have "chain_find ob n (q # ps) s = chain_find ob n ps s" using g by auto
    moreover have "p \<in> set ps" using False Cons.prems(2,3) by auto
    then have "chain_find ob n ps s = Ret (Some p) (touched p s)"
      using Cons.IH Cons.prems by simp
    ultimately show ?thesis by (rule trans)
  qed
qed simp

lemma get_resident_none:
  assumes wf: "pages_wf env s" and none: "\<And>p. \<not> holds_page s p ob n"
  shows "pframe_get_resident env ob n s = Ret None s"
  unfolding pframe_get_resident_def
proof (rule chain_find_none)
  fix p assume "p \<in> set (pframe_hash s (hash_page env ob n))"
  then show "pframes s p \<noteq> None"
    unfolding hash_wf_chain [OF pages_wfD(2) [OF wf]] by (auto simp: holds_page_def)
qed (rule none)

lemma get_resident_some:
  assumes wf: "pages_wf env s" and p: "holds_page s p ob n"
  shows "pframe_get_resident env ob n s = Ret (Some p) (touched p s)"
  unfolding pframe_get_resident_def
proof (rule chain_find_some)
  note chain = hash_wf_chain [OF pages_wfD(2) [OF wf]]
  show "pframes s q \<noteq> None" if "q \<in> set (pframe_hash s (hash_page env ob n))" for q
    using that unfolding chain by (auto simp: holds_page_def)
  show "p \<in> set (pframe_hash s (hash_page env ob n))" using p unfolding chain by blast
  show "\<not> holds_page s q ob n" if "q \<noteq> p" for q using hash_wf_unique [OF pages_wfD(2) [OF wf] p] that by blast
qed (use wf p pages_wfD in auto)

subsection \<open>Updates of one frame\<close>

lemma holds_page_upd:
  assumes "pframes s p = Some f" and "pf_obj f' = pf_obj f" and "pf_pagenum f' = pf_pagenum f"
    and "pframes s' = (pframes s)(p \<mapsto> f')"
  shows "holds_page s' = holds_page s"
  using assms by (auto simp: holds_page_def fun_eq_iff)

text \<open>An update that keeps the identity, the address and the pin count of a frame.\<close>

lemma pages_wf_upd:
  assumes f: "pframes s p = Some f" and id: "pf_obj f' = pf_obj f" "pf_pagenum f' = pf_pagenum f"
    "pf_addr f' = pf_addr f" and wf: "hash_wf env s" "objs_wf s" "addrs_wf s"
    and s': "pframes s' = (pframes s)(p \<mapsto> f')" "pframe_hash s' = pframe_hash s" "mmobjs s' = mmobjs s"
    "pages_out s' = pages_out s" and l: "lists_wf s'"
  shows "pages_wf env s'"
proof -
  note h = holds_page_upd [OF f id(1,2) s'(1)]
  have "hash_wf env s'" using wf(1) unfolding hash_wf_def h s' .
  moreover have "objs_wf s'" using wf(2) f unfolding objs_wf_def obj_wf_cong [OF h] s'
    by (auto simp: id split: if_splits)
  moreover have "addrs_wf s'" using wf(3) f unfolding addrs_wf_def s' by (auto simp: id split: if_splits)
  ultimately show ?thesis using l by (simp add: pages_wf_def)
qed

lemma pages_wf_flags:
  assumes wf: "pages_wf env s" and f: "pframes s p = Some f"
    and id: "pf_obj f' = pf_obj f" "pf_pagenum f' = pf_pagenum f" "pf_addr f' = pf_addr f"
      "pf_pincount f' = pf_pincount f"
  shows "pages_wf env (s\<lparr>pframes := (pframes s)(p \<mapsto> f')\<rparr>)"
proof (rule pages_wf_upd [OF f id(1-3) pages_wfD(2-4) [OF wf]])
  show "lists_wf (s\<lparr>pframes := (pframes s)(p \<mapsto> f')\<rparr>)"
    using pages_wfD(1) [OF wf] f id(4) unfolding lists_wf_def by auto
qed simp_all

definition pinned_once :: "ptr \<Rightarrow> pframe \<Rightarrow> kstate \<Rightarrow> kstate" where
  "pinned_once p f s =
     (if pframe_is_pinned f then s\<lparr>pframes := (pframes s)(p \<mapsto> f\<lparr>pf_pincount := pf_pincount f + 1\<rparr>)\<rparr>
      else s\<lparr>alloc_list := remove1 p (alloc_list s), pinned_list := pinned_list s @ [p],
             nallocated := nallocated s - 1, npinned := npinned s + 1,
             pframes := (pframes s)(p \<mapsto> f\<lparr>pf_pincount := pf_pincount f + 1\<rparr>)\<rparr>)"

definition unpinned_once :: "ptr \<Rightarrow> pframe \<Rightarrow> kstate \<Rightarrow> kstate" where
  "unpinned_once p f s =
     (if 1 < pf_pincount f then s\<lparr>pframes := (pframes s)(p \<mapsto> f\<lparr>pf_pincount := pf_pincount f - 1\<rparr>)\<rparr>
      else s\<lparr>alloc_list := alloc_list s @ [p], pinned_list := remove1 p (pinned_list s),
             nallocated := nallocated s + 1, npinned := npinned s - 1,
             pframes := (pframes s)(p \<mapsto> f\<lparr>pf_pincount := pf_pincount f - 1\<rparr>)\<rparr>)"

lemma pframe_pin_eq:
  assumes wf: "pages_wf env s" and f: "pframes s p = Some f"
  shows "pframe_pin p s = Ret () (pinned_once p f s)"
proof -
  note l = lists_wf_list [OF pages_wfD(1) [OF wf] f]
  have nf: "\<not> pframe_is_free f" using pages_wfD(3) [OF wf] f by (rule frame_not_free)
  have c: "0 \<le> pf_pincount f" using pages_wfD(1) [OF wf] f by (simp add: lists_wf_def)
  show ?thesis
  proof (cases "pframe_is_pinned f")
    case True
    then show ?thesis using f nf c by (simp add: pframe_pin_def pinned_once_def)
  next
    case False
    then have "remove1 p (pinned_list s) = pinned_list s" "alloc_list s \<noteq> []"
      using l by (auto simp: remove1_idem)
    then show ?thesis using False f nf c
      by (simp add: pframe_pin_def pinned_once_def pf_link_remove_def)
  qed
qed

lemma pages_wf_pinned_once:
  assumes wf: "pages_wf env s" and f: "pframes s p = Some f"
  shows "pages_wf env (pinned_once p f s)"
proof (rule pages_wf_upd [OF f _ _ _ pages_wfD(2-4) [OF wf]])
  note l = lists_wf_list [OF pages_wfD(1) [OF wf] f]
  have lw: "lists_wf s" and c: "0 \<le> pf_pincount f" using pages_wfD(1) [OF wf] f by (simp_all add: lists_wf_def)
  show "lists_wf (pinned_once p f s)"
  proof (cases "pframe_is_pinned f")
    case True
    then show ?thesis using lw f unfolding lists_wf_def pinned_once_def
      by (auto simp: pframe_is_pinned_def)
  next
    case False
    then have "p \<in> set (alloc_list s)" "p \<notin> set (pinned_list s)" "pf_pincount f = 0"
      using l c by (auto simp: pframe_is_pinned_def)
    then show ?thesis using False lw f length_pos_if_in_set [of p "alloc_list s"]
      unfolding lists_wf_def pinned_once_def
      by (auto simp: length_remove1 of_nat_diff Suc_le_eq)
  qed
qed (simp_all add: pinned_once_def)

lemma pframe_unpin_eq:
  assumes wf: "pages_wf env s" and f: "pframes s p = Some f" and pin: "pframe_is_pinned f"
  shows "pframe_unpin p s = Ret () (unpinned_once p f s)"
proof -
  note l = lists_wf_list [OF pages_wfD(1) [OF wf] f]
  have nf: "\<not> pframe_is_free f" using pages_wfD(3) [OF wf] f by (rule frame_not_free)
  have "pinned_list s \<noteq> []" "remove1 p (alloc_list s) = alloc_list s" using l pin by (auto simp: remove1_idem)
  then show ?thesis using f pin nf
    by (auto simp: pframe_unpin_def unpinned_once_def pframe_is_pinned_def pf_link_remove_def)
qed

lemma pages_wf_unpinned_once:
  assumes wf: "pages_wf env s" and f: "pframes s p = Some f" and pin: "pframe_is_pinned f"
  shows "pages_wf env (unpinned_once p f s)"
proof (rule pages_wf_upd [OF f _ _ _ pages_wfD(2-4) [OF wf]])
  note l = lists_wf_list [OF pages_wfD(1) [OF wf] f]
  have lw: "lists_wf s" using pages_wfD(1) [OF wf] .
  have mem: "p \<in> set (pinned_list s)" "p \<notin> set (alloc_list s)" using l pin by auto
  show "lists_wf (unpinned_once p f s)"
    using pin lw f mem length_pos_if_in_set [of p "pinned_list s"]
    unfolding lists_wf_def unpinned_once_def
    by (auto simp: pframe_is_pinned_def length_remove1 of_nat_diff Suc_le_eq)
qed (simp_all add: unpinned_once_def)

subsection \<open>Allocating a frame\<close>

definition fresh_frame :: "ptr \<Rightarrow> u32 \<Rightarrow> u32 \<Rightarrow> pframe" where
  "fresh_frame ob n a = \<lparr>pf_obj = Some ob, pf_pagenum = n, pf_addr = a, pf_busy = False,
     pf_dirty = False, pf_pincount = 0\<rparr>"

definition with_frame :: "kenv \<Rightarrow> ptr \<Rightarrow> u32 \<Rightarrow> ptr \<Rightarrow> u32 \<Rightarrow> mmobj \<Rightarrow> kstate \<Rightarrow> kstate" where
  "with_frame env ob n p a m s =
     s\<lparr>queues := (queues s)(PFWAITQ p := \<lparr>tq_list = [], tq_size = 0\<rparr>),
       pages_out := a # pages_out s,
       mmobjs := (mmobjs s)(ob \<mapsto> m\<lparr>mmo_refcount := mmo_refcount m + 1,
          mmo_nrespages := mmo_nrespages m + 1, mmo_respages := p # mmo_respages m\<rparr>),
       pframes := (pframes s)(p \<mapsto> fresh_frame ob n a),
       nallocated := nallocated s + 1, alloc_list := alloc_list s @ [p],
       pframe_hash := (pframe_hash s)(hash_page env ob n := p # pframe_hash s (hash_page env ob n))\<rparr>"

lemma with_frame_sel [simp]:
  "pframes (with_frame env ob n p a m s) = (pframes s)(p \<mapsto> fresh_frame ob n a)"
  "kmem (with_frame env ob n p a m s) = kmem s"
  "alloc_list (with_frame env ob n p a m s) = alloc_list s @ [p]"
  "pages_out (with_frame env ob n p a m s) = a # pages_out s"
  "threads (with_frame env ob n p a m s) = threads s"
  "hwlog (with_frame env ob n p a m s) = hwlog s"
  by (simp_all add: with_frame_def)

lemma fresh_frame_sel [simp]:
  "pf_obj (fresh_frame ob n a) = Some ob" "pf_pagenum (fresh_frame ob n a) = n"
  "pf_addr (fresh_frame ob n a) = a" "\<not> pf_busy (fresh_frame ob n a)"
  "\<not> pf_dirty (fresh_frame ob n a)" "pf_pincount (fresh_frame ob n a) = 0"
  by (simp_all add: fresh_frame_def)

lemma pframe_alloc_eq:
  assumes "mmobjs s ob = Some m" and "0 < mmo_refcount m"
    and "pframe_slab env (pframes s) = Some p" and "page_alloc env (pages_out s) = Some a"
  shows "pframe_alloc env ob n s = Ret (Some p) (with_frame env ob n p a m s)"
  using assms
  by (simp add: pframe_alloc_def mmo_ref_eq with_frame_def fresh_frame_def sched_queue_init_def Let_def)

lemma pframe_alloc_fails:
  "pframe_slab env (pframes s) = None \<or> page_alloc env (pages_out s) = None \<Longrightarrow>
     pframe_alloc env ob n s = Ret None s"
  by (auto simp: pframe_alloc_def split: option.splits)

lemma pages_wf_with_frame:
  assumes wf: "pages_wf env s" and ob: "mmobjs s ob = Some m" and new: "pframes s p = None"
    and a: "a \<notin> set (pages_out s)" "PAGE_ALIGNED a" and nr: "\<And>q. \<not> holds_page s q ob n"
  shows "pages_wf env (with_frame env ob n p a m s)"
proof -
  let ?s = "with_frame env ob n p a m s"
  have h: "holds_page ?s q ob' n' \<longleftrightarrow> (if q = p then ob' = ob \<and> n' = n else holds_page s q ob' n')" for q ob' n'
    by (auto simp: holds_page_def)
  have hx: "(\<exists>n'. holds_page ?s q ob' n') \<longleftrightarrow> (if q = p then ob' = ob else \<exists>n'. holds_page s q ob' n')" for q ob'
    using h by auto
  have np: "\<not> holds_page s p ob' n'" for ob' n' using new by (simp add: holds_page_def)
  have out: "p \<notin> set (alloc_list s)" "p \<notin> set (pinned_list s)" "p \<notin> set (pframe_hash s i)" for i
    using pages_wfD(1) [OF wf] hash_wf_chain [OF pages_wfD(2) [OF wf]] new
    by (auto simp: lists_wf_def holds_page_def)
  have "lists_wf ?s" using pages_wfD(1) [OF wf] new out
    unfolding lists_wf_def with_frame_def by auto
  moreover have "hash_wf env ?s" unfolding hash_wf_def h
  proof (intro conjI allI impI)
    fix i show "distinct (pframe_hash ?s i)"
      using pages_wfD(2) [OF wf] out by (simp add: hash_wf_def with_frame_def)
  next
    fix i q
    show "q \<in> set (pframe_hash ?s i) \<longleftrightarrow>
      (\<exists>ob' n'. (if q = p then ob' = ob \<and> n' = n else holds_page s q ob' n') \<and> hash_page env ob' n' = i)"
      using hash_wf_chain [OF pages_wfD(2) [OF wf], of q i] out(3) [of i] by (cases "q = p") (auto simp: with_frame_def)
  next
    fix q r ob' n'
    assume "(if q = p then ob' = ob \<and> n' = n else holds_page s q ob' n')
      \<and> (if r = p then ob' = ob \<and> n' = n else holds_page s r ob' n')"
    then show "q = r" using hash_wf_unique [OF pages_wfD(2) [OF wf]] nr by (auto split: if_splits)
  qed
  moreover have "objs_wf ?s" unfolding objs_wf_def
  proof (intro conjI allI impI)
    fix q f assume "pframes ?s q = Some f"
    then show "\<exists>ob' m'. pf_obj f = Some ob' \<and> mmobjs ?s ob' = Some m'"
      using frame_owner [OF pages_wfD(3) [OF wf]] by (fastforce simp: with_frame_def split: if_splits)
  next
    fix ob' m' assume m': "mmobjs ?s ob' = Some m'"
    have old: "obj_wf s ob' m''" if "mmobjs s ob' = Some m''" for m''
      using pages_wfD(3) [OF wf] that by (simp add: objs_wf_def)
    show "obj_wf ?s ob' m'"
    proof (cases "ob' = ob")
      case True
      with m' old ob np show ?thesis unfolding obj_wf_def hx by (auto simp: with_frame_def)
    next
      case False
      with m' have "mmobjs s ob' = Some m'" by (simp add: with_frame_def)
      with old False np show ?thesis unfolding obj_wf_def hx by auto
    qed
  qed
  moreover have "addrs_wf ?s"
    using pages_wfD(4) [OF wf] a unfolding addrs_wf_def by (auto split: if_splits)
  ultimately show ?thesis by (simp add: pages_wf_def)
qed

subsection \<open>Removing a page from the page tables\<close>

text \<open>
  An area in use belongs to an address space whose process, if it has one, exists. \<open>mapped_at\<close>
  says where an area maps page \<open>n\<close> of its bottom object, and in which page directory.
\<close>

definition area_ok :: "kstate \<Rightarrow> ptr \<Rightarrow> bool" where
  "area_ok s v \<longleftrightarrow> (case vmareas s v of None \<Rightarrow> False | Some a \<Rightarrow>
     (case vma_vmmap a of None \<Rightarrow> False | Some mp \<Rightarrow>
       (case vmmaps s mp of None \<Rightarrow> False | Some vm \<Rightarrow>
         (case vmn_proc vm of None \<Rightarrow> True | Some p \<Rightarrow> procs s p \<noteq> None))))"

definition mapped_at :: "kstate \<Rightarrow> u32 \<Rightarrow> ptr \<Rightarrow> hwevent list" where
  "mapped_at s n v =
     (case vmareas s v of None \<Rightarrow> [] | Some a \<Rightarrow>
       if vma_off a \<le> n \<and> n < vma_off a + (vma_end a - vma_start a)
       then (case vma_vmmap a of None \<Rightarrow> [] | Some mp \<Rightarrow>
         (case vmmaps s mp of None \<Rightarrow> [] | Some vm \<Rightarrow>
           (case vmn_proc vm of None \<Rightarrow> [] | Some p \<Rightarrow>
             (case procs s p of None \<Rightarrow> [] | Some pr \<Rightarrow>
               [PT_UNMAP (p_pagedir pr) (PN_TO_ADDR (vma_start a + n - vma_off a))]))))
       else [])"

lemma mapped_at_cases:
  obtains "mapped_at s n v = []"
  | a mp vm q pr where "vmareas s v = Some a" "vma_off a \<le> n" "n < vma_off a + (vma_end a - vma_start a)"
      "vma_vmmap a = Some mp" "vmmaps s mp = Some vm" "vmn_proc vm = Some q" "procs s q = Some pr"
      "mapped_at s n v = [PT_UNMAP (p_pagedir pr) (PN_TO_ADDR (vma_start a + n - vma_off a))]"
proof (cases "mapped_at s n v = []")
  case False
  then show thesis using that(2) by (auto simp: mapped_at_def split: option.splits if_splits)
qed (rule that(1))

lemma area_ok_cong:
  assumes "vmareas s' = vmareas s" "vmmaps s' = vmmaps s" "procs s' = procs s"
  shows "area_ok s' = area_ok s" "mapped_at s' = mapped_at s"
  unfolding area_ok_def mapped_at_def assms by (rule refl)+

lemma area_ok_simps [simp]:
  "area_ok (s\<lparr>hwlog := l\<rparr>) = area_ok s" "mapped_at (s\<lparr>hwlog := l\<rparr>) = mapped_at s"
  "area_ok (s\<lparr>pframes := fs\<rparr>) = area_ok s" "mapped_at (s\<lparr>pframes := fs\<rparr>) = mapped_at s"
  by (rule area_ok_cong; simp)+

lemma unmap_from_areas_eq:
  "\<forall>v\<in>set vs. area_ok s v \<Longrightarrow>
     unmap_from_areas n vs s = Ret () (s\<lparr>hwlog := hwlog s @ concat (map (mapped_at s n) vs)\<rparr>)"
proof (induction vs arbitrary: s)
  case (Cons v vs)
  then have ok: "area_ok s v" by simp
  have "unmap_from_areas n (v # vs) s = unmap_from_areas n vs (s\<lparr>hwlog := hwlog s @ mapped_at s n v\<rparr>)"
    using ok by (auto simp: area_ok_def mapped_at_def hw_def split: option.splits)
  with Cons.IH [of "s\<lparr>hwlog := hwlog s @ mapped_at s n v\<rparr>"] Cons.prems show ?case by simp
qed simp

text \<open>The areas that map the pages of an object.\<close>

definition areas_of :: "kstate \<Rightarrow> ptr \<Rightarrow> ptr list option" where
  "areas_of s ob =
     (case mmobjs s ob of
        None \<Rightarrow> None
      | Some m \<Rightarrow>
          (case mmo_un_f m of
             mmo_vmas vs \<Rightarrow> Some vs
           | mmo_vmas_relinked vs \<Rightarrow> Some vs
           | mmo_vmas_looped _ \<Rightarrow> None
           | mmo_bottom_obj None \<Rightarrow> None
           | mmo_bottom_obj (Some b) \<Rightarrow>
               (case mmobjs s b of
                  None \<Rightarrow> None
                | Some m \<Rightarrow> vmas_of (mmo_un_f m))))"

lemma areas_of_cong:
  assumes "mmobjs s' = mmobjs s"
  shows "areas_of s' = areas_of s"
  unfolding areas_of_def assms ..

lemma areas_of_simps [simp]:
  "areas_of (s\<lparr>hwlog := l\<rparr>) = areas_of s" "areas_of (s\<lparr>pframes := fs\<rparr>) = areas_of s"
  by (rule areas_of_cong; simp)+

lemma bottom_vmas_eq: "areas_of s ob = Some vs \<Longrightarrow> mmobj_bottom_vmas ob s = Ret vs s"
  by (auto simp: areas_of_def mmobj_bottom_vmas_def split: mmo_un.splits option.splits)

lemma remove_from_pts_eq:
  assumes "pframes s p = Some f" and "pf_obj f = Some ob" and "areas_of s ob = Some vs"
    and "\<forall>v\<in>set vs. area_ok s v"
  shows "pframe_remove_from_pts p s =
    Ret () (s\<lparr>hwlog := hwlog s @ concat (map (mapped_at s (pf_pagenum f)) vs)\<rparr>)"
  using assms by (simp add: pframe_remove_from_pts_def bottom_vmas_eq unmap_from_areas_eq)

subsection \<open>Freeing a frame\<close>

definition without_frame :: "ptr \<Rightarrow> pframe \<Rightarrow> ptr \<Rightarrow> mmobj \<Rightarrow> hwevent list \<Rightarrow> kstate \<Rightarrow> kstate" where
  "without_frame p f ob m evs s =
     s\<lparr>hwlog := hwlog s @ evs, pages_out := remove1 (pf_addr f) (pages_out s),
       mmobjs := (mmobjs s)(ob \<mapsto> m\<lparr>mmo_nrespages := mmo_nrespages m - 1,
          mmo_respages := remove1 p (mmo_respages m)\<rparr>),
       pframes := (pframes s)(p := None), nallocated := nallocated s - 1,
       alloc_list := remove1 p (alloc_list s), pframe_hash := (\<lambda>i. remove1 p (pframe_hash s i))\<rparr>"

definition free_events :: "kstate \<Rightarrow> pframe \<Rightarrow> ptr list \<Rightarrow> hwevent list" where
  "free_events s f vs = TLB_FLUSH (pf_addr f) # concat (map (mapped_at s (pf_pagenum f)) vs)"

lemma pframe_free_eq:
  assumes wf: "lists_wf s" and f: "pframes s p = Some f" "pf_obj f = Some ob" "mmobjs s ob = Some m"
    and ok: "\<not> pframe_is_pinned f" "\<not> pf_busy f" and vs: "areas_of s ob = Some vs" "\<forall>v\<in>set vs. area_ok s v"
  shows "pframe_free put p s = put ob (without_frame p f ob m (free_events s f vs) s)"
proof -
  have pl: "remove1 p (pinned_list s) = pinned_list s"
    using lists_wf_list [OF wf f(1)] ok(1) by (simp add: remove1_idem)
  let ?s = "s\<lparr>hwlog := hwlog s @ [TLB_FLUSH (pf_addr f)]\<rparr>"
  have a: "areas_of ?s ob = Some vs"
    using vs(1) by (simp add: areas_of_cong [of ?s s])
  have "pframe_remove_from_pts p ?s = Ret () (?s\<lparr>hwlog := hwlog s @ free_events s f vs\<rparr>)"
    using remove_from_pts_eq [of ?s p f ob vs] f a vs(2) by (simp add: free_events_def)
  then show ?thesis using f ok
    by (simp add: pframe_free_def hw_def pf_hlink_remove_def pf_link_remove_def Let_def)
      (rule arg_cong [of _ _ "put ob"], rule kstate.equality, simp_all add: without_frame_def pl)
qed

lemma pages_wf_without_frame:
  assumes wf: "pages_wf env s" and f: "pframes s p = Some f" "pf_obj f = Some ob" "mmobjs s ob = Some m"
    and np: "\<not> pframe_is_pinned f"
  shows "pages_wf env (without_frame p f ob m evs s)"
proof -
  let ?s = "without_frame p f ob m evs s"
  have h: "holds_page ?s q ob' n \<longleftrightarrow> q \<noteq> p \<and> holds_page s q ob' n" for q ob' n
    by (auto simp: holds_page_def without_frame_def)
  have hp: "holds_page s p ob' n \<longleftrightarrow> ob' = ob \<and> n = pf_pagenum f" for ob' n
    using f by (auto simp: holds_page_def)
  have mem: "p \<in> set (alloc_list s)" "p \<notin> set (pinned_list s)"
    using lists_wf_list [OF pages_wfD(1) [OF wf] f(1)] np by auto
  have "lists_wf ?s" using pages_wfD(1) [OF wf] mem length_pos_if_in_set [OF mem(1)]
    unfolding lists_wf_def without_frame_def
    by (auto simp: length_remove1 of_nat_diff Suc_le_eq)
  moreover have "hash_wf env ?s" unfolding hash_wf_def h
  proof (intro conjI allI impI)
    fix i show "distinct (pframe_hash ?s i)"
      using pages_wfD(2) [OF wf] by (simp add: hash_wf_def without_frame_def)
  next
    fix i q
    have "distinct (pframe_hash s i)" using pages_wfD(2) [OF wf] by (simp add: hash_wf_def)
    then show "q \<in> set (pframe_hash ?s i) \<longleftrightarrow> (\<exists>ob n. (q \<noteq> p \<and> holds_page s q ob n) \<and> hash_page env ob n = i)"
      using hash_wf_chain [OF pages_wfD(2) [OF wf], of q i] by (auto simp: without_frame_def)
  next
    fix q r ob' n assume "(q \<noteq> p \<and> holds_page s q ob' n) \<and> r \<noteq> p \<and> holds_page s r ob' n"
    then show "q = r" using hash_wf_unique [OF pages_wfD(2) [OF wf]] by blast
  qed
  moreover have "objs_wf ?s" unfolding objs_wf_def
  proof (intro conjI allI impI)
    fix q g assume "pframes ?s q = Some g"
    then show "\<exists>ob' m'. pf_obj g = Some ob' \<and> mmobjs ?s ob' = Some m'"
      using frame_owner [OF pages_wfD(3) [OF wf], of q g] by (auto simp: without_frame_def split: if_splits)
  next
    fix ob' m' assume m': "mmobjs ?s ob' = Some m'"
    have old: "obj_wf s ob' m''" if "mmobjs s ob' = Some m''" for m''
      using pages_wfD(3) [OF wf] that by (simp add: objs_wf_def)
    show "obj_wf ?s ob' m'"
    proof (cases "ob' = ob")
      case True
      then have mw: "obj_wf s ob m" using old f by simp
      then have "p \<in> set (mmo_respages m)" using hp by (auto simp: obj_wf_def)
      with mw m' True show ?thesis using length_pos_if_in_set [of p "mmo_respages m"]
        unfolding obj_wf_def h
        by (auto simp: without_frame_def length_remove1 of_nat_diff Suc_le_eq)
    next
      case False
      with m' have "mmobjs s ob' = Some m'" by (simp add: without_frame_def)
      with old False hp show ?thesis unfolding obj_wf_def h by auto
    qed
  qed
  moreover have "addrs_wf ?s" unfolding addrs_wf_def
  proof (intro conjI allI impI)
    show "distinct (pages_out ?s)" using pages_wfD(4) [OF wf] by (simp add: addrs_wf_def without_frame_def)
  next
    fix q g assume g: "pframes ?s q = Some g"
    then have "pframes s q = Some g" "q \<noteq> p" by (auto simp: without_frame_def split: if_splits)
    then have "pf_addr g \<noteq> pf_addr f" "pf_addr g \<in> set (pages_out s)" "PAGE_ALIGNED (pf_addr g)"
      using pages_wfD(4) [OF wf] f(1) unfolding addrs_wf_def by blast+
    then show "pf_addr g \<in> set (pages_out ?s)" "PAGE_ALIGNED (pf_addr g)"
      by (simp_all add: without_frame_def in_set_remove1)
  next
    fix q r g h' assume "pframes ?s q = Some g \<and> pframes ?s r = Some h' \<and> pf_addr g = pf_addr h'"
    then have "pframes s q = Some g" "pframes s r = Some h'" "pf_addr g = pf_addr h'"
      by (auto simp: without_frame_def split: if_splits)
    then show "q = r" using pages_wfD(4) [OF wf] unfolding addrs_wf_def by blast
  qed
  ultimately show ?thesis by (simp add: pages_wf_def)
qed

subsection \<open>Cleaning a page\<close>

text \<open>
  \<open>same_cache s s'\<close>: the states agree on the page cache, the objects, the areas, the processes and
  the vnodes; they may differ in memory, in the record of hardware calls and in the scheduler.
\<close>

definition same_cache :: "kstate \<Rightarrow> kstate \<Rightarrow> bool" where
  "same_cache s s' \<longleftrightarrow> pframes s' = pframes s \<and> mmobjs s' = mmobjs s \<and> alloc_list s' = alloc_list s
     \<and> pinned_list s' = pinned_list s \<and> nallocated s' = nallocated s \<and> npinned s' = npinned s
     \<and> pframe_hash s' = pframe_hash s \<and> pages_out s' = pages_out s \<and> vmareas s' = vmareas s
     \<and> vmmaps s' = vmmaps s \<and> procs s' = procs s \<and> vnodes s' = vnodes s"

text \<open>
  Two conditions on a run of \<open>pframe_clean_all\<close>, none of which the code can rely on: every page that the file system is asked to
  write is written, or every one fails, and the calls neither block nor touch the page cache.
\<close>

definition cleanpage_gives :: "errno + unit \<Rightarrow> kenv \<Rightarrow> bool" where
  "cleanpage_gives r env \<longleftrightarrow> (\<forall>vn off buf s. \<exists>s'. fs_cleanpage env vn off buf s = Ret r s'
     \<and> same_cache s s' \<and> (\<forall>R. sched_wf R s \<longrightarrow> sched_wf R s'))"

definition objects_ok :: "kstate \<Rightarrow> bool" where
  "objects_ok s \<longleftrightarrow> (\<forall>ob m. mmobjs s ob = Some m \<longrightarrow>
     (\<exists>vs. areas_of s ob = Some vs \<and> (\<forall>v\<in>set vs. area_ok s v))
     \<and> (mmo_ops m = vnode_mmobj_ops \<longrightarrow> (\<exists>v. vnodes s ob = Some v \<and> vn_ops v = fs_vops)))"

lemma same_cache_objects_ok: 
  assumes "mmobjs s' = mmobjs s" "vmareas s' = vmareas s" "vmmaps s' = vmmaps s" "procs s' = procs s"
    "vnodes s' = vnodes s"
  shows "objects_ok s' = objects_ok s"
proof -
  have "area_ok s' = area_ok s" by (rule area_ok_cong) (simp_all add: assms)
  then show ?thesis unfolding objects_ok_def areas_of_cong [OF assms(1)] assms by simp
qed

text \<open>What cleaning a page of an object with these operations then gives.\<close>

definition clean_result :: "errno + unit \<Rightarrow> mmobj_ops \<Rightarrow> errno + unit" where
  "clean_result r ops = (if ops = vnode_mmobj_ops then r else Inr ())"

lemma mmo_cleanpage_gives:
  assumes env: "cleanpage_gives r env" and ok: "objects_ok s" and f: "pframes s p = Some f" "\<not> pf_dirty f"
    and ob: "mmobjs s ob = Some m"
  shows "\<exists>s'. mmo_cleanpage env ob p s = Ret (clean_result r (mmo_ops m)) s' \<and> same_cache s s' \<and> (\<forall>R. sched_wf R s \<longrightarrow> sched_wf R s')"
proof (cases "mmo_ops m = vnode_mmobj_ops")
  case True
  then obtain v where "vnodes s ob = Some v" "vn_ops v = fs_vops" using ok ob unfolding objects_ok_def by blast
  with True f ob env show ?thesis
    by (simp add: mmo_cleanpage_def vcleanpage_def vn_cleanpage_def cleanpage_gives_def clean_result_def)
next
  case False
  have "f\<lparr>pf_dirty := False\<rparr> = f" using f(2) by (cases f) simp
  then show ?thesis using mmo_cleanpage_eq [OF ob False f(1)] f(1) False
    by (simp add: same_cache_def fun_upd_idem clean_result_def)
qed

lemma pframe_clean_gives:
  assumes env: "cleanpage_gives r env" and ok: "objects_ok s" and sw: "sched_wf R s"
    and f: "pframes s p = Some f" "pf_dirty f" "pf_pincount f = 0" "\<not> pf_busy f"
    and ob: "pf_obj f = Some ob" "mmobjs s ob = Some m"
  shows "\<exists>s'. pframe_clean env p s = Ret (clean_result r (mmo_ops m)) s' \<and> sched_wf R s'
    \<and> same_cache (s\<lparr>pframes := (pframes s)(p \<mapsto> f\<lparr>pf_dirty := clean_result r (mmo_ops m) \<noteq> Inr ()\<rparr>)\<rparr>) s'"
proof -
  let ?r = "clean_result r (mmo_ops m)"
  obtain vs where vs: "areas_of s ob = Some vs" "\<forall>v\<in>set vs. area_ok s v"
    using ok ob(2) unfolding objects_ok_def by blast
  let ?f1 = "f\<lparr>pf_dirty := False\<rparr>"
  let ?s1 = "s\<lparr>pframes := (pframes s)(p \<mapsto> ?f1), hwlog := hwlog s @ [TLB_FLUSH (pf_addr f)]\<rparr>"
  obtain l where u: "pframe_remove_from_pts p ?s1 = Ret () (?s1\<lparr>hwlog := l\<rparr>)"
    using remove_from_pts_eq [of ?s1 p ?f1 ob vs] ob vs by simp
  let ?f2 = "?f1\<lparr>pf_busy := True\<rparr>"
  let ?s2 = "?s1\<lparr>hwlog := l, pframes := (pframes s)(p \<mapsto> ?f2)\<rparr>"
  have "objects_ok ?s2" using ok by (subst same_cache_objects_ok [of _ s]) simp_all
  then obtain s3 where s3: "mmo_cleanpage env ob p ?s2 = Ret ?r s3" "same_cache ?s2 s3"
    "\<forall>R. sched_wf R ?s2 \<longrightarrow> sched_wf R s3"
    using mmo_cleanpage_gives [OF env, of ?s2 p ?f2 ob m] ob by auto
  have sw2: "sched_wf R ?s2" using sw by simp
  let ?f3 = "?f2\<lparr>pf_dirty := ?r \<noteq> Inr ()\<rparr>"
  let ?s4 = "s3\<lparr>pframes := (pframes s3)(p \<mapsto> ?f3\<lparr>pf_busy := False\<rparr>)\<rparr>"
  have f2: "pframes s3 p = Some ?f2" using s3(2) by (simp add: same_cache_def)
  have "sched_wf R s3" using s3(3) sw2 by blast
  then have "sched_wf R ?s4" by simp
  then obtain th qs where b: "sched_broadcast_on (PFWAITQ p) ?s4 = Ret () (?s4\<lparr>threads := th, queues := qs\<rparr>)"
    "sched_wf R (?s4\<lparr>threads := th, queues := qs\<rparr>)"
    using sched_broadcast_frame [of R ?s4 "PFWAITQ p"] by auto
  have e: "?f3\<lparr>pf_busy := False\<rparr> = f\<lparr>pf_dirty := ?r \<noteq> Inr ()\<rparr>" using f(4) by (cases f) simp
  have "bindK (case ?r of Inl _ \<Rightarrow> pf_upd p (\<lambda>f. f\<lparr>pf_dirty := True\<rparr>) s3 | Inr _ \<Rightarrow> Ret () s3)
      (\<lambda>_ s. pf_upd p (\<lambda>f. f\<lparr>pf_busy := False\<rparr>) s) = Ret () ?s4"
    using f2 by (cases ?r) simp_all
  then have "pframe_clean env p s = Ret ?r (?s4\<lparr>threads := th, queues := qs\<rparr>)"
    using f ob u s3(1) f2 b(1) by (cases ?r) (simp_all add: pframe_clean_def hw_def)
  moreover have "same_cache (s\<lparr>pframes := (pframes s)(p \<mapsto> f\<lparr>pf_dirty := ?r \<noteq> Inr ()\<rparr>)\<rparr>) (?s4\<lparr>threads := th, queues := qs\<rparr>)"
    using s3(2) unfolding e by (simp add: same_cache_def)
  ultimately show ?thesis using b(2) by blast
qed

lemma pframe_clean_ok:
  assumes env: "cleanpage_gives (Inr ()) env" and ok: "objects_ok s" and ow: "objs_wf s" and sw: "sched_wf R s"
    and f: "pframes s p = Some f" "pf_dirty f" "pf_pincount f = 0" "\<not> pf_busy f"
  shows "\<exists>s'. pframe_clean env p s = Ret (Inr ()) s' \<and> sched_wf R s'
    \<and> same_cache (s\<lparr>pframes := (pframes s)(p \<mapsto> f\<lparr>pf_dirty := False\<rparr>)\<rparr>) s'"
proof -
  obtain ob m where "pf_obj f = Some ob" "mmobjs s ob = Some m" using frame_owner [OF ow f(1)] by blast
  from pframe_clean_gives [OF env ok sw f this] show ?thesis by (simp add: clean_result_def)
qed

text \<open>The number of dirty pages on the allocated list bounds the passes of \<open>pframe_clean_all\<close>.\<close>

definition ndirty :: "kstate \<Rightarrow> nat" where
  "ndirty s = length (filter (\<lambda>p. case pframes s p of Some f \<Rightarrow> pf_dirty f | None \<Rightarrow> False) (alloc_list s))"

definition quiet :: "kstate \<Rightarrow> bool" where
  "quiet s \<longleftrightarrow> (\<forall>p f. pframes s p = Some f \<longrightarrow> \<not> pf_busy f)"

lemma clean_all_iter_clean:
  assumes lw: "lists_wf s" and ow: "objs_wf s" and q: "quiet s" and sub: "set ps \<subseteq> set (alloc_list s)"
    and clean: "\<And>p f. p \<in> set ps \<Longrightarrow> pframes s p = Some f \<Longrightarrow> \<not> pf_dirty f"
  shows "clean_all_iter env again (ps @ rest) s = clean_all_iter env again rest s"
  using sub clean
proof (induction ps)
  case (Cons p ps)
  then obtain f where f: "pframes s p = Some f" "pf_pincount f = 0" using lw by (auto simp: lists_wf_def)
  have "\<not> pf_dirty f" "\<not> pf_busy f" using Cons.prems(2) f(1) q by (auto simp: quiet_def)
  moreover have "\<not> pframe_is_free f" using ow f(1) by (rule frame_not_free)
  ultimately have "clean_all_iter env again ((p # ps) @ rest) s = clean_all_iter env again (ps @ rest) s"
    using f by (simp add: pframe_is_pinned_def)
  also have "\<dots> = clean_all_iter env again rest s"
    using Cons.prems by (intro Cons.IH) (auto intro: Cons.prems(2))
  finally show ?case .
qed simp

lemma clean_all_iter_dirty:
  assumes lw: "lists_wf s" and ow: "objs_wf s" and q: "quiet s" and l: "alloc_list s = ps @ p # rest"
    and clean: "\<And>q f. q \<in> set ps \<Longrightarrow> pframes s q = Some f \<Longrightarrow> \<not> pf_dirty f"
    and f: "pframes s p = Some f" "pf_dirty f"
  shows "clean_all_iter env again (alloc_list s) s = bindK (pframe_clean env p s) (\<lambda>_ s. again s)"
proof -
  have "pf_pincount f = 0" using lists_wf_alloc [OF lw _ f(1)] l by simp
  moreover have "\<not> pframe_is_free f" using ow f(1) by (rule frame_not_free)
  moreover have "clean_all_iter env again (ps @ p # rest) s = clean_all_iter env again (p # rest) s"
    using l clean by (intro clean_all_iter_clean [OF lw ow q]) auto
  ultimately show ?thesis using f q l by (simp add: quiet_def pframe_is_pinned_def)
qed

lemma first_dirty:
  assumes "ndirty s \<noteq> 0"
  obtains ps p rest f where "alloc_list s = ps @ p # rest" "pframes s p = Some f" "pf_dirty f"
    "\<And>q g. q \<in> set ps \<Longrightarrow> pframes s q = Some g \<Longrightarrow> \<not> pf_dirty g"
proof -
  let ?P = "\<lambda>p. case pframes s p of Some f \<Rightarrow> pf_dirty f | None \<Rightarrow> False"
  have "\<exists>p\<in>set (alloc_list s). ?P p" using assms by (auto simp: ndirty_def filter_empty_conv)
  then obtain ps p rest where *: "alloc_list s = ps @ p # rest" "?P p" "\<forall>q\<in>set ps. \<not> ?P q"
    using split_list_first_prop [of "alloc_list s" ?P] by blast
  then obtain f where "pframes s p = Some f" "pf_dirty f" by (auto split: option.splits)
  moreover have "\<not> pf_dirty g" if "q \<in> set ps" "pframes s q = Some g" for q g using *(3) that by auto
  ultimately show thesis using *(1) by (rule that [rotated 1])
qed

lemma same_cache_wf:
  assumes "same_cache s s'"
  shows "pages_wf env s' = pages_wf env s" "objects_ok s' = objects_ok s" "quiet s' = quiet s" "ndirty s' = ndirty s"
proof -
  note eqs = assms [unfolded same_cache_def]
  show "pages_wf env s' = pages_wf env s" unfolding pages_wf_def using eqs
    by (simp add: lists_wf_cong [of s' s] hash_wf_cong [of s' s] objs_wf_cong [of s' s] addrs_wf_cong [of s' s])
  show "objects_ok s' = objects_ok s" using eqs by (intro same_cache_objects_ok) simp_all
  show "quiet s' = quiet s" "ndirty s' = ndirty s" using eqs by (simp_all add: quiet_def ndirty_def)
qed

lemma cleaned_frame:
  assumes wf: "pages_wf env s" and q: "quiet s" and f: "pframes s p = Some f" "pf_dirty f"
    and p: "p \<in> set (alloc_list s)"
  shows "pages_wf env (s\<lparr>pframes := (pframes s)(p \<mapsto> f\<lparr>pf_dirty := False\<rparr>)\<rparr>)"
    "quiet (s\<lparr>pframes := (pframes s)(p \<mapsto> f\<lparr>pf_dirty := False\<rparr>)\<rparr>)"
    "Suc (ndirty (s\<lparr>pframes := (pframes s)(p \<mapsto> f\<lparr>pf_dirty := False\<rparr>)\<rparr>)) = ndirty s"
proof -
  let ?s = "s\<lparr>pframes := (pframes s)(p \<mapsto> f\<lparr>pf_dirty := False\<rparr>)\<rparr>"
  let ?P = "\<lambda>p. case pframes s p of Some f \<Rightarrow> pf_dirty f | None \<Rightarrow> False"
  show "pages_wf env ?s" using wf f by (intro pages_wf_flags) auto
  show "quiet ?s" using q f by (auto simp: quiet_def)
  have d: "distinct (alloc_list s)" using pages_wfD(1) [OF wf] by (simp add: lists_wf_def)
  obtain xs ys where l: "alloc_list s = xs @ p # ys" using p by (meson split_list)
  have e: "filter (\<lambda>q. case pframes ?s q of Some f \<Rightarrow> pf_dirty f | None \<Rightarrow> False) zs = filter ?P zs"
    if "p \<notin> set zs" for zs using that by (intro filter_cong) auto
  show "Suc (ndirty ?s) = ndirty s"
    using d l e [of xs] e [of ys] f by (simp add: ndirty_def)
qed

lemma objects_ok_pframes [simp]: "objects_ok (s\<lparr>pframes := x\<rparr>) = objects_ok s"
  by (rule same_cache_objects_ok) simp_all

lemma pframe_clean_all_ok:
  assumes "cleanpage_gives (Inr ()) env" and "pages_wf env s" and "objects_ok s" and "sched_wf R s" and "quiet s"
    and "ndirty s = n"
  shows "\<exists>s'. pframe_clean_all (Suc n) env s = Ret () s' \<and> ndirty s' = 0 \<and> alloc_list s' = alloc_list s
    \<and> pages_wf env s' \<and> sched_wf R s'"
  using assms
proof (induction n arbitrary: s)
  case 0
  have "\<not> pf_dirty f" if "p \<in> set (alloc_list s)" "pframes s p = Some f" for p f
    using "0.prems"(6) that by (fastforce simp: ndirty_def filter_empty_conv)
  then have "clean_all_iter env (pframe_clean_all 0 env) (alloc_list s @ []) s
      = clean_all_iter env (pframe_clean_all 0 env) [] s"
    using pages_wfD(1,3) [OF "0.prems"(2)] "0.prems"(5) by (intro clean_all_iter_clean) auto
  with 0 show ?case by simp
next
  case (Suc n)
  note wf = pages_wfD [OF Suc.prems(2)]
  obtain ps p rest f where p: "alloc_list s = ps @ p # rest" "pframes s p = Some f" "pf_dirty f"
    "\<And>q g. q \<in> set ps \<Longrightarrow> pframes s q = Some g \<Longrightarrow> \<not> pf_dirty g"
    using first_dirty [of s] Suc.prems(6) by (metis nat.distinct(2))
  let ?s = "s\<lparr>pframes := (pframes s)(p \<mapsto> f\<lparr>pf_dirty := False\<rparr>)\<rparr>"
  have "pf_pincount f = 0" using lists_wf_alloc [OF wf(1) _ p(2)] p(1) by simp
  moreover have "\<not> pf_busy f" using Suc.prems(5) p(2) by (auto simp: quiet_def)
  ultimately obtain s1 where s1: "pframe_clean env p s = Ret (Inr ()) s1" "sched_wf R s1" "same_cache ?s s1"
    using pframe_clean_ok [OF Suc.prems(1,3) wf(3) Suc.prems(4) p(2,3)] by blast
  note c = cleaned_frame [OF Suc.prems(2,5) p(2,3)] and sc = same_cache_wf [OF s1(3)]
  have "\<exists>s'. pframe_clean_all (Suc n) env s1 = Ret () s' \<and> ndirty s' = 0 \<and> alloc_list s' = alloc_list s1
      \<and> pages_wf env s' \<and> sched_wf R s'"
    using c p(1) Suc.prems(3,6) s1(2) by (intro Suc.IH [OF Suc.prems(1)]) (simp_all add: sc)
  then obtain s' where s': "pframe_clean_all (Suc n) env s1 = Ret () s'" "ndirty s' = 0"
    "alloc_list s' = alloc_list s1" "pages_wf env s'" "sched_wf R s'" by blast
  have "pframe_clean_all (Suc (Suc n)) env s = pframe_clean_all (Suc n) env s1"
    using clean_all_iter_dirty [OF wf(1,3) Suc.prems(5) p(1,4,2,3), where env = env and again = "pframe_clean_all (Suc n) env"] s1(1)
    by (simp del: pframe_clean_all.simps add: pframe_clean_all.simps(2) [of "Suc n"])
  then show ?case using s' s1(3) by (auto simp: same_cache_def)
qed

text \<open>Whatever happens on the way: when the loop is through, no page on the allocated list is dirty or busy.\<close>

definition all_clean :: "kstate \<Rightarrow> bool" where
  "all_clean s \<longleftrightarrow> (\<forall>p\<in>set (alloc_list s). \<exists>f. pframes s p = Some f \<and> \<not> pf_dirty f \<and> \<not> pf_busy f)"

lemma clean_all_iter_all_clean:
  assumes "clean_all_iter env again ps s = Ret () s'" and "\<And>t t'. again t = Ret () t' \<Longrightarrow> all_clean t'"
    and "\<forall>p\<in>set (alloc_list s) - set ps. \<exists>f. pframes s p = Some f \<and> \<not> pf_dirty f \<and> \<not> pf_busy f"
  shows "all_clean s'"
  using assms(1,3)
proof (induction ps)
  case Nil
  then show ?case by (simp add: all_clean_def)
next
  case (Cons p ps)
  then show ?case by (auto simp: kres_simps split: if_splits intro: assms(2))
qed

lemma pframe_clean_all_clean: "pframe_clean_all n env s = Ret () s' \<Longrightarrow> all_clean s'"
  by (induction n arbitrary: s s') (auto intro: clean_all_iter_all_clean)

text \<open>A file page that cannot be written stays dirty, so that the loop never gets through.\<close>

definition dirty_file_page :: "kstate \<Rightarrow> bool" where
  "dirty_file_page s \<longleftrightarrow> (\<exists>p\<in>set (alloc_list s). \<exists>f ob m. pframes s p = Some f \<and> pf_dirty f \<and> pf_obj f = Some ob
     \<and> mmobjs s ob = Some m \<and> mmo_ops m = vnode_mmobj_ops)"

lemma dirty_file_page_cong:
  "alloc_list s' = alloc_list s \<Longrightarrow> pframes s' = pframes s \<Longrightarrow> mmobjs s' = mmobjs s \<Longrightarrow> dirty_file_page s' = dirty_file_page s"
  by (simp add: dirty_file_page_def)

lemma dirty_file_page_kept:
  assumes "dirty_file_page s" and "pframes s p = Some f" "pf_dirty f" "pf_obj f = Some ob" "mmobjs s ob = Some m"
    and b: "mmo_ops m = vnode_mmobj_ops \<longrightarrow> b"
  shows "dirty_file_page (s\<lparr>pframes := (pframes s)(p \<mapsto> f\<lparr>pf_dirty := b\<rparr>)\<rparr>)"
proof -
  obtain q g ob' m' where q: "q \<in> set (alloc_list s)" "pframes s q = Some g" "pf_dirty g" "pf_obj g = Some ob'" "mmobjs s ob' = Some m'"
    "mmo_ops m' = vnode_mmobj_ops" using assms(1) unfolding dirty_file_page_def by blast
  then show ?thesis using assms(2-5) b unfolding dirty_file_page_def by (intro bexI [of _ q]) auto
qed

lemma pframe_clean_all_never:
  assumes "cleanpage_gives (Inl e) env" and "pages_wf env s" and "objects_ok s" and "sched_wf R s" and "quiet s" and "dirty_file_page s"
  shows "pframe_clean_all n env s = Stop OUT_OF_FUEL"
  using assms
proof (induction n arbitrary: s)
  case (Suc n)
  note wf = pages_wfD [OF Suc.prems(2)]
  have "ndirty s \<noteq> 0" using Suc.prems(6) by (auto simp: dirty_file_page_def ndirty_def filter_empty_conv split: option.splits)
  then obtain ps p rest f where p: "alloc_list s = ps @ p # rest" "pframes s p = Some f" "pf_dirty f"
    "\<And>q g. q \<in> set ps \<Longrightarrow> pframes s q = Some g \<Longrightarrow> \<not> pf_dirty g"
    using first_dirty [of s] by metis
  obtain ob m where ob: "pf_obj f = Some ob" "mmobjs s ob = Some m" using frame_owner [OF wf(3) p(2)] by blast
  let ?b = "clean_result (Inl e) (mmo_ops m) \<noteq> Inr ()"
  let ?s = "s\<lparr>pframes := (pframes s)(p \<mapsto> f\<lparr>pf_dirty := ?b\<rparr>)\<rparr>"
  have "pf_pincount f = 0" using lists_wf_alloc [OF wf(1) _ p(2)] p(1) by simp
  moreover have nb: "\<not> pf_busy f" using Suc.prems(5) p(2) by (auto simp: quiet_def)
  ultimately obtain r s1 where s1: "pframe_clean env p s = Ret r s1" "sched_wf R s1" "same_cache ?s s1"
    using pframe_clean_gives [OF Suc.prems(1,3,4) p(2,3) _ _ ob] by blast
  note sc = same_cache_wf [OF s1(3)]
  have "pages_wf env ?s" using Suc.prems(2) p(2) by (intro pages_wf_flags) auto
  moreover have "quiet ?s" using Suc.prems(5) p(2) by (auto simp: quiet_def)
  moreover have "dirty_file_page ?s" using dirty_file_page_kept [OF Suc.prems(6) p(2,3) ob] by (simp add: clean_result_def)
  then have "dirty_file_page s1" using s1(3) by (subst dirty_file_page_cong [of _ ?s]) (simp_all add: same_cache_def)
  ultimately have "pframe_clean_all n env s1 = Stop OUT_OF_FUEL"
    using Suc.prems(3) s1(2) by (intro Suc.IH [OF Suc.prems(1)]) (simp_all add: sc)
  moreover have "pframe_clean_all (Suc n) env s = pframe_clean_all n env s1"
    using clean_all_iter_dirty [OF wf(1,3) Suc.prems(5) p(1,4,2,3), where env = env and again = "pframe_clean_all n env"] s1(1)
    by (simp only: pframe_clean_all.simps(2) bindK.simps)
  ultimately show ?case by simp
qed simp

section \<open>Examples\<close>

text \<open>
  An anonymous object at address 1; with one page resident in frame 1, which is marked dirty.
\<close>

definition example_anon :: mmobj where
  "example_anon = \<lparr>mmo_ops = anon_mmobj_ops, mmo_refcount = 1, mmo_nrespages = 0, mmo_respages = [],
     mmo_un_f = mmo_vmas [], mmo_shadowed = None\<rparr>"

definition example_s0 :: kstate where "example_s0 = kstate0 [1 \<mapsto> example_anon]"

definition example_s1 :: kstate where
  "example_s1 = with_frame example_env 1 7 1 0x1000 example_anon example_s0"

definition example_s2 :: kstate where
  "example_s2 = example_s1\<lparr>pframes := (pframes example_s1)(1 \<mapsto> (fresh_frame 1 7 0x1000)\<lparr>pf_dirty := True\<rparr>)\<rparr>"

lemma pages_wf_kstate0:
  assumes "\<And>ob m. h ob = Some m \<Longrightarrow> mmo_respages m = [] \<and> mmo_nrespages m = 0 \<and> 0 \<le> mmo_refcount m"
  shows "pages_wf env (kstate0 h)"
  using assms by (auto simp: pages_wf_def lists_wf_def hash_wf_def objs_wf_def obj_wf_def addrs_wf_def
      holds_page_def kstate0_def)

lemma example_s0_wf: "pages_wf example_env example_s0"
  unfolding example_s0_def by (rule pages_wf_kstate0) (auto simp: example_anon_def split: if_splits)

lemma example_s1_wf: "pages_wf example_env example_s1"
  unfolding example_s1_def
  by (rule pages_wf_with_frame [OF example_s0_wf])
    (auto simp: example_s0_def kstate0_def holds_page_def PAGE_ALIGNED_def PAGE_OFFSET_def)

lemma example_s1_frame: "pframes example_s1 1 = Some (fresh_frame 1 7 0x1000)"
  by (simp add: example_s1_def)

lemma example_s2_wf: "pages_wf example_env example_s2"
  unfolding example_s2_def
  by (rule pages_wf_flags [OF example_s1_wf example_s1_frame]) simp_all

section \<open>Properties\<close>

text \<open>
  Looking up a page never blocks and finds the frame that holds it exactly when the page is
  resident. It changes nothing but the order of the allocated list, where an unpinned page that is
  found becomes the most recently requested one.
\<close>

theorem pframe_get_resident_correct:
  assumes wf: "pages_wf env s"
  shows "\<exists>r s'. pframe_get_resident env ob n s = Ret r s' \<and> pages_wf env s'
    \<and> (\<forall>p. r = Some p \<longleftrightarrow> holds_page s p ob n)
    \<and> (\<forall>p f. r = Some p \<and> pframes s p = Some f \<and> \<not> pframe_is_pinned f \<longrightarrow>
         alloc_list s' = remove1 p (alloc_list s) @ [p])
    \<and> s' = s\<lparr>alloc_list := alloc_list s'\<rparr> \<and> set (alloc_list s') = set (alloc_list s)"
proof (cases "\<exists>p. holds_page s p ob n")
  case True
  then obtain p where p: "holds_page s p ob n" by blast
  have t: "touched p s = s\<lparr>alloc_list := alloc_list (touched p s)\<rparr>"
    by (auto simp: touched_def split: option.splits)
  have u: "Some p = Some q \<longleftrightarrow> holds_page s q ob n" for q
    using p hash_wf_unique [OF pages_wfD(2) [OF wf] p, of q] by blast
  show ?thesis
  proof (intro exI conjI)
    show "pframe_get_resident env ob n s = Ret (Some p) (touched p s)" by (rule get_resident_some [OF wf p])
    show "\<forall>q. Some p = Some q \<longleftrightarrow> holds_page s q ob n" using u by blast
    show "\<forall>q f. Some p = Some q \<and> pframes s q = Some f \<and> \<not> pframe_is_pinned f \<longrightarrow>
        alloc_list (touched p s) = remove1 q (alloc_list s) @ [q]" by (auto simp: touched_def)
  qed (use t wf pages_wfD(1) [OF wf] in simp_all)
next
  case False
  then show ?thesis using get_resident_none [OF wf, of ob n] wf by auto
qed

theorem pframe_get_resident_witness:
  "\<exists>r s'. pframe_get_resident example_env 1 7 example_s1 = Ret r s' \<and> pages_wf example_env s'
    \<and> (\<forall>p. r = Some p \<longleftrightarrow> holds_page example_s1 p 1 7)
    \<and> s' = example_s1\<lparr>alloc_list := alloc_list s'\<rparr> \<and> set (alloc_list s') = set (alloc_list example_s1)"
  using pframe_get_resident_correct [OF example_s1_wf, of 1 7] by blast

text \<open>Pinning and unpinning a page repeatedly.\<close>

primrec pin_times :: "nat \<Rightarrow> ptr \<Rightarrow> unit kop" where
  "pin_times 0 p s = Ret () s"
| "pin_times (Suc n) p s = bindK (pframe_pin p s) (\<lambda>_ s. pin_times n p s)"

primrec unpin_times :: "nat \<Rightarrow> ptr \<Rightarrow> unit kop" where
  "unpin_times 0 p s = Ret () s"
| "unpin_times (Suc n) p s = bindK (pframe_unpin p s) (\<lambda>_ s. unpin_times n p s)"

lemma pin_times_ok:
  assumes "pages_wf env s" and "pframes s p = Some f"
  shows "\<exists>s'. pin_times n p s = Ret () s' \<and> pages_wf env s'
    \<and> pframes s' = (pframes s)(p \<mapsto> f\<lparr>pf_pincount := pf_pincount f + int n\<rparr>)"
  using assms
proof (induction n arbitrary: s f)
  case (Suc n)
  note eq = pframe_pin_eq [OF Suc.prems] and wf = pages_wf_pinned_once [OF Suc.prems]
  have "pframes (pinned_once p f s) = (pframes s)(p \<mapsto> f\<lparr>pf_pincount := pf_pincount f + 1\<rparr>)"
    by (simp add: pinned_once_def)
  with Suc.IH [OF wf, of "f\<lparr>pf_pincount := pf_pincount f + 1\<rparr>"] eq show ?case
    by (fastforce simp: algebra_simps)
qed (simp add: fun_upd_idem)

lemma unpin_times_ok:
  assumes "pages_wf env s" and "pframes s p = Some f" and "int n \<le> pf_pincount f"
  shows "\<exists>s'. unpin_times n p s = Ret () s' \<and> pages_wf env s'
    \<and> pframes s' = (pframes s)(p \<mapsto> f\<lparr>pf_pincount := pf_pincount f - int n\<rparr>)"
  using assms
proof (induction n arbitrary: s f)
  case (Suc n)
  then have pin: "pframe_is_pinned f" by (simp add: pframe_is_pinned_def)
  note eq = pframe_unpin_eq [OF Suc.prems(1,2) pin] and wf = pages_wf_unpinned_once [OF Suc.prems(1,2) pin]
  have "pframes (unpinned_once p f s) = (pframes s)(p \<mapsto> f\<lparr>pf_pincount := pf_pincount f - 1\<rparr>)"
    by (simp add: unpinned_once_def)
  with Suc.IH [OF wf, of "f\<lparr>pf_pincount := pf_pincount f - 1\<rparr>"] eq Suc.prems(3) show ?case
    by (fastforce simp: algebra_simps)
qed (simp add: fun_upd_idem)

text \<open>
  C28: pins nest. After \<open>n\<close> pins and \<open>k\<close> unpins of a page, with \<open>k\<close> at most the number of pins it
  then has, the page is on the pinned list exactly while a pin is left and on the allocated list
  otherwise; no other frame changes, and the lists and counters of the page cache stay consistent.
\<close>

theorem pframe_pins_nest:
  assumes wf: "pages_wf env s" and f: "pframes s p = Some f" and k: "int k \<le> pf_pincount f + int n"
  shows "\<exists>s'. bindK (pin_times n p s) (\<lambda>_ s. unpin_times k p s) = Ret () s' \<and> pages_wf env s'
    \<and> pframes s' = (pframes s)(p \<mapsto> f\<lparr>pf_pincount := pf_pincount f + int n - int k\<rparr>)
    \<and> (p \<in> set (pinned_list s') \<longleftrightarrow> int k < pf_pincount f + int n)
    \<and> (p \<in> set (alloc_list s') \<longleftrightarrow> int k = pf_pincount f + int n)"
proof -
  let ?f1 = "f\<lparr>pf_pincount := pf_pincount f + int n\<rparr>"
  obtain s1 where s1: "pin_times n p s = Ret () s1" "pages_wf env s1" "pframes s1 = (pframes s)(p \<mapsto> ?f1)"
    using pin_times_ok [OF wf f] by blast
  then have f1: "pframes s1 p = Some ?f1" by simp
  obtain s2 where s2: "unpin_times k p s1 = Ret () s2" "pages_wf env s2"
    "pframes s2 = (pframes s1)(p \<mapsto> ?f1\<lparr>pf_pincount := pf_pincount ?f1 - int k\<rparr>)"
    using unpin_times_ok [OF s1(2) f1, of k] k by auto
  have f2: "pframes s2 p = Some (f\<lparr>pf_pincount := pf_pincount f + int n - int k\<rparr>)" using s2(3) by simp
  show ?thesis using s1 s2 lists_wf_list [OF pages_wfD(1) [OF s2(2)] f2] k
    by (auto simp: pframe_is_pinned_def)
qed

theorem pframe_pins_nest_witness:
  "\<exists>s'. bindK (pin_times 3 1 example_s1) (\<lambda>_ s. unpin_times 2 1 s) = Ret () s' \<and> pages_wf example_env s'
    \<and> pframes s' = (pframes example_s1)(1 \<mapsto> (fresh_frame 1 7 0x1000)\<lparr>pf_pincount := 0 + int 3 - int 2\<rparr>)
    \<and> (1 \<in> set (pinned_list s') \<longleftrightarrow> int 2 < 0 + int 3) \<and> (1 \<in> set (alloc_list s') \<longleftrightarrow> int 2 = 0 + int 3)"
  using pframe_pins_nest [OF example_s1_wf example_s1_frame, of 2 3] by simp

text \<open>
  C23: what \<open>pframe_clean_all\<close> does. If it returns, whatever the file system and other threads did meanwhile, no page on the allocated
  list is dirty or busy. It is sure to return, after at most one pass per dirty page and a last one, from a consistent state in
  which no page is busy if every call of \<open>cleanpage\<close> in the file system succeeds without blocking and leaves the page cache
  alone; then the list is the same as before. If those calls fail instead, it never returns once a page of a
  file on the list is dirty: the result of \<open>pframe_clean\<close> is not looked at.
\<close>

theorem pframe_clean_all_correct:
  "(pframe_clean_all n env s = Ret () s' \<longrightarrow> all_clean s')
   \<and> (pages_wf env s \<and> objects_ok s \<and> sched_wf R s \<and> quiet s \<longrightarrow>
        (cleanpage_gives (Inr ()) env \<longrightarrow>
           (\<exists>s'. pframe_clean_all (Suc (ndirty s)) env s = Ret () s' \<and> all_clean s' \<and> alloc_list s' = alloc_list s \<and> pages_wf env s'))
        \<and> (cleanpage_gives (Inl e) env \<and> dirty_file_page s \<longrightarrow> (\<forall>n. pframe_clean_all n env s = Stop OUT_OF_FUEL)))"
proof (intro conjI impI allI)
  assume "pages_wf env s \<and> objects_ok s \<and> sched_wf R s \<and> quiet s" and "cleanpage_gives (Inr ()) env"
  then obtain s' where "pframe_clean_all (Suc (ndirty s)) env s = Ret () s'" "alloc_list s' = alloc_list s" "pages_wf env s'"
    using pframe_clean_all_ok [of env s R] by blast
  then show "\<exists>s'. pframe_clean_all (Suc (ndirty s)) env s = Ret () s' \<and> all_clean s' \<and> alloc_list s' = alloc_list s \<and> pages_wf env s'"
    using pframe_clean_all_clean by blast
qed (use pframe_clean_all_clean pframe_clean_all_never in blast)+

text \<open>One dirty page of an anonymous object; and one of a file in a file system that fails.\<close>

definition failing_env :: kenv where
  "failing_env = example_env\<lparr>fs_cleanpage := (\<lambda>_ _ _ s. Ret (Inl EFAULT) s)\<rparr>"

definition example_fobj :: mmobj where "example_fobj = example_anon\<lparr>mmo_ops := vnode_mmobj_ops\<rparr>"

definition example_file :: kstate where
  "example_file = ((with_frame failing_env 1 7 1 0x1000 example_fobj (kstate0 [1 \<mapsto> example_fobj]))
     \<lparr>pframes := [1 \<mapsto> (fresh_frame 1 7 0x1000)\<lparr>pf_dirty := True\<rparr>]\<rparr>)
     \<lparr>vnodes := [1 \<mapsto> \<lparr>vn_ops = fs_vops, vn_fs = 0, vn_vno = 0, vn_mode = S_IFREG, vn_perm = 0, vn_len = 0, vn_devid = 0,
        vn_busy = False, vn_cdev = None, vn_bdev = None\<rparr>]\<rparr>"

lemma pages_wf_vnodes [simp]: "pages_wf env (s\<lparr>vnodes := v\<rparr>) = pages_wf env s"
  unfolding pages_wf_def
  by (simp add: lists_wf_cong [of "s\<lparr>vnodes := v\<rparr>" s] hash_wf_cong [of "s\<lparr>vnodes := v\<rparr>" s] objs_wf_cong [of "s\<lparr>vnodes := v\<rparr>" s]
      addrs_wf_cong [of "s\<lparr>vnodes := v\<rparr>" s])

lemma example_file_wf: "pages_wf failing_env example_file"
proof -
  let ?s0 = "kstate0 [1 \<mapsto> example_fobj]" and ?f = "fresh_frame 1 7 0x1000"
  let ?s1 = "with_frame failing_env 1 7 1 0x1000 example_fobj ?s0"
  have "pages_wf failing_env ?s0"
    by (rule pages_wf_kstate0) (auto simp: example_fobj_def example_anon_def split: if_splits)
  then have "pages_wf failing_env ?s1"
    by (rule pages_wf_with_frame) (auto simp: kstate0_def holds_page_def PAGE_ALIGNED_def PAGE_OFFSET_def)
  then have "pages_wf failing_env (?s1\<lparr>pframes := (pframes ?s1)(1 \<mapsto> ?f\<lparr>pf_dirty := True\<rparr>)\<rparr>)"
    by (rule pages_wf_flags [where f = ?f]) (simp_all add: with_frame_def fresh_frame_def)
  moreover have "pframes ?s0 = Map.empty" by (simp add: kstate0_def)
  ultimately show ?thesis unfolding example_file_def pages_wf_vnodes by simp
qed

lemmas example_s2_simps = example_s2_def example_s1_def example_s0_def kstate0_def with_frame_def example_anon_def fresh_frame_def

theorem pframe_clean_all_witness:
  "(\<exists>s'. pframe_clean_all (Suc (ndirty example_s2)) example_env example_s2 = Ret () s' \<and> all_clean s')
   \<and> pframe_clean_all 7 failing_env example_file = Stop OUT_OF_FUEL"
proof
  have "cleanpage_gives (Inr ()) example_env" by (simp add: cleanpage_gives_def example_env_def same_cache_def)
  moreover have "objects_ok example_s2" by (auto simp: objects_ok_def areas_of_def example_s2_simps)
  moreover have "sched_wf {1} example_s2" by (simp add: example_s2_simps sched_wf_def queues_wf_def link_wf_def)
  moreover have "quiet example_s2" by (simp add: quiet_def example_s2_simps)
  ultimately show "\<exists>s'. pframe_clean_all (Suc (ndirty example_s2)) example_env example_s2 = Ret () s' \<and> all_clean s'"
    using example_s2_wf pframe_clean_all_correct [of _ example_env example_s2 _ "{1}"] by blast
next
  have "cleanpage_gives (Inl EFAULT) failing_env" by (simp add: cleanpage_gives_def failing_env_def same_cache_def)
  moreover have "objects_ok example_file" by (auto simp: objects_ok_def areas_of_def example_file_def example_fobj_def example_s2_simps)
  moreover have "sched_wf {1} example_file" by (simp add: example_file_def example_fobj_def example_s2_simps sched_wf_def queues_wf_def link_wf_def)
  moreover have "quiet example_file" by (simp add: quiet_def example_file_def example_fobj_def example_s2_simps)
  moreover have "dirty_file_page example_file" by (simp add: dirty_file_page_def example_file_def example_fobj_def example_s2_simps)
  ultimately show "pframe_clean_all 7 failing_env example_file = Stop OUT_OF_FUEL"
    using example_file_wf pframe_clean_all_correct [of _ failing_env example_file _ "{1}" EFAULT] by blast
qed

end
