(* ===== verification/Pager.thy ===== *)
theory Pager
  imports Pframe
begin

text \<open>
  The entry points of memory objects that reach other objects and pages: \<open>put\<close>, \<open>lookuppage\<close> and
  \<open>fillpage\<close> of anonymous objects (\<open>src/kernel/vm/anon.c\<close>), shadow objects
  (\<open>src/kernel/vm/shadow.c\<close>) and vnodes (\<open>src/kernel/fs/vnode.c\<close>), and the calls through \<open>mmo_ops\<close>
  that tie them together. The calls recur (freeing a page puts its object, putting the last
  reference frees its pages; filling a shadow page looks up the shadowed page), so each tied
  function takes fuel; the lemmas at the end of each section say how much is enough.
\<close>

section \<open>Putting a reference\<close>

primrec unpin_loop :: "nat \<Rightarrow> ptr \<Rightarrow> unit kop" where
  "unpin_loop 0 pf s =
     bindK (deref (pframes s) pf s) (\<lambda>f s. if pframe_is_pinned f then Stop OUT_OF_FUEL else Ret () s)"
| "unpin_loop (Suc n) pf s =
     bindK (deref (pframes s) pf s) (\<lambda>f s.
       if pframe_is_pinned f then bindK (pframe_unpin pf s) (\<lambda>_ s. unpin_loop n pf s) else Ret () s)"

text \<open>
  The loop over the resident pages; the result says whether \<open>put\<close> returned from inside it. The
  loop runs at most once per page, and a page is unpinned once per pin.
\<close>

primrec put_pages :: "nat \<Rightarrow> (ptr \<Rightarrow> unit kop) \<Rightarrow> int \<Rightarrow> ptr \<Rightarrow> bool kop" where
  "put_pages 0 put refcount ob s =
     bindK (deref (mmobjs s) ob s) (\<lambda>m s. if mmo_respages m \<noteq> [] then Stop OUT_OF_FUEL else Ret False s)"
| "put_pages (Suc n) put refcount ob s =
     bindK (deref (mmobjs s) ob s) (\<lambda>m s.
       if mmo_respages m = [] then Ret False s
       else let onePF = last (mmo_respages m) in
         bindK (deref (pframes s) onePF s) (\<lambda>f s.
         bindK (unpin_loop (nat (pf_pincount f)) onePF s) (\<lambda>_ s.
         bindK (pframe_free put onePF s) (\<lambda>_ s.
           if refcount \<noteq> 0 then Ret True s else put_pages n put refcount ob s))))"

text \<open>\<open>anon_put\<close> and \<open>shadow_put\<close> have the same body for their kind of object.\<close>

definition object_put :: "mmobj_ops \<Rightarrow> (ptr \<Rightarrow> unit kop) \<Rightarrow> ptr \<Rightarrow> unit kop" where
  "object_put ops put ob s =
     bindK (deref (mmobjs s) ob s) (\<lambda>m s.
     bindK (kassert (0 < mmo_refcount m \<and> mmo_ops m = ops) s) (\<lambda>_ s.
     bindK (mmo_upd ob (\<lambda>m. m\<lparr>mmo_refcount := mmo_refcount m - 1\<rparr>) s) (\<lambda>_ s.
     bindK (deref (mmobjs s) ob s) (\<lambda>m s.
       let refcount = mmo_refcount m; nrespages = mmo_nrespages m in
       if mmo_refcount m = mmo_nrespages m
       then bindK (put_pages (length (mmo_respages m)) put refcount ob s) (\<lambda>returned s.
              if returned then Ret () s
              else if refcount = 0 \<and> nrespages = 0
              then bindK (deref (mmobjs s) ob s) (\<lambda>m s.
                   bindK (case mmo_shadowed m of Some sh \<Rightarrow> put sh s | None \<Rightarrow> Ret () s) (\<lambda>_ s.
                     Ret () (s\<lparr>mmobjs := (mmobjs s)(ob := None)\<rparr>)))
              else Ret () s)
       else Ret () s))))"

definition anon_put :: "(ptr \<Rightarrow> unit kop) \<Rightarrow> ptr \<Rightarrow> unit kop" where
  "anon_put = object_put anon_mmobj_ops"

definition shadow_put :: "(ptr \<Rightarrow> unit kop) \<Rightarrow> ptr \<Rightarrow> unit kop" where
  "shadow_put = object_put shadow_mmobj_ops"

primrec wait_busy :: "nat \<Rightarrow> kenv \<Rightarrow> ptr \<Rightarrow> unit kop" where
  "wait_busy 0 env vp s =
     bindK (deref (pframes s) vp s) (\<lambda>f s. if pf_busy f then Stop OUT_OF_FUEL else Ret () s)"
| "wait_busy (Suc n) env vp s =
     bindK (deref (pframes s) vp s) (\<lambda>f s.
       if pf_busy f then bindK (sched_sleep_on (senv env) (PFWAITQ vp) s) (\<lambda>_ s. wait_busy n env vp s)
       else Ret () s)"

primrec vput_pages :: "kenv \<Rightarrow> (ptr \<Rightarrow> unit kop) \<Rightarrow> ptr list \<Rightarrow> unit kop" where
  "vput_pages env put [] s = Ret () s"
| "vput_pages env put (vp # rest) s =
     bindK (wait_busy (chain_fuel env) env vp s) (\<lambda>_ s.
     bindK (pframe_free put vp s) (\<lambda>_ s. vput_pages env put rest s))"

definition vput :: "kenv \<Rightarrow> (ptr \<Rightarrow> unit kop) \<Rightarrow> ptr \<Rightarrow> unit kop" where
  "vput env put vn s =
     bindK (deref (mmobjs s) vn s) (\<lambda>m s.
     bindK (deref (vnodes s) vn s) (\<lambda>v s.
     bindK (kassert (0 \<le> mmo_nrespages m) s) (\<lambda>_ s.
     bindK (kassert (mmo_nrespages m < mmo_refcount m) s) (\<lambda>_ s.
     bindK (kassert (\<not> vn_busy v) s) (\<lambda>_ s.
     bindK (if mmo_nrespages m = mmo_refcount m - 1
            then bindK (fs_query_vnode env vn s) (\<lambda>linked s.
                 if linked then Ret () s
                 else bindK (deref (mmobjs s) vn s) (\<lambda>m s.
                      bindK (vput_pages env put (mmo_respages m) s) (\<lambda>_ s.
                      bindK (deref (mmobjs s) vn s) (\<lambda>m s.
                      bindK (kassert (0 = mmo_nrespages m) s) (\<lambda>_ s.
                        kassert (1 = mmo_refcount m) s)))))
            else Ret () s) (\<lambda>_ s.
     bindK (mmo_upd vn (\<lambda>m. m\<lparr>mmo_refcount := mmo_refcount m - 1\<rparr>) s) (\<lambda>_ s.
     bindK (deref (mmobjs s) vn s) (\<lambda>m s.
       if 0 < mmo_refcount m then Ret () s
       else
         bindK (kassert (0 = mmo_refcount m) s) (\<lambda>_ s.
         bindK (kassert (0 = mmo_nrespages m) s) (\<lambda>_ s.
         bindK (deref (vnodes s) vn s) (\<lambda>v s.
         bindK (fs_delete_vnode env vn (s\<lparr>vnodes := (vnodes s)(vn \<mapsto> v\<lparr>vn_busy := True\<rparr>)\<rparr>)) (\<lambda>_ s.
         bindK (sched_broadcast_on (VNWAITQ vn) s) (\<lambda>_ s.
           Ret () (s\<lparr>vnode_inuse_list := remove1 vn (vnode_inuse_list s),
                     vnodes := (vnodes s)(vn := None), mmobjs := (mmobjs s)(vn := None)\<rparr>))))))))))))))"

definition vo_vput :: "kenv \<Rightarrow> (ptr \<Rightarrow> unit kop) \<Rightarrow> ptr \<Rightarrow> unit kop" where
  "vo_vput env put ob = vput env put ob"

primrec mmo_put :: "nat \<Rightarrow> kenv \<Rightarrow> ptr \<Rightarrow> unit kop" where
  "mmo_put 0 env ob s = Stop OUT_OF_FUEL"
| "mmo_put (Suc n) env ob s =
     bindK (deref (mmobjs s) ob s) (\<lambda>m s.
       case mmo_ops m of
         anon_mmobj_ops \<Rightarrow> anon_put (mmo_put n env) ob s
       | shadow_mmobj_ops \<Rightarrow> shadow_put (mmo_put n env) ob s
       | vnode_mmobj_ops \<Rightarrow> vo_vput env (mmo_put n env) ob s)"

section \<open>Looking up and filling a page\<close>

definition anon_lookuppage ::
  "(ptr \<Rightarrow> u32 \<Rightarrow> (errno + ptr) kop) \<Rightarrow> ptr \<Rightarrow> u32 \<Rightarrow> bool \<Rightarrow> (errno + ptr) kop" where
  "anon_lookuppage get ob pagenum forwrite = get ob pagenum"

definition vlookuppage ::
  "(ptr \<Rightarrow> u32 \<Rightarrow> (errno + ptr) kop) \<Rightarrow> ptr \<Rightarrow> u32 \<Rightarrow> bool \<Rightarrow> (errno + ptr) kop" where
  "vlookuppage get ob pagenum forwrite s =
     bindK (deref (vnodes s) ob s) (\<lambda>v s.
       if vn_len v \<le> pagenum * PAGE_SIZE then Ret (Inl EINVAL) s else get ob pagenum s)"

text \<open>The walk down the chain of shadow objects to the first that has the page resident.\<close>

primrec shadow_scan :: "nat \<Rightarrow> kenv \<Rightarrow> ptr option \<Rightarrow> u32 \<Rightarrow> ptr option kop" where
  "shadow_scan 0 env oneMMObj pagenum s = (if oneMMObj = None then Ret None s else Stop OUT_OF_FUEL)"
| "shadow_scan (Suc n) env oneMMObj pagenum s =
     (case oneMMObj of
        None \<Rightarrow> Ret None s
      | Some ob \<Rightarrow>
          bindK (pframe_get_resident env ob pagenum s) (\<lambda>pf s.
            case pf of
              Some p \<Rightarrow>
                bindK (deref (pframes s) p s) (\<lambda>f s.
                bindK (if pf_busy f then sched_sleep_on (senv env) (PFWAITQ p) s else Ret () s) (\<lambda>_ s.
                  Ret (Some p) s))
            | None \<Rightarrow>
                bindK (deref (mmobjs s) ob s) (\<lambda>m s. shadow_scan n env (mmo_shadowed m) pagenum s)))"

definition shadow_lookuppage ::
  "kenv \<Rightarrow> (ptr \<Rightarrow> u32 \<Rightarrow> (errno + ptr) kop) \<Rightarrow> (ptr \<Rightarrow> u32 \<Rightarrow> bool \<Rightarrow> (errno + ptr) kop)
     \<Rightarrow> ptr \<Rightarrow> u32 \<Rightarrow> bool \<Rightarrow> (errno + ptr) kop" where
  "shadow_lookuppage env get lookup ob pagenum forwrite s =
     (if \<not> forwrite
      then bindK (shadow_scan (chain_fuel env) env (Some ob) pagenum s) (\<lambda>pf s.
           case pf of
             Some p \<Rightarrow> Ret (Inr p) s
           | None \<Rightarrow>
               bindK (deref (mmobjs s) ob s) (\<lambda>m s.
                 case mmo_un_f m of
                   mmo_bottom_obj (Some b) \<Rightarrow>
                     bindK (lookup b pagenum forwrite s) (\<lambda>r s.
                       case r of Inl _ \<Rightarrow> Ret (Inl EMINUS1) s | Inr p \<Rightarrow> Ret (Inr p) s)
                 | mmo_bottom_obj None \<Rightarrow> Stop BAD_POINTER
                 | mmo_vmas _ \<Rightarrow> Stop BAD_POINTER
                 | mmo_vmas_relinked _ \<Rightarrow> Stop BAD_POINTER
                 | mmo_vmas_looped _ \<Rightarrow> Stop BAD_POINTER))
      else bindK (get ob pagenum s) (\<lambda>r s.
           case r of Inl _ \<Rightarrow> Ret (Inl EMINUS1) s | Inr p \<Rightarrow> Ret (Inr p) s))"

definition anon_fillpage :: "ptr \<Rightarrow> ptr \<Rightarrow> (errno + unit) kop" where
  "anon_fillpage ob pf s =
     bindK (deref (pframes s) pf s) (\<lambda>f s.
     bindK (kassert (pf_busy f) s) (\<lambda>_ s.
     bindK (kassert (\<not> pframe_is_pinned f) s) (\<lambda>_ s.
     bindK (pframe_pin pf (memset0 (pf_addr f) PAGE_SIZE s)) (\<lambda>_ s.
       Ret (Inr ()) s))))"

definition shadow_fillpage ::
  "(ptr \<Rightarrow> u32 \<Rightarrow> bool \<Rightarrow> (errno + ptr) kop) \<Rightarrow> ptr \<Rightarrow> ptr \<Rightarrow> (errno + unit) kop" where
  "shadow_fillpage lookup ob pf s =
     bindK (deref (pframes s) pf s) (\<lambda>f s.
     bindK (kassert (pf_busy f) s) (\<lambda>_ s.
     bindK (kassert (\<not> pframe_is_pinned f) s) (\<lambda>_ s.
     bindK (deref (mmobjs s) ob s) (\<lambda>m s.
       case mmo_shadowed m of
         None \<Rightarrow> Stop BAD_POINTER
       | Some sh \<Rightarrow>
           bindK (lookup sh (pf_pagenum f) False s) (\<lambda>ret s.
             case ret of
               Inl _ \<Rightarrow> Ret (Inl EMINUS1) s
             | Inr oldPF \<Rightarrow>
                 bindK (pframe_pin pf s) (\<lambda>_ s.
                 bindK (deref (pframes s) oldPF s) (\<lambda>g s.
                   Ret (Inr ()) (memcpy (pf_addr f) (pf_addr g) PAGE_SIZE s))))))))"

definition vreadpage :: "kenv \<Rightarrow> ptr \<Rightarrow> ptr \<Rightarrow> (errno + unit) kop" where
  "vreadpage env ob pf s =
     bindK (deref (pframes s) pf s) (\<lambda>f s.
       vn_fillpage env ob (PN_TO_ADDR (pf_pagenum f)) (pf_addr f) s)"

fun mmo_lookuppage :: "nat \<Rightarrow> kenv \<Rightarrow> ptr \<Rightarrow> u32 \<Rightarrow> bool \<Rightarrow> (errno + ptr) kop"
  and page_get :: "nat \<Rightarrow> kenv \<Rightarrow> ptr \<Rightarrow> u32 \<Rightarrow> (errno + ptr) kop"
  and mmo_fillpage :: "nat \<Rightarrow> kenv \<Rightarrow> ptr \<Rightarrow> ptr \<Rightarrow> (errno + unit) kop" where
  "mmo_lookuppage 0 env ob pagenum forwrite s = Stop OUT_OF_FUEL"
| "mmo_lookuppage (Suc n) env ob pagenum forwrite s =
     bindK (deref (mmobjs s) ob s) (\<lambda>m s.
       case mmo_ops m of
         anon_mmobj_ops \<Rightarrow> anon_lookuppage (page_get n env) ob pagenum forwrite s
       | shadow_mmobj_ops \<Rightarrow>
           shadow_lookuppage env (page_get n env) (mmo_lookuppage n env) ob pagenum forwrite s
       | vnode_mmobj_ops \<Rightarrow> vlookuppage (page_get n env) ob pagenum forwrite s)"
| "page_get 0 env ob pagenum s = Stop OUT_OF_FUEL"
| "page_get (Suc n) env ob pagenum s =
     pframe_get env (mmo_fillpage n env) (page_get n env) ob pagenum s"
| "mmo_fillpage 0 env ob pf s = Stop OUT_OF_FUEL"
| "mmo_fillpage (Suc n) env ob pf s =
     bindK (deref (mmobjs s) ob s) (\<lambda>m s.
       case mmo_ops m of
         anon_mmobj_ops \<Rightarrow> anon_fillpage ob pf s
       | shadow_mmobj_ops \<Rightarrow> shadow_fillpage (mmo_lookuppage n env) ob pf s
       | vnode_mmobj_ops \<Rightarrow> vreadpage env ob pf s)"

definition pframe_lookup :: "nat \<Rightarrow> kenv \<Rightarrow> ptr option \<Rightarrow> u32 \<Rightarrow> bool \<Rightarrow> (errno + ptr) kop" where
  "pframe_lookup fuel env ob pagenum forwrite s =
     (case ob of
        None \<Rightarrow> Stop KASSERT_failed
      | Some ob \<Rightarrow> mmo_lookuppage fuel env ob pagenum forwrite s)"

section \<open>A page that is not resident\<close>

text \<open>
  \<open>page_room env s p a\<close>: the pageout daemon is not needed and the allocators have frame \<open>p\<close> with
  page \<open>a\<close> to give.
\<close>

definition page_room :: "kenv \<Rightarrow> kstate \<Rightarrow> ptr \<Rightarrow> u32 \<Rightarrow> bool" where
  "page_room env s p a \<longleftrightarrow> \<not> pageoutd_needed env s
     \<and> pframe_slab env (pframes s) = Some p \<and> page_alloc env (pages_out s) = Some a"

definition busy_frame :: "ptr \<Rightarrow> u32 \<Rightarrow> u32 \<Rightarrow> pframe" where
  "busy_frame ob n a = (fresh_frame ob n a)\<lparr>pf_busy := True\<rparr>"

definition filling :: "kenv \<Rightarrow> ptr \<Rightarrow> u32 \<Rightarrow> ptr \<Rightarrow> u32 \<Rightarrow> mmobj \<Rightarrow> kstate \<Rightarrow> kstate" where
  "filling env ob n p a m s =
     (with_frame env ob n p a m s)\<lparr>pframes := (pframes s)(p \<mapsto> busy_frame ob n a)\<rparr>"

lemma filling_sel [simp]:
  "pframes (filling env ob n p a m s) = (pframes s)(p \<mapsto> busy_frame ob n a)"
  "mmobjs (filling env ob n p a m s) = (mmobjs s)(ob \<mapsto> m\<lparr>mmo_refcount := mmo_refcount m + 1,
     mmo_nrespages := mmo_nrespages m + 1, mmo_respages := p # mmo_respages m\<rparr>)"
  "kmem (filling env ob n p a m s) = kmem s" "vnodes (filling env ob n p a m s) = vnodes s"
  "queues (filling env ob n p a m s) (PFWAITQ p) = \<lparr>tq_list = [], tq_size = 0\<rparr>"
  by (simp_all add: filling_def with_frame_def)

lemma busy_frame_sel [simp]:
  "pf_obj (busy_frame ob n a) = Some ob" "pf_pagenum (busy_frame ob n a) = n"
  "pf_addr (busy_frame ob n a) = a" "pf_busy (busy_frame ob n a)" "pf_pincount (busy_frame ob n a) = 0"
  by (simp_all add: busy_frame_def)

lemma allocs_freshD:
  assumes "allocs_fresh env" and "page_room env s p a"
  shows "pframes s p = None" "a \<notin> set (pages_out s)" "PAGE_ALIGNED a"
  using assms by (auto simp: allocs_fresh_def page_room_def)

lemma pages_wf_filling:
  assumes wf: "pages_wf env s" and fresh: "allocs_fresh env" and room: "page_room env s p a"
    and ob: "mmobjs s ob = Some m" and nr: "\<And>q. \<not> holds_page s q ob n"
  shows "pages_wf env (filling env ob n p a m s)"
proof -
  have "pages_wf env (with_frame env ob n p a m s)"
    using allocs_freshD [OF fresh room] nr by (intro pages_wf_with_frame [OF wf ob]) auto
  from pages_wf_flags [OF this, of p "fresh_frame ob n a" "busy_frame ob n a"]
  show ?thesis by (simp add: filling_def)
qed

text \<open>The page is allocated, filled while busy, and no thread waits for it.\<close>

lemma page_get_new:
  assumes wf: "pages_wf env s" and ob: "mmobjs s ob = Some m" "0 < mmo_refcount m"
    and nr: "\<And>q. \<not> holds_page s q ob n" and room: "page_room env s p a"
    and fill: "mmo_fillpage k env ob p (filling env ob n p a m s) = Ret (Inr ()) s3"
    and s3: "pframes s3 p = Some g" "qlist s3 (PFWAITQ p) = []"
  shows "page_get (Suc k) env ob n s = Ret (Inr p) (s3\<lparr>pframes := (pframes s3)(p \<mapsto> g\<lparr>pf_busy := False\<rparr>)\<rparr>)"
proof -
  have al: "pframe_alloc env ob n s = Ret (Some p) (with_frame env ob n p a m s)"
    using ob room by (intro pframe_alloc_eq) (auto simp: page_room_def)
  have "pframe_fill (mmo_fillpage k env) p (with_frame env ob n p a m s)
      = Ret (Inr ()) (s3\<lparr>pframes := (pframes s3)(p \<mapsto> g\<lparr>pf_busy := False\<rparr>)\<rparr>)"
    using fill s3
    by (simp add: pframe_fill_def filling_def busy_frame_def sched_broadcast_empty)
  then show ?thesis
    using get_resident_none [OF wf nr] al room by (simp add: pframe_get_def page_room_def)
qed

text \<open>A page that is resident and not busy is returned as it is.\<close>

lemma page_get_resident:
  assumes "pages_wf env s" and "holds_page s q ob n" and "pframes s q = Some g" and "\<not> pf_busy g"
  shows "page_get (Suc k) env ob n s = Ret (Inr q) (touched q s)"
  using get_resident_some [OF assms(1,2)] assms(3,4) by (simp add: pframe_get_def)

section \<open>The chain of shadow objects\<close>

text \<open>
  \<open>resolves s obs n q\<close>: the objects \<open>obs\<close> follow each other by \<open>mmo_shadowed\<close>, and the last is the
  first of them that has page \<open>n\<close> resident, in frame \<open>q\<close>.
\<close>

fun resolves :: "kstate \<Rightarrow> ptr list \<Rightarrow> u32 \<Rightarrow> ptr \<Rightarrow> bool" where
  "resolves s [] n q = False"
| "resolves s [ob] n q = holds_page s q ob n"
| "resolves s (ob # sh # obs) n q \<longleftrightarrow> (\<forall>p. \<not> holds_page s p ob n)
     \<and> (case mmobjs s ob of None \<Rightarrow> False | Some m \<Rightarrow> mmo_shadowed m = Some sh) \<and> resolves s (sh # obs) n q"

lemma resolves_frame: "resolves s obs n q \<Longrightarrow> pframes s q \<noteq> None"
  by (induction s obs n q rule: resolves.induct) (auto simp: holds_page_def)

lemma shadow_scan_resolves:
  assumes "pages_wf env s" and "resolves s (ob # obs) n q" and "pframes s q = Some g" and "\<not> pf_busy g"
    and "length obs < k"
  shows "shadow_scan k env (Some ob) n s = Ret (Some q) (touched q s)"
  using assms
proof (induction obs arbitrary: ob k)
  case Nil
  then obtain j where "k = Suc j" by (cases k) auto
  with Nil show ?case using get_resident_some [of env s q ob n] by simp
next
  case (Cons sh obs)
  then obtain j where k: "k = Suc j" "length obs < j" by (cases k) auto
  obtain m where m: "mmobjs s ob = Some m" "mmo_shadowed m = Some sh"
    using Cons.prems(2) by (auto split: option.splits)
  have nr: "\<not> holds_page s p ob n" for p using Cons.prems(2) by simp
  have "shadow_scan j env (Some sh) n s = Ret (Some q) (touched q s)"
    using Cons.prems k(2) by (intro Cons.IH) auto
  with k m get_resident_none [OF Cons.prems(1) nr] show ?case by simp
qed

text \<open>Objects that can be asked for a page: a file only within its length.\<close>

definition lookup_ok :: "kstate \<Rightarrow> ptr list \<Rightarrow> u32 \<Rightarrow> bool" where
  "lookup_ok s obs n \<longleftrightarrow> (case mmobjs s (hd obs) of None \<Rightarrow> False | Some m \<Rightarrow>
     (case mmo_ops m of
        anon_mmobj_ops \<Rightarrow> length obs = 1
      | shadow_mmobj_ops \<Rightarrow> True
      | vnode_mmobj_ops \<Rightarrow> length obs = 1 \<and>
          (case vnodes s (hd obs) of None \<Rightarrow> False | Some v \<Rightarrow> n * PAGE_SIZE < vn_len v)))"

lemma lookup_ok_cong:
  assumes "mmobjs s' (hd obs) = mmobjs s (hd obs)" and "vnodes s' = vnodes s"
  shows "lookup_ok s' obs n = lookup_ok s obs n"
  unfolding lookup_ok_def assms ..

lemma read_lookup_resolves:
  assumes wf: "pages_wf env s" and r: "resolves s (ob # obs) n q" and g: "pframes s q = Some g" "\<not> pf_busy g"
    and ok: "lookup_ok s (ob # obs) n" and len: "length obs < chain_fuel env"
  shows "mmo_lookuppage (Suc (Suc k)) env ob n False s = Ret (Inr q) (touched q s)"
proof -
  obtain m where m: "mmobjs s ob = Some m" using ok by (auto simp: lookup_ok_def split: option.splits)
  show ?thesis
  proof (cases "mmo_ops m")
    case anon_mmobj_ops
    then have "holds_page s q ob n" using ok r m by (simp add: lookup_ok_def)
    then show ?thesis using m anon_mmobj_ops page_get_resident [OF wf _ g]
      by (simp add: anon_lookuppage_def)
  next
    case shadow_mmobj_ops
    then show ?thesis using m shadow_scan_resolves [OF wf r g len] by (simp add: shadow_lookuppage_def)
  next
    case vnode_mmobj_ops
    then obtain v where v: "vnodes s ob = Some v" "n * PAGE_SIZE < vn_len v" "holds_page s q ob n"
      using ok r m by (auto simp: lookup_ok_def split: option.splits)
    then have "\<not> vn_len v \<le> n * PAGE_SIZE" by (simp only: not_le)
    then show ?thesis using m v vnode_mmobj_ops page_get_resident [OF wf _ g] by (simp add: vlookuppage_def)
  qed
qed

section \<open>Filling a page\<close>

text \<open>Pinning a frame for the first time changes the lists and the pin count only.\<close>

lemma pinned_once_sel [simp]:
  "pframes (pinned_once p f s) = (pframes s)(p \<mapsto> f\<lparr>pf_pincount := pf_pincount f + 1\<rparr>)"
  "kmem (pinned_once p f s) = kmem s" "queues (pinned_once p f s) = queues s"
  "mmobjs (pinned_once p f s) = mmobjs s" "hwlog (pinned_once p f s) = hwlog s"
  "vnodes (pinned_once p f s) = vnodes s"
  by (simp_all add: pinned_once_def)

lemma mem_updates [simp]:
  "pframes (memcpy d x l s) = pframes s" "pframes (memset0 d l s) = pframes s"
  "queues (memcpy d x l s) = queues s" "queues (memset0 d l s) = queues s"
  "pages_wf env (memcpy d x l s) = pages_wf env s" "pages_wf env (memset0 d l s) = pages_wf env s"
  by (simp_all add: memcpy_def memset0_def pages_wf_def lists_wf_def addrs_wf_def
      hash_wf_cong [of "s\<lparr>kmem := x\<rparr>" s for x] objs_wf_cong [of "s\<lparr>kmem := x\<rparr>" s for x])

lemma page_bytes_kmem: "kmem s' = kmem s \<Longrightarrow> page_bytes s' = page_bytes s"
  by (simp add: page_bytes_def fun_eq_iff)

text \<open>A new page of an anonymous object is zero and pinned, and nothing else changes.\<close>

definition unbusy_pinned :: "ptr \<Rightarrow> u32 \<Rightarrow> u32 \<Rightarrow> pframe" where
  "unbusy_pinned ob n a = (fresh_frame ob n a)\<lparr>pf_pincount := 1\<rparr>"

lemma busy_pinned [simp]:
  "(busy_frame ob n a)\<lparr>pf_pincount := 1, pf_busy := False\<rparr> = unbusy_pinned ob n a"
  "pf_obj (unbusy_pinned ob n a) = Some ob" "pf_pagenum (unbusy_pinned ob n a) = n"
  "pf_addr (unbusy_pinned ob n a) = a" "pf_pincount (unbusy_pinned ob n a) = 1"
  "\<not> pf_busy (unbusy_pinned ob n a)"
  by (simp_all add: busy_frame_def unbusy_pinned_def fresh_frame_def)

lemma anon_page_get:
  assumes wf: "pages_wf env s" and fresh: "allocs_fresh env" and room: "page_room env s p a"
    and ob: "mmobjs s ob = Some m" "mmo_ops m = anon_mmobj_ops" "0 < mmo_refcount m"
    and nr: "\<And>q. \<not> holds_page s q ob n"
  shows "\<exists>s'. page_get (Suc (Suc k)) env ob n s = Ret (Inr p) s' \<and> pages_wf env s'
    \<and> pframes s' = (pframes s)(p \<mapsto> unbusy_pinned ob n a)
    \<and> kmem s' = kmem (memset0 a PAGE_SIZE s)"
proof -
  let ?s1 = "filling env ob n p a m s"
  let ?s2 = "memset0 a PAGE_SIZE ?s1"
  let ?s3 = "pinned_once p (busy_frame ob n a) ?s2"
  have wf1: "pages_wf env ?s1" by (rule pages_wf_filling [OF wf fresh room ob(1) nr])
  then have wf2: "pages_wf env ?s2" by simp
  have f2: "pframes ?s2 p = Some (busy_frame ob n a)" by simp
  have "mmo_fillpage (Suc k) env ob p ?s1 = Ret (Inr ()) ?s3"
    using ob(2) pframe_pin_eq [OF wf2 f2]
    by (simp add: anon_fillpage_def pframe_is_pinned_def)
  then have r: "page_get (Suc (Suc k)) env ob n s
      = Ret (Inr p) (?s3\<lparr>pframes := (pframes ?s3)(p \<mapsto> ((busy_frame ob n a)\<lparr>pf_pincount := 1\<rparr>)\<lparr>pf_busy := False\<rparr>)\<rparr>)"
    by (rule page_get_new [OF wf ob(1,3) nr room]) simp_all
  have "pages_wf env ?s3" by (rule pages_wf_pinned_once [OF wf2 f2])
  then have "pages_wf env (?s3\<lparr>pframes := (pframes ?s3)(p \<mapsto> ((busy_frame ob n a)\<lparr>pf_pincount := 1\<rparr>)\<lparr>pf_busy := False\<rparr>)\<rparr>)"
    by (rule pages_wf_flags [where f = "(busy_frame ob n a)\<lparr>pf_pincount := 1\<rparr>"]) simp_all
  with r show ?thesis by (auto simp: memset0_def)
qed

text \<open>An object with one more resident page.\<close>

definition held_one_more :: "ptr \<Rightarrow> mmobj \<Rightarrow> mmobj" where
  "held_one_more p m = m\<lparr>mmo_refcount := mmo_refcount m + 1, mmo_nrespages := mmo_nrespages m + 1,
     mmo_respages := p # mmo_respages m\<rparr>"

text \<open>Address spaces, processes and the log of the hardware as before.\<close>

definition same_space :: "kstate \<Rightarrow> kstate \<Rightarrow> bool" where
  "same_space s s' \<longleftrightarrow> vmareas s' = vmareas s \<and> vmmaps s' = vmmaps s \<and> procs s' = procs s
     \<and> curproc s' = curproc s \<and> hwlog s' = hwlog s"

lemma same_space_steps [simp]:
  "same_space r (filling env ob n p a m s) = same_space r s" "same_space r (touched q s) = same_space r s"
  "same_space r (pinned_once p f s) = same_space r s" "same_space r (memcpy d x l s) = same_space r s"
  "same_space r (s\<lparr>pframes := h\<rparr>) = same_space r s" "same_space r (s\<lparr>kmem := mem\<rparr>) = same_space r s"
  "same_space s s"
  by (simp_all add: same_space_def filling_def with_frame_def touched_def pinned_once_def memcpy_def split: option.split)

text \<open>Copying the shadowed page into a new page of a shadow object.\<close>

lemma resolves_other:
  assumes "resolves s obs n q" and "ob \<notin> set obs" and "pframes s p = None"
    and "pframes s' = (pframes s)(p \<mapsto> f)" and "pf_obj f = Some ob" and "mmobjs s' = (mmobjs s)(ob \<mapsto> m)"
  shows "resolves s' obs n q"
  using assms
proof (induction s obs n q rule: resolves.induct)
  case (2 s ob' n q)
  then show ?case by (auto simp: holds_page_def)
next
  case (3 s ob' sh obs n q)
  have "holds_page s' r ob' n \<longleftrightarrow> holds_page s r ob' n" for r
    using 3 by (auto simp: holds_page_def)
  with 3 show ?case by auto
qed simp

lemma shadow_page_get:
  assumes wf: "pages_wf env s" and fresh: "allocs_fresh env" and room: "page_room env s p a"
    and ob: "mmobjs s ob = Some m" "mmo_ops m = shadow_mmobj_ops" "0 < mmo_refcount m"
    and r: "resolves s (ob # sh # obs) n q" "distinct (ob # sh # obs)" "length obs < chain_fuel env"
    and ok: "lookup_ok s (sh # obs) n" and g: "pframes s q = Some g" "\<not> pf_busy g"
  shows "\<exists>s'. page_get (Suc (Suc (Suc (Suc k)))) env ob n s = Ret (Inr p) s' \<and> pages_wf env s'
    \<and> pframes s' = (pframes s)(p \<mapsto> unbusy_pinned ob n a)
    \<and> kmem s' = kmem (memcpy a (pf_addr g) PAGE_SIZE s) \<and> same_space s s'
    \<and> mmobjs s' = (mmobjs s)(ob \<mapsto> held_one_more p m)"
proof -
  let ?s1 = "filling env ob n p a m s"
  have nr: "\<not> holds_page s x ob n" for x using r(1) by simp
  have sh: "mmo_shadowed m = Some sh" using r(1) ob(1) by simp
  have new: "pframes s p = None" "q \<noteq> p" using allocs_freshD(1) [OF fresh room] g(1) by auto
  have wf1: "pages_wf env ?s1" by (rule pages_wf_filling [OF wf fresh room ob(1) nr])
  have r1: "resolves ?s1 (sh # obs) n q" using r(1,2) new(1) by (intro resolves_other [where s' = ?s1 and p = p and f = "busy_frame ob n a", OF _ _ _ filling_sel(1) _ filling_sel(2)]) auto
  have ok1: "lookup_ok ?s1 (sh # obs) n" using ok r(2) by (subst lookup_ok_cong [of _ _ s]) simp_all
  have l: "mmo_lookuppage (Suc (Suc k)) env sh n False ?s1 = Ret (Inr q) (touched q ?s1)"
    using g new r(3) by (intro read_lookup_resolves [OF wf1 r1 _ _ ok1, where g = g]) simp_all
  let ?s2 = "touched q ?s1"
  let ?s3 = "pinned_once p (busy_frame ob n a) ?s2"
  let ?s4 = "memcpy a (pf_addr g) PAGE_SIZE ?s3"
  have wf2: "pages_wf env ?s2" and f2: "pframes ?s2 p = Some (busy_frame ob n a)" using wf1 by simp_all
  have "mmo_fillpage (Suc (Suc (Suc k))) env ob p ?s1 = Ret (Inr ()) ?s4"
    using ob(2) sh l g(1) new(2) pframe_pin_eq [OF wf2 f2]
    by (simp add: shadow_fillpage_def pframe_is_pinned_def del: mmo_lookuppage.simps)
  then have pg: "page_get (Suc (Suc (Suc (Suc k)))) env ob n s
      = Ret (Inr p) (?s4\<lparr>pframes := (pframes ?s4)(p \<mapsto> ((busy_frame ob n a)\<lparr>pf_pincount := 1\<rparr>)\<lparr>pf_busy := False\<rparr>)\<rparr>)"
    by (rule page_get_new [OF wf ob(1,3) nr room]) simp_all
  have "pages_wf env ?s4" using pages_wf_pinned_once [OF wf2 f2] by simp
  then have "pages_wf env (?s4\<lparr>pframes := (pframes ?s4)(p \<mapsto> ((busy_frame ob n a)\<lparr>pf_pincount := 1\<rparr>)\<lparr>pf_busy := False\<rparr>)\<rparr>)"
    by (rule pages_wf_flags [where f = "(busy_frame ob n a)\<lparr>pf_pincount := 1\<rparr>"]) simp_all
  with pg show ?thesis by (auto simp: memcpy_def held_one_more_def)
qed

section \<open>Putting the last reference\<close>

lemma unpin_loop_eq:
  assumes "pages_wf env s" and "pframes s p = Some f" and "int n = pf_pincount f"
  shows "\<exists>al pl na np. unpin_loop n p s = Ret () (s\<lparr>pframes := (pframes s)(p \<mapsto> f\<lparr>pf_pincount := 0\<rparr>),
      alloc_list := al, pinned_list := pl, nallocated := na, npinned := np\<rparr>)
    \<and> pages_wf env (s\<lparr>pframes := (pframes s)(p \<mapsto> f\<lparr>pf_pincount := 0\<rparr>),
      alloc_list := al, pinned_list := pl, nallocated := na, npinned := np\<rparr>)"
  using assms
proof (induction n arbitrary: s f)
  case 0
  then have f0: "f\<lparr>pf_pincount := 0\<rparr> = f" by (cases f) simp
  have fp: "(pframes s)(p \<mapsto> f) = pframes s" using "0.prems"(2) by (simp add: fun_upd_idem)
  show ?case using "0.prems" unfolding f0 fp
    by - (rule exI [of _ "alloc_list s"], rule exI [of _ "pinned_list s"], rule exI [of _ "nallocated s"],
        rule exI [of _ "npinned s"], simp add: pframe_is_pinned_def)
next
  case (Suc n)
  then have pin: "pframe_is_pinned f" by (simp add: pframe_is_pinned_def)
  let ?s = "unpinned_once p f s" and ?f = "f\<lparr>pf_pincount := pf_pincount f - 1\<rparr>"
  have eq: "pframe_unpin p s = Ret () ?s" and wf: "pages_wf env ?s"
    using pframe_unpin_eq [OF Suc.prems(1,2) pin] pages_wf_unpinned_once [OF Suc.prems(1,2) pin] by auto
  have f: "pframes ?s p = Some ?f" by (simp add: unpinned_once_def)
  have n: "int n = pf_pincount ?f" using Suc.prems(3) by simp
  have e: "?s\<lparr>pframes := (pframes ?s)(p \<mapsto> ?f\<lparr>pf_pincount := 0\<rparr>), alloc_list := al, pinned_list := pl,
      nallocated := na, npinned := np\<rparr> = s\<lparr>pframes := (pframes s)(p \<mapsto> f\<lparr>pf_pincount := 0\<rparr>),
      alloc_list := al, pinned_list := pl, nallocated := na, npinned := np\<rparr>" for al pl na np
    by (simp add: unpinned_once_def)
  have "unpin_loop (Suc n) p s = unpin_loop n p ?s" using eq pin Suc.prems(2) by simp
  with Suc.IH [OF wf f n, unfolded e] show ?case by (simp only:)
qed

lemma objects_ok_areas:
  assumes "objects_ok s" and "mmobjs s ob = Some m"
  obtains vs where "areas_of s ob = Some vs" "\<forall>v\<in>set vs. area_ok s v"
  using assms unfolding objects_ok_def by blast

lemma obj_wf_refcount: "obj_wf s ob m \<Longrightarrow> mmo_nrespages m \<le> c \<Longrightarrow> obj_wf s ob (m\<lparr>mmo_refcount := c\<rparr>)"
  by (simp add: obj_wf_def)

lemma pages_wf_counts:
  assumes wf: "pages_wf env s" and m: "mmobjs s ob = Some m" and m': "obj_wf s ob m'"
  shows "pages_wf env (s\<lparr>mmobjs := (mmobjs s)(ob \<mapsto> m')\<rparr>)" (is "pages_wf env ?s")
proof -
  have "obj_wf ?s = obj_wf s" by (intro obj_wf_cong holds_page_cong) simp
  moreover have "\<exists>ob' y. pf_obj f = Some ob' \<and> mmobjs ?s ob' = Some y" if "pframes s p = Some f" for p f
    using frame_owner [OF pages_wfD(3) [OF wf] that] by fastforce
  ultimately have "objs_wf ?s" using pages_wfD(3) [OF wf] m' unfolding objs_wf_def by simp
  then show ?thesis using wf unfolding pages_wf_def
    by (simp add: lists_wf_cong [of ?s s] hash_wf_cong [of ?s s] addrs_wf_cong [of ?s s])
qed

lemma areas_of_counts:
  assumes "mmobjs s ob = Some m" and "mmo_un_f m' = mmo_un_f m" and "mmobjs s' = (mmobjs s)(ob \<mapsto> m')"
  shows "areas_of s' = areas_of s"
  by (rule ext) (use assms in \<open>auto simp: areas_of_def split: option.splits mmo_un.splits\<close>)

lemma objects_ok_counts:
  assumes ok: "objects_ok s" and m: "mmobjs s ob = Some m" and m': "mmo_un_f m' = mmo_un_f m" "mmo_ops m' = mmo_ops m"
    and s': "mmobjs s' = (mmobjs s)(ob \<mapsto> m')" "vmareas s' = vmareas s" "vmmaps s' = vmmaps s"
      "procs s' = procs s" "vnodes s' = vnodes s"
  shows "objects_ok s'"
proof -
  have a: "area_ok s' = area_ok s" by (rule area_ok_cong) (simp_all add: s')
  have mm: "\<exists>m. mmobjs s x = Some m \<and> mmo_ops m = mmo_ops y" if "mmobjs s' x = Some y" for x y
    using that m m' s'(1) by (auto split: if_splits)
  show ?thesis unfolding objects_ok_def areas_of_counts [OF m m'(1) s'(1)] a s'(5)
    using ok mm unfolding objects_ok_def by metis
qed

lemma pages_wf_object_freed:
  assumes wf: "pages_wf env s" and m: "mmobjs s ob = Some m" "mmo_respages m = []"
  shows "pages_wf env (s\<lparr>mmobjs := (mmobjs s)(ob := None)\<rparr>)" (is "pages_wf env ?s")
proof -
  have ow: "obj_wf s ob m" using pages_wfD(3) [OF wf] m by (simp add: objs_wf_def)
  have "obj_wf ?s = obj_wf s" by (intro obj_wf_cong holds_page_cong) simp
  moreover have "\<exists>ob' y. pf_obj f = Some ob' \<and> mmobjs ?s ob' = Some y" if f: "pframes s p = Some f" for p f
  proof -
    obtain ob' y where y: "pf_obj f = Some ob'" "mmobjs s ob' = Some y"
      using frame_owner [OF pages_wfD(3) [OF wf] f] by blast
    have "\<not> holds_page s p ob (pf_pagenum f)" using ow m(2) by (auto simp: obj_wf_def)
    then have "ob' \<noteq> ob" using y f by (auto simp: holds_page_def)
    then show ?thesis using y by simp
  qed
  ultimately have "objs_wf ?s" using pages_wfD(3) [OF wf] unfolding objs_wf_def by simp
  then show ?thesis using wf unfolding pages_wf_def
    by (simp add: lists_wf_cong [of ?s s] hash_wf_cong [of ?s s] addrs_wf_cong [of ?s s])
qed

text \<open>
  What is left after \<open>put\<close> has freed every page of the object: the object without pages and
  references, of which \<open>put_finish\<close> puts the shadowed object and frees it.
\<close>

definition drained :: "mmobj \<Rightarrow> mmobj" where
  "drained m = m\<lparr>mmo_refcount := 0, mmo_nrespages := 0, mmo_respages := []\<rparr>"

definition put_finish :: "nat \<Rightarrow> kenv \<Rightarrow> ptr \<Rightarrow> mmobj \<Rightarrow> unit kop" where
  "put_finish k env ob m s =
     bindK (case mmo_shadowed m of Some sh \<Rightarrow> mmo_put k env sh s | None \<Rightarrow> Ret () s) (\<lambda>_ s.
       Ret () (s\<lparr>mmobjs := (mmobjs s)(ob := None)\<rparr>))"

lemma mmo_put_object:
  "mmobjs s ob = Some m \<Longrightarrow> mmo_ops m \<noteq> vnode_mmobj_ops \<Longrightarrow>
     mmo_put (Suc n) env ob s = object_put (mmo_ops m) (mmo_put n env) ob s"
  by (cases "mmo_ops m") (simp_all add: anon_put_def shadow_put_def)

text \<open>One turn of the loop of \<open>put\<close>: the last page of the object is unpinned and freed.\<close>

lemma free_last_page:
  assumes wf: "pages_wf env s" and ok: "objects_ok s" and qu: "quiet s" and m: "mmobjs s ob = Some m"
    and ne: "mmo_respages m \<noteq> []"
  obtains s2 where "\<forall>put g. bindK (deref (pframes s) (last (mmo_respages m)) s) (\<lambda>f s.
      bindK (unpin_loop (nat (pf_pincount f)) (last (mmo_respages m)) s) (\<lambda>_ s.
      bindK (pframe_free put (last (mmo_respages m)) s) g)) = bindK (put ob s2) (g :: unit \<Rightarrow> bool kop)"
    and "mmobjs s2 = (mmobjs s)(ob \<mapsto> m\<lparr>mmo_nrespages := mmo_nrespages m - 1,
      mmo_respages := remove1 (last (mmo_respages m)) (mmo_respages m)\<rparr>)"
    and "pframes s2 = (pframes s)(last (mmo_respages m) := None)"
    and "pages_wf env s2" and "objects_ok s2" and "quiet s2" and "kmem s2 = kmem s" and "vnodes s2 = vnodes s"
proof -
  let ?p = "last (mmo_respages m)"
  have ow: "obj_wf s ob m" using pages_wfD(3) [OF wf] m by (simp add: objs_wf_def)
  have "?p \<in> set (mmo_respages m)" using ne by simp
  then obtain f where f: "pframes s ?p = Some f" "pf_obj f = Some ob"
    using ow by (auto simp: obj_wf_def holds_page_def)
  have nb: "\<not> pf_busy f" using qu f(1) by (auto simp: quiet_def)
  have pc: "int (nat (pf_pincount f)) = pf_pincount f"
    using pages_wfD(1) [OF wf] f(1) by (simp add: lists_wf_def)
  define f' where "f' = f\<lparr>pf_pincount := 0\<rparr>"
  obtain al pl na np where u: "unpin_loop (nat (pf_pincount f)) ?p s = Ret () (s\<lparr>pframes := (pframes s)(?p \<mapsto> f'),
      alloc_list := al, pinned_list := pl, nallocated := na, npinned := np\<rparr>)"
    "pages_wf env (s\<lparr>pframes := (pframes s)(?p \<mapsto> f'), alloc_list := al, pinned_list := pl, nallocated := na, npinned := np\<rparr>)"
    using unpin_loop_eq [OF wf f(1) pc] unfolding f'_def by blast
  define s1 where "s1 = s\<lparr>pframes := (pframes s)(?p \<mapsto> f'), alloc_list := al, pinned_list := pl, nallocated := na, npinned := np\<rparr>"
  have s1: "mmobjs s1 = mmobjs s" "pframes s1 = (pframes s)(?p \<mapsto> f')" "kmem s1 = kmem s" "vnodes s1 = vnodes s"
    by (simp_all add: s1_def)
  have f1: "pframes s1 ?p = Some f'" "pf_obj f' = Some ob" "mmobjs s1 ob = Some m" "\<not> pframe_is_pinned f'" "\<not> pf_busy f'"
    using f m nb by (simp_all add: s1 f'_def pframe_is_pinned_def)
  have wf1: "pages_wf env s1" using u(2) by (simp add: s1_def)
  have ok1: "objects_ok s1" using ok by (subst same_cache_objects_ok [of _ s]) (simp_all add: s1_def)
  obtain vs where vs: "areas_of s1 ob = Some vs" "\<forall>v\<in>set vs. area_ok s1 v" using ok1 f1(3) by (rule objects_ok_areas)
  define s2 where "s2 = without_frame ?p f' ob m (free_events s1 f' vs) s1"
  have fr: "pframe_free put ?p s1 = put ob s2" for put
    unfolding s2_def by (rule pframe_free_eq [OF pages_wfD(1) [OF wf1] f1 vs])
  show thesis
  proof (rule that [of s2])
    show "\<forall>put g. bindK (deref (pframes s) ?p s) (\<lambda>f s. bindK (unpin_loop (nat (pf_pincount f)) ?p s) (\<lambda>_ s.
        bindK (pframe_free put ?p s) g)) = bindK (put ob s2) (g :: unit \<Rightarrow> bool kop)"
      using f(1) u(1) fr by (simp add: s1_def)
    show "pages_wf env s2" unfolding s2_def by (rule pages_wf_without_frame [OF wf1 f1(1-4)])
    show "objects_ok s2" unfolding s2_def
      by (rule objects_ok_counts [OF ok1 f1(3)]) (simp_all add: without_frame_def)
    show "quiet s2" using qu by (auto simp: quiet_def s2_def without_frame_def s1)
  qed (simp_all add: s2_def without_frame_def s1)
qed

lemma mmo_put_drain:
  assumes "pages_wf env s" and "objects_ok s" and "quiet s" and "mmobjs s ob = Some m"
    and "mmo_ops m \<noteq> vnode_mmobj_ops" and "mmo_refcount m = mmo_nrespages m + 1"
    and "length (mmo_respages m) = r"
  shows "\<exists>s1. mmo_put (Suc (r + k)) env ob s = put_finish k env ob m s1
    \<and> mmobjs s1 = (mmobjs s)(ob \<mapsto> drained m)
    \<and> pframes s1 = (\<lambda>p. if p \<in> set (mmo_respages m) then None else pframes s p)
    \<and> pages_wf env s1 \<and> kmem s1 = kmem s \<and> vnodes s1 = vnodes s"
  using assms
proof (induction r arbitrary: s m)
  case 0
  have ow: "obj_wf s ob m" using pages_wfD(3) [OF "0.prems"(1)] "0.prems"(4) by (simp add: objs_wf_def)
  have nr: "mmo_nrespages m = 0" using ow "0.prems"(7) by (simp add: obj_wf_def)
  let ?s = "s\<lparr>mmobjs := (mmobjs s)(ob \<mapsto> m\<lparr>mmo_refcount := 0\<rparr>)\<rparr>"
  have d: "m\<lparr>mmo_refcount := 0\<rparr> = drained m" using "0.prems"(7) nr by (cases m) (simp add: drained_def)
  have "mmo_put (Suc (0 + k)) env ob s = put_finish k env ob m ?s"
    using "0.prems" nr by (subst mmo_put_object) (auto simp: object_put_def put_finish_def Let_def)
  moreover have "obj_wf s ob (m\<lparr>mmo_refcount := 0\<rparr>)" using ow nr by (intro obj_wf_refcount) simp_all
  then have "pages_wf env ?s" by (rule pages_wf_counts [OF "0.prems"(1,4)])
  ultimately show ?case using "0.prems"(7) d by (intro exI [of _ ?s]) simp
next
  case (Suc r)
  have ow: "obj_wf s ob m" using pages_wfD(3) [OF Suc.prems(1)] Suc.prems(4) by (simp add: objs_wf_def)
  have nr: "mmo_nrespages m = int (Suc r)" "distinct (mmo_respages m)" "mmo_respages m \<noteq> []"
    using ow Suc.prems(7) by (auto simp: obj_wf_def)
  define m0 where "m0 = m\<lparr>mmo_refcount := int (Suc r)\<rparr>"
  define s0 where "s0 = s\<lparr>mmobjs := (mmobjs s)(ob \<mapsto> m0)\<rparr>"
  have m0: "mmobjs s0 ob = Some m0" "mmo_respages m0 = mmo_respages m" "mmo_nrespages m0 = int (Suc r)"
    "mmo_refcount m0 = int (Suc r)" "mmo_ops m0 = mmo_ops m" using nr by (simp_all add: s0_def m0_def)
  have "obj_wf s ob m0" unfolding m0_def using ow nr by (intro obj_wf_refcount) simp_all
  then have wf0: "pages_wf env s0" unfolding s0_def by (rule pages_wf_counts [OF Suc.prems(1,4)])
  have ok0: "objects_ok s0"
    by (rule objects_ok_counts [OF Suc.prems(2,4), of m0]) (simp_all add: s0_def m0_def)
  have q0: "quiet s0" using Suc.prems(3) by (simp add: quiet_def s0_def)
  let ?p = "last (mmo_respages m0)"
  let ?m2 = "m0\<lparr>mmo_nrespages := mmo_nrespages m0 - 1, mmo_respages := remove1 ?p (mmo_respages m0)\<rparr>"
  have ne0: "mmo_respages m0 \<noteq> []" using nr m0 by simp
  obtain s2 where s2: "\<forall>put g. bindK (deref (pframes s0) ?p s0) (\<lambda>f s.
      bindK (unpin_loop (nat (pf_pincount f)) ?p s) (\<lambda>_ s.
      bindK (pframe_free put ?p s) g)) = bindK (put ob s2) (g :: unit \<Rightarrow> bool kop)"
    "mmobjs s2 = (mmobjs s0)(ob \<mapsto> ?m2)" "pframes s2 = (pframes s0)(?p := None)"
    "pages_wf env s2" "objects_ok s2" "quiet s2" "kmem s2 = kmem s0" "vnodes s2 = vnodes s0"
    by (rule free_last_page [OF wf0 ok0 q0 m0(1) ne0])
  have m2: "mmobjs s2 ob = Some ?m2" using s2(2) by simp
  have "mmo_ops ?m2 \<noteq> vnode_mmobj_ops" "mmo_refcount ?m2 = mmo_nrespages ?m2 + 1" "length (mmo_respages ?m2) = r"
    using m0 Suc.prems(5,7) nr by (simp_all add: length_remove1)
  from Suc.IH [OF s2(4-6) m2 this] obtain s3 where s3:
    "mmo_put (Suc (r + k)) env ob s2 = put_finish k env ob ?m2 s3"
    "mmobjs s3 = (mmobjs s2)(ob \<mapsto> drained ?m2)"
    "pframes s3 = (\<lambda>p. if p \<in> set (mmo_respages ?m2) then None else pframes s2 p)"
    "pages_wf env s3" "kmem s3 = kmem s2" "vnodes s3 = vnodes s2" by blast
  have "put_pages (length (mmo_respages m0)) (mmo_put (Suc (r + k)) env) (int (Suc r)) ob s0
      = bindK (mmo_put (Suc (r + k)) env ob s2) (\<lambda>_ s. Ret True s)"
    using m0(1,2) ne0 Suc.prems(7) s2(1) by (simp del: mmo_put.simps)
  then have "mmo_put (Suc (Suc r + k)) env ob s = bindK (put_finish k env ob ?m2 s3) (\<lambda>_ s. Ret () s)"
    using Suc.prems(4-6) nr m0 s3(1)
    by (subst mmo_put_object) (auto simp: object_put_def Let_def bindK_assoc s0_def m0_def simp del: mmo_put.simps)
  also have "\<dots> = put_finish k env ob m s3"
    by (cases "put_finish k env ob ?m2 s3") (simp_all add: put_finish_def m0_def)
  finally show ?case using s3 s2 nr
    by (intro exI [of _ s3]) (auto simp: s0_def m0_def drained_def fun_eq_iff)
qed

section \<open>Properties\<close>

text \<open>Every frame of \<open>s\<close> is as it was, with the same contents.\<close>

definition frames_kept :: "kstate \<Rightarrow> kstate \<Rightarrow> bool" where
  "frames_kept s s' \<longleftrightarrow> (\<forall>q f. pframes s q = Some f \<longrightarrow>
     pframes s' q = Some f \<and> page_bytes s' (pf_addr f) = page_bytes s (pf_addr f))"

lemma addrs_wf_other:
  "addrs_wf s \<Longrightarrow> pframes s q = Some f \<Longrightarrow> a \<notin> set (pages_out s) \<Longrightarrow> PAGE_ALIGNED (pf_addr f) \<and> pf_addr f \<noteq> a"
  unfolding addrs_wf_def by blast

lemma frames_kept_new:
  assumes wf: "addrs_wf s" and new: "pframes s p = None" "a \<notin> set (pages_out s)"
    and s': "pframes s' = (pframes s)(p \<mapsto> g)"
    and bytes: "\<And>b. PAGE_ALIGNED b \<Longrightarrow> b \<noteq> a \<Longrightarrow> page_bytes s' b = page_bytes s b"
  shows "frames_kept s s'"
  unfolding frames_kept_def
proof (intro allI impI conjI)
  fix q f assume f: "pframes s q = Some f"
  then show "pframes s' q = Some f" using new(1) s' by auto
  show "page_bytes s' (pf_addr f) = page_bytes s (pf_addr f)" using bytes addrs_wf_other [OF wf f new(2)] by blast
qed

text \<open>
  C26: the first use of a page of an anonymous object, for reading or for writing, gives a frame of
  zeros that is pinned and held by that page, and leaves every other frame and its contents alone.
  Three calls deep is enough.
\<close>

theorem anon_page_zero_filled:
  assumes wf: "pages_wf env s" and fresh: "allocs_fresh env" and room: "page_room env s p a"
    and ob: "mmobjs s ob = Some m" "mmo_ops m = anon_mmobj_ops" "0 < mmo_refcount m"
    and nr: "\<forall>q. \<not> holds_page s q ob n" and k: "3 \<le> k"
  shows "\<exists>s'. mmo_lookuppage k env ob n forwrite s = Ret (Inr p) s' \<and> pages_wf env s'
    \<and> holds_page s' p ob n \<and> p \<in> set (pinned_list s') \<and> page_bytes s' a = (\<lambda>_. 0) \<and> frames_kept s s'"
proof -
  obtain j where j: "k = Suc (Suc (Suc j))" using k by (metis add.commute add_Suc le_Suc_ex numeral_3_eq_3 plus_nat.add_0)
  note new = allocs_freshD [OF fresh room]
  obtain s' where s': "page_get (Suc (Suc j)) env ob n s = Ret (Inr p) s'" "pages_wf env s'"
    "pframes s' = (pframes s)(p \<mapsto> unbusy_pinned ob n a)" "kmem s' = kmem (memset0 a PAGE_SIZE s)"
    using anon_page_get [OF wf fresh room ob] nr by blast
  have b: "page_bytes s' b = (if b = a then (\<lambda>_. 0) else page_bytes s b)" if "PAGE_ALIGNED b" for b
    using page_bytes_memset0 [OF new(3) that] page_bytes_kmem [OF s'(4)] by simp
  have "mmo_lookuppage k env ob n forwrite s = Ret (Inr p) s'"
    using s'(1) ob j by (simp add: anon_lookuppage_def del: page_get.simps)
  moreover have "frames_kept s s'"
    using b by (intro frames_kept_new [OF pages_wfD(4) [OF wf] new(1,2) s'(3)]) auto
  moreover have "p \<in> set (pinned_list s')"
    using lists_wf_list [OF pages_wfD(1) [OF s'(2)], of p "unbusy_pinned ob n a"] s'(3)
    by (simp add: pframe_is_pinned_def)
  moreover have "holds_page s' p ob n" using s'(3) by (simp add: holds_page_def)
  ultimately show ?thesis using s'(2) b [OF new(3)] by auto
qed

lemma example_room: "page_room example_env example_s0 1 0x1000"
  by (simp add: page_room_def pageoutd_needed_def example_s0_def kstate0_def example_env_def first_free_def)

theorem anon_page_zero_filled_witness:
  "\<exists>s'. mmo_lookuppage 3 example_env 1 7 True example_s0 = Ret (Inr 1) s' \<and> pages_wf example_env s'
    \<and> holds_page s' 1 1 7 \<and> 1 \<in> set (pinned_list s') \<and> page_bytes s' 0x1000 = (\<lambda>_. 0) \<and> frames_kept example_s0 s'"
  by (rule anon_page_zero_filled [OF example_s0_wf example_env_fresh example_room, of _ example_anon])
    (simp_all add: example_s0_def kstate0_def example_anon_def holds_page_def)

lemma shadow_write_lookup:
  assumes wf: "pages_wf env s" and fresh: "allocs_fresh env" and room: "page_room env s p a"
    and ob: "mmobjs s ob = Some m" "mmo_ops m = shadow_mmobj_ops" "0 < mmo_refcount m"
    and r: "resolves s (ob # sh # obs) n q" "distinct (ob # sh # obs)" "length obs < chain_fuel env"
    and ok: "lookup_ok s (sh # obs) n" and g: "pframes s q = Some g" "\<not> pf_busy g" and k: "5 \<le> k"
  shows "\<exists>s'. mmo_lookuppage k env ob n True s = Ret (Inr p) s' \<and> pages_wf env s'
    \<and> holds_page s' p ob n \<and> page_bytes s' a = page_bytes s (pf_addr g) \<and> frames_kept s s' \<and> pf_addr g \<noteq> a
    \<and> pframes s' = (pframes s)(p \<mapsto> unbusy_pinned ob n a) \<and> same_space s s'
    \<and> mmobjs s' = (mmobjs s)(ob \<mapsto> held_one_more p m)"
proof -
  obtain j where j: "k = Suc (Suc (Suc (Suc (Suc j))))"
    using le_Suc_ex [OF k] by (auto simp: eval_nat_numeral)
  note new = allocs_freshD [OF fresh room]
  obtain s' where s': "page_get (Suc (Suc (Suc (Suc j)))) env ob n s = Ret (Inr p) s'" "pages_wf env s'"
    "pframes s' = (pframes s)(p \<mapsto> unbusy_pinned ob n a)" "kmem s' = kmem (memcpy a (pf_addr g) PAGE_SIZE s)"
    "same_space s s'" "mmobjs s' = (mmobjs s)(ob \<mapsto> held_one_more p m)"
    using shadow_page_get [OF wf fresh room ob r ok g] by blast
  have b: "page_bytes s' b = (if b = a then page_bytes s (pf_addr g) else page_bytes s b)" if "PAGE_ALIGNED b" for b
    using page_bytes_memcpy [OF new(3) that] page_bytes_kmem [OF s'(4)] by simp
  have "mmo_lookuppage k env ob n True s = Ret (Inr p) s'"
    using s'(1) ob j by (simp add: shadow_lookuppage_def del: page_get.simps)
  moreover have "frames_kept s s'"
    using b by (intro frames_kept_new [OF pages_wfD(4) [OF wf] new(1,2) s'(3)]) auto
  moreover have "holds_page s' p ob n" using s'(3) by (simp add: holds_page_def)
  ultimately show ?thesis using s'(2,3,5,6) b [OF new(3)] addrs_wf_other [OF pages_wfD(4) [OF wf] g(1) new(2)] by auto
qed

text \<open>
  C3: copy on write. Looking up a page for writing in a shadow object that does not have it gives a
  new frame of that object, with the contents that the nearest object below it in the chain has for
  the page; the frame that was read and every other frame stay as they were, and the new frame is at
  another address. Five calls deep is enough whatever the length of the chain.
\<close>

theorem shadow_copy_on_write:
  assumes wf: "pages_wf env s" and fresh: "allocs_fresh env" and room: "page_room env s p a"
    and ob: "mmobjs s ob = Some m" "mmo_ops m = shadow_mmobj_ops" "0 < mmo_refcount m"
    and r: "resolves s (ob # sh # obs) n q" "distinct (ob # sh # obs)" "length obs < chain_fuel env"
    and ok: "lookup_ok s (sh # obs) n" and g: "pframes s q = Some g" "\<not> pf_busy g" and k: "5 \<le> k"
  shows "\<exists>s'. mmo_lookuppage k env ob n True s = Ret (Inr p) s' \<and> pages_wf env s'
    \<and> holds_page s' p ob n \<and> page_bytes s' a = page_bytes s (pf_addr g) \<and> frames_kept s s' \<and> pf_addr g \<noteq> a"
  using shadow_write_lookup [OF wf fresh room ob r ok g k] by blast

text \<open>A shadow object at address 2 over the anonymous object at address 1, whose page 7 is resident.\<close>

definition example_shadow :: mmobj where
  "example_shadow = \<lparr>mmo_ops = shadow_mmobj_ops, mmo_refcount = 1, mmo_nrespages = 0, mmo_respages = [],
     mmo_un_f = mmo_bottom_obj (Some 1), mmo_shadowed = Some 1\<rparr>"

definition example_anon2 :: mmobj where "example_anon2 = example_anon\<lparr>mmo_refcount := 2\<rparr>"

definition example_t0 :: kstate where "example_t0 = kstate0 [1 \<mapsto> example_anon2, 2 \<mapsto> example_shadow]"

definition example_t1 :: kstate where
  "example_t1 = with_frame example_env 1 7 1 0x1000 example_anon2 example_t0"

lemma example_t1_wf: "pages_wf example_env example_t1"
proof -
  have "pages_wf example_env example_t0" unfolding example_t0_def
    by (rule pages_wf_kstate0) (auto simp: example_anon2_def example_anon_def example_shadow_def split: if_splits)
  then show ?thesis unfolding example_t1_def
    by (rule pages_wf_with_frame)
      (auto simp: example_t0_def kstate0_def holds_page_def PAGE_ALIGNED_def PAGE_OFFSET_def)
qed

lemmas example_t1_simps = example_t1_def with_frame_def example_t0_def kstate0_def example_anon2_def
  example_anon_def example_shadow_def

theorem shadow_copy_on_write_witness:
  "\<exists>s'. mmo_lookuppage 5 example_env 2 7 True example_t1 = Ret (Inr 2) s' \<and> pages_wf example_env s'
    \<and> holds_page s' 2 2 7 \<and> page_bytes s' 0x2000 = page_bytes example_t1 (pf_addr (fresh_frame 1 7 0x1000))
    \<and> frames_kept example_t1 s' \<and> pf_addr (fresh_frame 1 7 0x1000) \<noteq> 0x2000"
proof (rule shadow_copy_on_write [OF example_t1_wf example_env_fresh, where m = example_shadow and sh = 1 and obs = "[]" and q = 1])
  show "page_room example_env example_t1 2 0x2000"
    by (simp add: page_room_def pageoutd_needed_def example_t1_simps example_env_def first_free_def)
  show "resolves example_t1 [2, 1] 7 1" by (simp add: holds_page_def example_t1_simps)
  show "lookup_ok example_t1 [1] 7" by (simp add: lookup_ok_def example_t1_simps)
  show "length [] < chain_fuel example_env" by (simp add: example_env_def)
qed (simp_all add: example_t1_simps)

text \<open>
  C14: putting the last reference to an anonymous object unpins and frees all of its pages and frees
  the object; nothing else is freed or changed, and the page cache stays consistent. The calls nest
  once per resident page.
\<close>

theorem anon_put_last_frees:
  assumes wf: "pages_wf env s" and ok: "objects_ok s" and q: "quiet s" and ob: "mmobjs s ob = Some m"
    and an: "mmo_ops m = anon_mmobj_ops" "mmo_shadowed m = None" and last: "mmo_refcount m = mmo_nrespages m + 1"
  shows "\<exists>s'. mmo_put (Suc (length (mmo_respages m))) env ob s = Ret () s' \<and> mmobjs s' = (mmobjs s)(ob := None)
    \<and> pframes s' = (\<lambda>p. if p \<in> set (mmo_respages m) then None else pframes s p)
    \<and> pages_wf env s' \<and> kmem s' = kmem s"
proof -
  obtain s1 where s1: "mmo_put (Suc (length (mmo_respages m))) env ob s = put_finish 0 env ob m s1"
    "mmobjs s1 = (mmobjs s)(ob \<mapsto> drained m)"
    "pframes s1 = (\<lambda>p. if p \<in> set (mmo_respages m) then None else pframes s p)"
    "pages_wf env s1" "kmem s1 = kmem s"
    using mmo_put_drain [OF wf ok q ob _ last refl, of 0] an by auto
  let ?s = "s1\<lparr>mmobjs := (mmobjs s1)(ob := None)\<rparr>"
  have "pages_wf env ?s"
    by (rule pages_wf_object_freed [OF s1(4), of ob "drained m"]) (simp_all add: s1(2) drained_def)
  with s1 an show ?thesis by (simp add: put_finish_def)
qed

theorem anon_put_last_frees_witness:
  "\<exists>s'. mmo_put (Suc (length [1])) example_env 1 example_s1 = Ret () s' \<and> mmobjs s' = (mmobjs example_s1)(1 := None)
    \<and> pframes s' = (\<lambda>p. if p \<in> set [1] then None else pframes example_s1 p)
    \<and> pages_wf example_env s' \<and> kmem s' = kmem example_s1"
proof -
  let ?m = "example_anon\<lparr>mmo_refcount := 2, mmo_nrespages := 1, mmo_respages := [1]\<rparr>"
  have "objects_ok example_s1" "quiet example_s1" "mmobjs example_s1 1 = Some ?m"
    by (auto simp: objects_ok_def quiet_def example_s1_def example_s0_def kstate0_def with_frame_def
        areas_of_def example_anon_def fresh_frame_def)
  from anon_put_last_frees [OF example_s1_wf this] show ?thesis by (simp add: example_anon_def)
qed

text \<open>
  C15: putting the last reference to a shadow object frees its pages and the object and drops one
  reference of the object it shadows, which lives on when it is referenced otherwise.
\<close>

theorem shadow_put_last_releases:
  assumes wf: "pages_wf env s" and ok: "objects_ok s" and q: "quiet s" and ob: "mmobjs s ob = Some m"
    and an: "mmo_ops m = shadow_mmobj_ops" "mmo_shadowed m = Some sh" and last: "mmo_refcount m = mmo_nrespages m + 1"
    and sh: "sh \<noteq> ob" "mmobjs s sh = Some msh" "mmo_nrespages msh + 1 < mmo_refcount msh"
    and vn: "mmo_ops msh = vnode_mmobj_ops \<longrightarrow> (\<exists>v. vnodes s sh = Some v \<and> \<not> vn_busy v)"
  shows "\<exists>s'. mmo_put (Suc (Suc (length (mmo_respages m)))) env ob s = Ret () s'
    \<and> mmobjs s' = (mmobjs s)(ob := None, sh \<mapsto> msh\<lparr>mmo_refcount := mmo_refcount msh - 1\<rparr>)
    \<and> pframes s' = (\<lambda>p. if p \<in> set (mmo_respages m) then None else pframes s p)
    \<and> pages_wf env s' \<and> kmem s' = kmem s"
proof -
  obtain s1 where s1: "mmo_put (Suc (length (mmo_respages m) + 1)) env ob s = put_finish 1 env ob m s1"
    "mmobjs s1 = (mmobjs s)(ob \<mapsto> drained m)"
    "pframes s1 = (\<lambda>p. if p \<in> set (mmo_respages m) then None else pframes s p)"
    "pages_wf env s1" "kmem s1 = kmem s" "vnodes s1 = vnodes s"
    using mmo_put_drain [OF wf ok q ob _ last refl, of 1] an by auto
  let ?msh = "msh\<lparr>mmo_refcount := mmo_refcount msh - 1\<rparr>"
  let ?s2 = "s1\<lparr>mmobjs := (mmobjs s1)(sh \<mapsto> ?msh)\<rparr>"
  have m1: "mmobjs s1 sh = Some msh" using s1(2) sh by simp
  have ow: "obj_wf s1 sh msh" using pages_wfD(3) [OF s1(4)] m1 by (simp add: objs_wf_def)
  then have nn: "0 \<le> mmo_nrespages msh" by (simp add: obj_wf_def)
  have p: "mmo_put 1 env sh s1 = Ret () ?s2"
  proof (cases "mmo_ops msh = vnode_mmobj_ops")
    case True
    then obtain v where "vnodes s1 sh = Some v" "\<not> vn_busy v" using vn s1(6) by auto
    then show ?thesis using True m1 sh(3) nn by (simp add: vo_vput_def vput_def)
  next
    case False
    then show ?thesis using m1 sh(3) nn mmo_put_object [OF m1 False, of 0 env]
      by (simp add: object_put_def Let_def)
  qed
  have wf2: "pages_wf env ?s2" using sh(3) by (intro pages_wf_counts [OF s1(4) m1] obj_wf_refcount [OF ow]) simp
  have "mmobjs ?s2 ob = Some (drained m)" "mmo_respages (drained m) = []"
    using s1(2) sh(1) by (simp_all add: drained_def)
  then have "pages_wf env (?s2\<lparr>mmobjs := (mmobjs ?s2)(ob := None)\<rparr>)" by (rule pages_wf_object_freed [OF wf2])
  then show ?thesis using s1 p an sh(1) by (simp add: put_finish_def fun_upd_twist)
qed

theorem shadow_put_last_releases_witness:
  "\<exists>s'. mmo_put (Suc (Suc (length ([] :: ptr list)))) example_env 2 example_t1 = Ret () s'
    \<and> mmobjs s' = (mmobjs example_t1)(2 := None, 1 \<mapsto> example_anon\<lparr>mmo_refcount := 2, mmo_nrespages := 1, mmo_respages := [1]\<rparr>)
    \<and> pframes s' = (\<lambda>p. if p \<in> set [] then None else pframes example_t1 p)
    \<and> pages_wf example_env s' \<and> kmem s' = kmem example_t1"
proof -
  let ?m = "example_anon\<lparr>mmo_refcount := 3, mmo_nrespages := 1, mmo_respages := [1]\<rparr>"
  have "objects_ok example_t1" "quiet example_t1" "mmobjs example_t1 2 = Some example_shadow"
    "mmobjs example_t1 1 = Some ?m"
    by (auto simp: objects_ok_def quiet_def areas_of_def example_t1_simps fresh_frame_def)
  then show ?thesis
    using shadow_put_last_releases [OF example_t1_wf, of 2 example_shadow 1 ?m]
    by (simp add: example_shadow_def example_anon_def)
qed

text \<open>
  C40: a page whose filling failed stays in the cache. The request that fails reports the error of
  \<open>fillpage\<close>, but the next request for the page finds it resident and returns the frame, with whatever
  the page of memory held before, as if it had been filled.
\<close>

theorem failed_fill_stays_resident:
  assumes wf: "pages_wf env s" and fresh: "allocs_fresh env" and room: "page_room env s p a"
    and ob: "mmobjs s ob = Some m" "0 < mmo_refcount m" and nr: "\<forall>q. \<not> holds_page s q ob n"
    and fill: "mmo_fillpage k env ob p (filling env ob n p a m s) = Ret (Inl e) (filling env ob n p a m s)"
  shows "\<exists>s' s''. page_get (Suc k) env ob n s = Ret (Inl e) s' \<and> page_get (Suc k) env ob n s' = Ret (Inr p) s''
    \<and> page_bytes s'' a = page_bytes s a"
proof -
  let ?s1 = "filling env ob n p a m s"
  let ?s2 = "?s1\<lparr>pframes := (pframes ?s1)(p \<mapsto> (busy_frame ob n a)\<lparr>pf_busy := False\<rparr>)\<rparr>"
  have al: "pframe_alloc env ob n s = Ret (Some p) (with_frame env ob n p a m s)"
    using ob room by (intro pframe_alloc_eq) (auto simp: page_room_def)
  have "pframe_fill (mmo_fillpage k env) p (with_frame env ob n p a m s) = Ret (Inl e) ?s2"
    using fill by (simp add: pframe_fill_def filling_def busy_frame_def sched_broadcast_empty with_frame_def)
  then have r: "page_get (Suc k) env ob n s = Ret (Inl e) ?s2"
    using get_resident_none [OF wf, of ob n] nr al room by (simp add: pframe_get_def page_room_def)
  have "pages_wf env ?s1" using nr by (intro pages_wf_filling [OF wf fresh room ob(1)]) auto
  then have "pages_wf env ?s2" by (rule pages_wf_flags [where f = "busy_frame ob n a"]) simp_all
  then have "page_get (Suc k) env ob n ?s2 = Ret (Inr p) (touched p ?s2)"
    by (rule page_get_resident [where g = "(busy_frame ob n a)\<lparr>pf_busy := False\<rparr>"]) (simp_all add: holds_page_def)
  moreover have "page_bytes (touched p ?s2) a = page_bytes s a" by (simp add: page_bytes_def fun_eq_iff)
  ultimately show ?thesis using r by blast
qed

text \<open>A file of one page in a file system that cannot read it.\<close>

definition failing_env :: kenv where "failing_env = example_env\<lparr>fs_fillpage := (\<lambda>_ _ _. Ret (Inl ENOENT))\<rparr>"

definition example_file :: kstate where
  "example_file = (kstate0 [1 \<mapsto> example_anon\<lparr>mmo_ops := vnode_mmobj_ops\<rparr>])\<lparr>vnodes := [1 \<mapsto>
     \<lparr>vn_ops = fs_vops, vn_fs = 1, vn_vno = 1, vn_mode = S_IFREG, vn_perm = 0, vn_len = 100, vn_devid = 0, vn_busy = False,
      vn_cdev = None, vn_bdev = None\<rparr>]\<rparr>"

theorem failed_fill_stays_resident_witness:
  "\<exists>s' s''. page_get (Suc 1) failing_env 1 0 example_file = Ret (Inl ENOENT) s'
    \<and> page_get (Suc 1) failing_env 1 0 s' = Ret (Inr 1) s'' \<and> page_bytes s'' 0x1000 = page_bytes example_file 0x1000"
proof (rule failed_fill_stays_resident [where m = "example_anon\<lparr>mmo_ops := vnode_mmobj_ops\<rparr>"])
  let ?h = "[1 \<mapsto> example_anon\<lparr>mmo_ops := vnode_mmobj_ops\<rparr>]"
  have "pages_wf failing_env (kstate0 ?h)"
    by (rule pages_wf_kstate0) (auto simp: example_anon_def split: if_splits)
  then show "pages_wf failing_env example_file" by (simp add: example_file_def)
  show "allocs_fresh failing_env" using example_env_fresh by (simp add: allocs_fresh_def failing_env_def)
  show "page_room failing_env example_file 1 0x1000"
    by (simp add: page_room_def pageoutd_needed_def example_file_def kstate0_def failing_env_def example_env_def first_free_def)
qed (simp_all add: example_file_def kstate0_def example_anon_def holds_page_def failing_env_def vreadpage_def vn_fillpage_def
    filling_def with_frame_def busy_frame_def)

end
