(* ===== verification/Vmmap.thy ===== *)
theory Vmmap
  imports Pager
begin

text \<open>
  Address spaces in the heap, the part of \<open>src/kernel/vm/vmmap.c\<close> that allocates, frees and changes
  areas and memory objects: \<open>vmarea_alloc\<close>, \<open>vmarea_free\<close>, \<open>vmmap_create\<close>, \<open>vmmap_destroy\<close>,
  \<open>vmmap_clone\<close>, \<open>vmmap_map\<close>, \<open>vmmap_remove\<close>, \<open>vmmap_read\<close> and \<open>vmmap_write\<close>. The operations of theory
  \<open>Vmarea\<close> on the areas of one address space are run on the heap by \<open>on_map\<close>, which loads the
  areas in the order of \<open>vmm_list\<close> and stores them back.

  The link \<open>vma_olink\<close> of an area is in the list \<open>mmo_vmas\<close> of the object at the bottom of the chain
  of a private mapping. Removing a link that was never inserted follows a null pointer, and removing a link from the list
  of an object that has been freed uses freed memory; both end the run. Inserting a link that is in the list already damages
  the list and the code goes on; what is then reached from the head is modelled, the effect of removing a link from
  such a list is not. The loops over the areas
  of an address space go over the areas it has at the start: an area that the body inserts lies
  outside the range, and an area that the body frees has been left behind.
\<close>

section \<open>Areas and links\<close>

definition load_map :: "ptr \<Rightarrow> vmmap kop" where
  "load_map mp s =
     bindK (deref (vmmaps s) mp s) (\<lambda>m s.
       case those (map (vmareas s) (vmn_list m)) of
         None \<Rightarrow> Stop BAD_POINTER
       | Some vs \<Rightarrow> Ret \<lparr>vmm_id = mp, vmm_list = vs, vmm_proc = vmn_proc m\<rparr> s)"

definition store_map :: "vmmap \<Rightarrow> kstate \<Rightarrow> kstate" where
  "store_map m s =
     s\<lparr>vmmaps := (vmmaps s)(vmm_id m \<mapsto> \<lparr>vmn_list = map vma_id (vmm_list m), vmn_proc = vmm_proc m\<rparr>),
       vmareas := fold (\<lambda>a h. h(vma_id a \<mapsto> a)) (vmm_list m) (vmareas s)\<rparr>"

definition on_map :: "(vmmap \<Rightarrow> ('a, vmmap) kres) \<Rightarrow> ptr \<Rightarrow> 'a kop" where
  "on_map f mp s =
     bindK (load_map mp s) (\<lambda>m s.
       case f m of Ret x m' \<Rightarrow> Ret x (store_map m' s) | Gone _ \<Rightarrow> Gone s | Stop r \<Rightarrow> Stop r)"

definition vma_upd :: "ptr \<Rightarrow> (vmarea \<Rightarrow> vmarea) \<Rightarrow> unit kop" where
  "vma_upd v f s = bindK (deref (vmareas s) v s) (\<lambda>a s. Ret () (s\<lparr>vmareas := (vmareas s)(v \<mapsto> f a)\<rparr>))"

definition plink_remove :: "ptr \<Rightarrow> ptr \<Rightarrow> unit kop" where
  "plink_remove mp v s =
     bindK (deref (vmmaps s) mp s) (\<lambda>m s.
       Ret () (s\<lparr>vmmaps := (vmmaps s)(mp \<mapsto> m\<lparr>vmn_list := remove1 v (vmn_list m)\<rparr>)\<rparr>))"

text \<open>
  \<open>list_remove (&vma->vma_olink)\<close>: the link's neighbours are null unless it has been inserted, and they are in a list whose head is
  part of the object that \<open>vma_olink\<close> names.
\<close>

definition olink_remove :: "ptr \<Rightarrow> unit kop" where
  "olink_remove v s =
     bindK (deref (vmareas s) v s) (\<lambda>a s.
       case vma_olink a of
         None \<Rightarrow> Stop BAD_POINTER
       | Some ob \<Rightarrow>
           bindK (deref (mmobjs s) ob s) (\<lambda>m s.
             case mmo_un_f m of
               mmo_vmas vs \<Rightarrow>
                 if v \<in> set vs then mmo_upd ob (\<lambda>m. m\<lparr>mmo_un_f := mmo_vmas (remove1 v vs)\<rparr>) s
                 else Stop BAD_POINTER
             | mmo_vmas_relinked _ \<Rightarrow> Stop NOT_FOLLOWED
             | mmo_vmas_looped _ \<Rightarrow> Stop NOT_FOLLOWED
             | mmo_bottom_obj _ \<Rightarrow> Stop BAD_POINTER))"

text \<open>
  \<open>list_insert_tail (&ob->mmo_un.mmo_vmas, &vma->vma_olink)\<close> makes the link the successor of the last link of the list and
  the head of the list its own successor. A link that was in the list keeps its predecessor, so that what came behind it
  is not reached from the head any more; the last link of the list becomes its own successor, until another one is inserted.
\<close>

definition relink :: "ptr \<Rightarrow> ptr list \<Rightarrow> mmo_un" where
  "relink v vs = (if vs \<noteq> [] \<and> last vs = v then mmo_vmas_looped vs else mmo_vmas_relinked (takeWhile (\<lambda>w. w \<noteq> v) vs @ [v]))"

definition link_tail :: "ptr \<Rightarrow> mmo_un \<Rightarrow> mmo_un option" where
  "link_tail v u = (case u of
     mmo_vmas vs \<Rightarrow> Some (if v \<in> set vs then relink v vs else mmo_vmas (vs @ [v]))
   | mmo_vmas_relinked vs \<Rightarrow> Some (relink v vs)
   | mmo_vmas_looped vs \<Rightarrow> Some (relink v vs)
   | mmo_bottom_obj _ \<Rightarrow> None)"

definition olink_insert :: "ptr \<Rightarrow> ptr \<Rightarrow> unit kop" where
  "olink_insert ob v s =
     bindK (deref (mmobjs s) ob s) (\<lambda>m s.
       case link_tail v (mmo_un_f m) of
         None \<Rightarrow> Stop BAD_POINTER
       | Some u \<Rightarrow>
           bindK (mmo_upd ob (\<lambda>m. m\<lparr>mmo_un_f := u\<rparr>) s) (\<lambda>_ s.
             vma_upd v (\<lambda>a. a\<lparr>vma_olink := Some ob\<rparr>) s))"

lemma link_tail_simps [simp]:
  "v \<notin> set vs \<Longrightarrow> link_tail v (mmo_vmas vs) = Some (mmo_vmas (vs @ [v]))"
  "v \<in> set vs \<Longrightarrow> link_tail v (mmo_vmas vs) = Some (relink v vs)"
  "link_tail v (mmo_vmas_relinked vs) = Some (relink v vs)" "link_tail v (mmo_vmas_looped vs) = Some (relink v vs)"
  "link_tail v (mmo_bottom_obj b) = None"
  by (simp_all add: link_tail_def)

text \<open>Inserting a link that is in the list, and another one after it.\<close>

lemma relink_twice:
  assumes "v \<notin> set front \<union> set behind" and "x \<notin> insert v (set front)"
  shows "link_tail v (mmo_vmas (front @ v # behind)) = Some (relink v (front @ v # behind))"
    and "link_tail x (relink v (front @ v # behind)) = Some (mmo_vmas_relinked (front @ [v, x]))"
proof -
  have t: "takeWhile (\<lambda>w. w \<noteq> y) zs = zs" if "y \<notin> set zs" for y :: ptr and zs using that by (auto simp: takeWhile_eq_all_conv)
  have "takeWhile (\<lambda>w. w \<noteq> v) (front @ v # behind) = front" using assms(1) t [of v front] by (simp add: takeWhile_append)
  moreover have "last (front @ v # behind) = v \<longleftrightarrow> behind = []" using assms(1) last_in_set [of behind] by auto
  moreover have "takeWhile (\<lambda>w. w \<noteq> x) (front @ [v]) = front @ [v]" using assms(2) by (intro t) auto
  ultimately show "link_tail v (mmo_vmas (front @ v # behind)) = Some (relink v (front @ v # behind))"
    "link_tail x (relink v (front @ v # behind)) = Some (mmo_vmas_relinked (front @ [v, x]))"
    using assms(2) by (auto simp: relink_def)
qed

text \<open>
  The bottom of the chain of an object: the object itself unless it is a shadow, whose \<open>mmo_bottom_obj\<close> is set when it is
  put over another object.
\<close>

definition mmobj_bottom_obj :: "ptr \<Rightarrow> ptr kop" where
  "mmobj_bottom_obj ob s =
     bindK (deref (mmobjs s) ob s) (\<lambda>m s.
       case mmo_un_f m of
         mmo_vmas _ \<Rightarrow> Ret ob s
       | mmo_vmas_relinked _ \<Rightarrow> Ret ob s
       | mmo_vmas_looped _ \<Rightarrow> Ret ob s
       | mmo_bottom_obj None \<Rightarrow> Stop BAD_POINTER
       | mmo_bottom_obj (Some b) \<Rightarrow> Ret b s)"

definition vmarea_alloc :: "kenv \<Rightarrow> ptr option kop" where
  "vmarea_alloc env s =
     (case vmarea_slab env (vmareas s) of
        None \<Rightarrow> Ret None s
      | Some newvma \<Rightarrow>
          Ret (Some newvma)
            (s\<lparr>vmareas := (vmareas s)(newvma \<mapsto> (slab_contents env newvma)\<lparr>vma_id := newvma, vma_vmmap := None\<rparr>)\<rparr>))"

definition vmarea_free :: "ptr \<Rightarrow> unit kop" where
  "vmarea_free vma s = bindK (deref (vmareas s) vma s) (\<lambda>_ s. Ret () (s\<lparr>vmareas := (vmareas s)(vma := None)\<rparr>))"

section \<open>Creating, destroying and cloning an address space\<close>

definition vmmap_create :: "kenv \<Rightarrow> ptr option kop" where
  "vmmap_create env s =
     (case vmmap_slab env (vmmaps s) of
        None \<Rightarrow> Ret None s
      | Some new_vmmap \<Rightarrow>
          Ret (Some new_vmmap) (s\<lparr>vmmaps := (vmmaps s)(new_vmmap \<mapsto> \<lparr>vmn_list = [], vmn_proc = None\<rparr>)\<rparr>))"

primrec destroy_areas :: "kenv \<Rightarrow> ptr \<Rightarrow> ptr list \<Rightarrow> unit kop" where
  "destroy_areas env mp [] s = Ret () s"
| "destroy_areas env mp (vma # rest) s =
     bindK (plink_remove mp vma s) (\<lambda>_ s.
     bindK (deref (vmareas s) vma s) (\<lambda>a s.
     bindK (if has_flag (vma_flags a) (MAP_PRIVATE (cfg env)) then olink_remove vma s else Ret () s) (\<lambda>_ s.
     bindK (case vma_obj a of Some ob \<Rightarrow> mmo_put (chain_fuel env) env ob s | None \<Rightarrow> Ret () s) (\<lambda>_ s.
     bindK (vmarea_free vma s) (\<lambda>_ s.
       destroy_areas env mp rest s)))))"

definition vmmap_destroy :: "kenv \<Rightarrow> ptr \<Rightarrow> unit kop" where
  "vmmap_destroy env mp s =
     bindK (deref (vmmaps s) mp s) (\<lambda>m s.
     bindK (destroy_areas env mp (vmn_list m) s) (\<lambda>_ s.
       Ret () (s\<lparr>vmmaps := (vmmaps s)(mp := None)\<rparr>)))"

primrec clone_areas :: "kenv \<Rightarrow> ptr \<Rightarrow> ptr list \<Rightarrow> ptr option kop" where
  "clone_areas env new_vmmap [] s = Ret (Some new_vmmap) s"
| "clone_areas env new_vmmap (vma # rest) s =
     bindK (vmarea_alloc env s) (\<lambda>r s.
       case r of
         None \<Rightarrow> bindK (vmmap_destroy env new_vmmap s) (\<lambda>_ s. Ret None s)
       | Some new_vma \<Rightarrow>
           bindK (deref (vmareas s) vma s) (\<lambda>a s.
           bindK (vma_upd new_vma (\<lambda>n. n\<lparr>vma_start := vma_start a, vma_end := vma_end a, vma_off := vma_off a,
                    vma_prot := vma_prot a, vma_flags := vma_flags a, vma_vmmap := Some new_vmmap,
                    vma_obj := None, vma_olink := None\<rparr>) s) (\<lambda>_ s.
           bindK (deref (vmmaps s) new_vmmap s) (\<lambda>m s.
             clone_areas env new_vmmap rest
               (s\<lparr>vmmaps := (vmmaps s)(new_vmmap \<mapsto> m\<lparr>vmn_list := vmn_list m @ [new_vma]\<rparr>)\<rparr>)))))"

definition vmmap_clone :: "kenv \<Rightarrow> ptr \<Rightarrow> ptr option kop" where
  "vmmap_clone env mp s =
     bindK (vmmap_create env s) (\<lambda>r s.
       case r of
         None \<Rightarrow> Ret None s
       | Some new_vmmap \<Rightarrow>
           bindK (deref (vmmaps s) mp s) (\<lambda>m s. clone_areas env new_vmmap (vmn_list m) s))"

section \<open>Removing a range\<close>

definition cur_proc :: "(ptr \<times> proc) kop" where
  "cur_proc s =
     (case curproc s of
        None \<Rightarrow> Stop BAD_POINTER
      | Some p \<Rightarrow> bindK (deref (procs s) p s) (\<lambda>pr s. Ret (p, pr) s))"

definition pt_unmap_range :: "u32 \<Rightarrow> u32 \<Rightarrow> unit kop" where
  "pt_unmap_range lo hi s =
     bindK (cur_proc s) (\<lambda>(_, pr) s. Ret () (hw (PT_UNMAP_RANGE (p_pagedir pr) (PN_TO_ADDR lo) (PN_TO_ADDR hi)) s))"

definition map_insert :: "kenv \<Rightarrow> ptr \<Rightarrow> ptr \<Rightarrow> unit kop" where
  "map_insert env mp newvma s =
     bindK (deref (vmareas s) newvma s) (\<lambda>a s. on_map (vmmap_insert (cfg env) a) mp s)"

text \<open>Case 1 of \<open>vmmap_remove\<close>, \<open>[  *****   ]\<close>: the area \<open>vma\<close> is split in two.\<close>

definition split_private :: "kenv \<Rightarrow> ptr \<Rightarrow> ptr \<Rightarrow> (errno + unit) kop" where
  "split_private env vma new_vma s =
     bindK (shadow_create env s) (\<lambda>r1 s.
       case r1 of
         None \<Rightarrow> bindK (vmarea_free new_vma s) (\<lambda>_ s. Ret (Inl EMINUS1) s)
       | Some shadow1 \<Rightarrow>
           bindK (shadow_create env s) (\<lambda>r2 s.
             case r2 of
               None \<Rightarrow> bindK (vmarea_free new_vma s) (\<lambda>_ s. Ret (Inl EMINUS1) s)
             | Some shadow2 \<Rightarrow>
                 bindK (deref (vmareas s) vma s) (\<lambda>a s.
                   case vma_obj a of
                     None \<Rightarrow> Stop BAD_POINTER
                   | Some temp \<Rightarrow>
                       bindK (mmo_upd shadow1 (\<lambda>m. m\<lparr>mmo_shadowed := Some temp\<rparr>) s) (\<lambda>_ s.
                       bindK (mmo_upd shadow2 (\<lambda>m. m\<lparr>mmo_shadowed := Some temp\<rparr>) s) (\<lambda>_ s.
                       bindK (vma_upd vma (\<lambda>a. a\<lparr>vma_obj := Some shadow1\<rparr>) s) (\<lambda>_ s.
                       bindK (vma_upd new_vma (\<lambda>a. a\<lparr>vma_obj := Some shadow2\<rparr>) s) (\<lambda>_ s.
                       bindK (mmobj_bottom_obj temp s) (\<lambda>b s.
                       bindK (mmo_upd shadow1 (\<lambda>m. m\<lparr>mmo_un_f := mmo_bottom_obj (Some b)\<rparr>) s) (\<lambda>_ s.
                       bindK (mmo_upd shadow2 (\<lambda>m. m\<lparr>mmo_un_f := mmo_bottom_obj (Some b)\<rparr>) s) (\<lambda>_ s.
                       bindK (olink_insert b vma s) (\<lambda>_ s.
                       bindK (olink_insert b new_vma s) (\<lambda>_ s.
                       bindK (mmo_ref temp s) (\<lambda>_ s.
                         Ret (Inr ()) s)))))))))))))"

definition remove_inside :: "kenv \<Rightarrow> ptr \<Rightarrow> u32 \<Rightarrow> u32 \<Rightarrow> ptr \<Rightarrow> (errno + unit) kop" where
  "remove_inside env mp startvfn endvfn vma s =
     bindK (vmarea_alloc env s) (\<lambda>r s.
       case r of
         None \<Rightarrow> Ret (Inl EMINUS1) s
       | Some new_vma \<Rightarrow>
           bindK (deref (vmareas s) vma s) (\<lambda>a s.
             let start1 = vma_start a; end1 = startvfn; start2 = endvfn; end2 = vma_end a in
             bindK (vma_upd vma (\<lambda>a. a\<lparr>vma_start := start1, vma_end := end1\<rparr>) s) (\<lambda>_ s.
             let off = vma_off a + start2 - start1 in
             bindK (vma_upd new_vma (\<lambda>n. n\<lparr>vma_start := start2, vma_end := end2, vma_off := off,
                      vma_prot := vma_prot a, vma_flags := vma_flags a, vma_vmmap := None\<rparr>) s) (\<lambda>_ s.
             bindK (if has_flag (vma_flags a) (MAP_PRIVATE (cfg env)) then split_private env vma new_vma s
                    else if has_flag (vma_flags a) (MAP_SHARED (cfg env))
                    then bindK (vma_upd new_vma (\<lambda>n. n\<lparr>vma_obj := vma_obj a\<rparr>) s) (\<lambda>_ s.
                           case vma_obj a of
                             None \<Rightarrow> Stop BAD_POINTER
                           | Some ob \<Rightarrow> bindK (mmo_ref ob s) (\<lambda>_ s. Ret (Inr ()) s))
                    else Ret (Inr ()) s) (\<lambda>r s.
               case r of
                 Inl e \<Rightarrow> Ret (Inl e) s
               | Inr _ \<Rightarrow>
                   bindK (map_insert env mp new_vma s) (\<lambda>_ s.
                   bindK (pt_unmap_range startvfn endvfn s) (\<lambda>_ s.
                     Ret (Inr ()) s)))))))"

text \<open>Case 4, \<open>***[*******]***\<close>: the area goes.\<close>

definition remove_whole :: "kenv \<Rightarrow> ptr \<Rightarrow> ptr \<Rightarrow> unit kop" where
  "remove_whole env mp vma s =
     bindK (deref (vmareas s) vma s) (\<lambda>a s.
     bindK (case vma_obj a of Some ob \<Rightarrow> mmo_put (chain_fuel env) env ob s | None \<Rightarrow> Ret () s) (\<lambda>_ s.
     bindK (plink_remove mp vma s) (\<lambda>_ s.
     bindK (if has_flag (vma_flags a) (MAP_PRIVATE (cfg env)) then olink_remove vma s else Ret () s) (\<lambda>_ s.
     bindK (vmarea_free vma s) (\<lambda>_ s.
       pt_unmap_range (vma_start a) (vma_end a) s)))))"

primrec remove_areas :: "kenv \<Rightarrow> ptr \<Rightarrow> u32 \<Rightarrow> u32 \<Rightarrow> ptr list \<Rightarrow> (errno + unit) kop" where
  "remove_areas env mp startvfn endvfn [] s = Ret (Inr ()) s"
| "remove_areas env mp startvfn endvfn (vma # rest) s =
     bindK (deref (vmareas s) vma s) (\<lambda>a s.
     bindK (if startvfn > vma_start a \<and> endvfn < vma_end a
            then remove_inside env mp startvfn endvfn vma s
            else if startvfn > vma_start a \<and> startvfn < vma_end a \<and> endvfn \<ge> vma_end a
            then bindK (vma_upd vma (\<lambda>a. a\<lparr>vma_end := startvfn\<rparr>) s) (\<lambda>_ s.
                 bindK (pt_unmap_range startvfn (vma_end a) s) (\<lambda>_ s. Ret (Inr ()) s))
            else if startvfn \<le> vma_start a \<and> endvfn > vma_start a \<and> endvfn < vma_end a
            then bindK (vma_upd vma (\<lambda>a. a\<lparr>vma_off := vma_off a + (endvfn - vma_start a), vma_start := endvfn\<rparr>) s) (\<lambda>_ s.
                 bindK (pt_unmap_range (vma_start a) endvfn s) (\<lambda>_ s. Ret (Inr ()) s))
            else if startvfn \<le> vma_start a \<and> endvfn \<ge> vma_end a
            then bindK (remove_whole env mp vma s) (\<lambda>_ s. Ret (Inr ()) s)
            else Ret (Inr ()) s) (\<lambda>r s.
       case r of
         Inl e \<Rightarrow> Ret (Inl e) s
       | Inr _ \<Rightarrow> remove_areas env mp startvfn endvfn rest s))"

definition vmmap_remove :: "kenv \<Rightarrow> ptr \<Rightarrow> u32 \<Rightarrow> u32 \<Rightarrow> (errno + unit) kop" where
  "vmmap_remove env mp lopage npages s =
     bindK (deref (vmmaps s) mp s) (\<lambda>m s.
       remove_areas env mp lopage (lopage + npages) (vmn_list m) s)"

section \<open>Mapping a range\<close>

definition choose_start :: "kenv \<Rightarrow> ptr \<Rightarrow> u32 \<Rightarrow> u32 \<Rightarrow> vmdir \<Rightarrow> (errno + (int \<times> u32)) kop" where
  "choose_start env mp lopage npages dir s =
     (if lopage \<noteq> 0
      then bindK (on_map (vmmap_is_range_empty (cfg env) lopage npages) mp s) (\<lambda>empty s.
           bindK (if \<not> empty then bindK (vmmap_remove env mp lopage npages s) (\<lambda>_ s. Ret () s)
                  else Ret () s) (\<lambda>_ s.
             Ret (Inr (0, lopage)) s))
      else bindK (on_map (vmmap_find_range (cfg env) npages dir) mp s) (\<lambda>retval s.
             if retval < 0 then Ret (Inl EMINUS1) s else Ret (Inr (retval, word_of_int retval)) s))"

definition link_object :: "kenv \<Rightarrow> ptr \<Rightarrow> u32 \<Rightarrow> ptr \<Rightarrow> (errno + unit) kop" where
  "link_object env file_vma flags new_mmobj s =
     (if has_flag flags (MAP_PRIVATE (cfg env))
      then bindK (shadow_create env s) (\<lambda>r s.
           case r of
             None \<Rightarrow>
               bindK (mmo_put (chain_fuel env) env new_mmobj s) (\<lambda>_ s.
               bindK (vmarea_free file_vma s) (\<lambda>_ s.
                 Ret (Inl EMINUS1) s))
           | Some shadow_mmobj \<Rightarrow>
               bindK (mmo_upd shadow_mmobj (\<lambda>m. m\<lparr>mmo_shadowed := Some new_mmobj\<rparr>) s) (\<lambda>_ s.
               bindK (vma_upd file_vma (\<lambda>a. a\<lparr>vma_obj := Some shadow_mmobj\<rparr>) s) (\<lambda>_ s.
               bindK (mmo_upd shadow_mmobj (\<lambda>m. m\<lparr>mmo_un_f := mmo_bottom_obj (Some new_mmobj)\<rparr>) s) (\<lambda>_ s.
               bindK (olink_insert new_mmobj file_vma s) (\<lambda>_ s.
                 Ret (Inr ()) s)))))
      else if has_flag flags (MAP_SHARED (cfg env))
      then bindK (vma_upd file_vma (\<lambda>a. a\<lparr>vma_obj := Some new_mmobj\<rparr>) s) (\<lambda>_ s. Ret (Inr ()) s)
      else Ret (Inr ()) s)"

text \<open>
  \<open>vmmap_map\<close> returns a number that is not negative together with the new area, which the code stores
  through \<open>new\<close>.
\<close>

definition vmmap_map ::
  "kenv \<Rightarrow> ptr \<Rightarrow> ptr option \<Rightarrow> u32 \<Rightarrow> u32 \<Rightarrow> u32 \<Rightarrow> u32 \<Rightarrow> u32 \<Rightarrow> vmdir \<Rightarrow> (errno + (int \<times> ptr)) kop" where
  "vmmap_map env mp file lopage npages prot flags off dir s =
     (let c = cfg env in
      bindK (kassert (0 < npages) s) (\<lambda>_ s.
      bindK (kassert (NOT (PROT_NONE c OR PROT_READ c OR PROT_WRITE c OR PROT_EXEC c) AND prot = 0) s) (\<lambda>_ s.
      bindK (kassert (MAP_SHARED c AND flags \<noteq> 0 \<or> MAP_PRIVATE c AND flags \<noteq> 0) s) (\<lambda>_ s.
      bindK (kassert (lopage = 0 \<or> user_lo c \<le> lopage) s) (\<lambda>_ s.
      bindK (kassert (lopage = 0 \<or> user_hi c \<ge> lopage + npages) s) (\<lambda>_ s.
      bindK (kassert (PAGE_ALIGNED off) s) (\<lambda>_ s.
      bindK (choose_start env mp lopage npages dir s) (\<lambda>r s.
        case r of
          Inl e \<Rightarrow> Ret (Inl e) s
        | Inr (retval, start_vfn) \<Rightarrow>
            bindK (vmarea_alloc env s) (\<lambda>r s.
              case r of
                None \<Rightarrow> Ret (Inl EMINUS1) s
              | Some file_vma \<Rightarrow>
                  bindK (vma_upd file_vma (\<lambda>a. a\<lparr>vma_start := start_vfn, vma_end := start_vfn + npages,
                           vma_off := ADDR_TO_PN off, vma_prot := prot, vma_flags := flags\<rparr>) s) (\<lambda>_ s.
                  bindK (case file of
                           None \<Rightarrow> bindK (anon_create env s) (\<lambda>ob s. Ret (Inr (retval, ob)) s)
                         | Some f \<Rightarrow>
                             bindK (vn_mmap env f file_vma s) (\<lambda>r s.
                               case r of
                                 Inl e \<Rightarrow> bindK (vmarea_free file_vma s) (\<lambda>_ s. Ret (Inl e) s)
                               | Inr ob \<Rightarrow> Ret (Inr (0, ob)) s)) (\<lambda>r s.
                    case r of
                      Inl e \<Rightarrow> Ret (Inl e) s
                    | Inr (retval, new_mmobj) \<Rightarrow>
                        bindK (deref (mmobjs s) new_mmobj s) (\<lambda>m s.
                        bindK (if mmo_refcount m = 0 then mmo_ref new_mmobj s else Ret () s) (\<lambda>_ s.
                        bindK (link_object env file_vma flags new_mmobj s) (\<lambda>r s.
                          case r of
                            Inl e \<Rightarrow> Ret (Inl e) s
                          | Inr _ \<Rightarrow>
                              bindK (map_insert env mp file_vma s) (\<lambda>_ s.
                                Ret (Inr (retval, file_vma)) s))))))))))))))) "

section \<open>Reading and writing an address space\<close>

text \<open>
  The part of the page \<open>i\<close> that is copied, when its frame is at \<open>addr\<close>: where it starts and how many
  bytes.
\<close>

definition last_vaddr :: "u32 \<Rightarrow> u32 \<Rightarrow> u32" where "last_vaddr vaddr count = vaddr + count - 1"

definition page_chunk :: "u32 \<Rightarrow> u32 \<Rightarrow> u32 \<Rightarrow> u32 \<Rightarrow> u32 \<times> u32" where
  "page_chunk vaddr count i addr =
     (let first_vfn = ADDR_TO_PN vaddr; last_vfn = ADDR_TO_PN (last_vaddr vaddr count) in
      if i = first_vfn
      then let start_addr = addr + PAGE_OFFSET vaddr; page_end_addr = addr + PAGE_SIZE in
           (start_addr, if start_addr + count < page_end_addr then count else page_end_addr - start_addr)
      else if i = last_vfn then (addr, last_vaddr vaddr count - PN_TO_ADDR last_vfn)
      else (addr, PAGE_SIZE))"

text \<open>The frame that the page \<open>i\<close> of the address space is in, for reading.\<close>

definition map_frame :: "kenv \<Rightarrow> ptr \<Rightarrow> u32 \<Rightarrow> (errno + ptr) kop" where
  "map_frame env mp i s =
     bindK (load_map mp s) (\<lambda>m s.
       case vmmap_lookup m i of
         None \<Rightarrow> Stop BAD_POINTER
       | Some vma \<Rightarrow>
           pframe_lookup (chain_fuel env) env (vma_obj vma) (vma_off vma + (i - vma_start vma)) False s)"

primrec read_pages :: "kenv \<Rightarrow> ptr \<Rightarrow> u32 \<Rightarrow> u32 \<Rightarrow> u32 list \<Rightarrow> u32 \<Rightarrow> (errno + unit) kop" where
  "read_pages env mp vaddr count [] buf s = Ret (Inr ()) s"
| "read_pages env mp vaddr count (i # is) buf s =
     bindK (map_frame env mp i s) (\<lambda>r s.
       case r of
         Inl e \<Rightarrow> Ret (Inl e) s
       | Inr pf \<Rightarrow>
           bindK (deref (pframes s) pf s) (\<lambda>f s.
             let (source_addr, num_bytes) = page_chunk vaddr count i (pf_addr f) in
             read_pages env mp vaddr count is (buf + num_bytes) (memcpy buf source_addr num_bytes s)))"

primrec write_pages :: "kenv \<Rightarrow> ptr \<Rightarrow> u32 \<Rightarrow> u32 \<Rightarrow> u32 list \<Rightarrow> u32 \<Rightarrow> (errno + unit) kop" where
  "write_pages env mp vaddr count [] buf s = Ret (Inr ()) s"
| "write_pages env mp vaddr count (i # is) buf s =
     bindK (map_frame env mp i s) (\<lambda>r s.
       case r of
         Inl e \<Rightarrow> Ret (Inl e) s
       | Inr pf \<Rightarrow>
           bindK (pframe_dirty env pf s) (\<lambda>_ s.
           bindK (deref (pframes s) pf s) (\<lambda>f s.
             let (source_addr, num_bytes) = page_chunk vaddr count i (pf_addr f) in
             write_pages env mp vaddr count is (buf + num_bytes) (memcpy source_addr buf num_bytes s))))"

definition vfns :: "u32 \<Rightarrow> u32 \<Rightarrow> u32 list" where
  "vfns lo hi = map (\<lambda>k. lo + of_nat k) [0..<Suc (unat hi) - unat lo]"

definition vmmap_read :: "kenv \<Rightarrow> ptr \<Rightarrow> u32 \<Rightarrow> u32 \<Rightarrow> u32 \<Rightarrow> (errno + unit) kop" where
  "vmmap_read env mp vaddr buf count =
     read_pages env mp vaddr count (vfns (ADDR_TO_PN vaddr) (ADDR_TO_PN (last_vaddr vaddr count))) buf"

definition vmmap_write :: "kenv \<Rightarrow> ptr \<Rightarrow> u32 \<Rightarrow> u32 \<Rightarrow> u32 \<Rightarrow> (errno + unit) kop" where
  "vmmap_write env mp vaddr buf count =
     write_pages env mp vaddr count (vfns (ADDR_TO_PN vaddr) (ADDR_TO_PN (last_vaddr vaddr count))) buf"

section \<open>Reading across pages\<close>

lemma unat_add_small: "unat (a::u32) + unat b < 2 ^ 32 \<Longrightarrow> unat (a + b) = unat a + unat b"
  by (simp add: unat_word_ariths)

lemma page_chunk_first:
  assumes "unat a + 4096 + unat count < 2 ^ 32"
  shows "unat (snd (page_chunk vaddr count (ADDR_TO_PN vaddr) a)) = min (unat count) (4096 - unat vaddr mod 4096)"
proof -
  have o: "unat (PAGE_OFFSET vaddr) < 4096" by (simp add: unat_PAGE_OFFSET)
  have s: "unat (a + PAGE_OFFSET vaddr) = unat a + unat (PAGE_OFFSET vaddr)" using assms o by (intro unat_add_small) simp
  have sc: "unat (a + PAGE_OFFSET vaddr + count) = unat a + unat (PAGE_OFFSET vaddr) + unat count"
    using assms o s by (subst unat_add_small) simp_all
  have e: "unat (a + PAGE_SIZE) = unat a + 4096"
    using assms unat_add_small [of a PAGE_SIZE] by (simp add: PAGE_SIZE_def)
  have "unat (a + PAGE_SIZE - (a + PAGE_OFFSET vaddr)) = 4096 - unat (PAGE_OFFSET vaddr)"
    using o e s by (subst unat_diff_ge) simp_all
  then show ?thesis using sc e o by (auto simp: page_chunk_def Let_def word_less_nat_alt unat_PAGE_OFFSET)
qed

lemma page_chunk_last:
  assumes "ADDR_TO_PN (last_vaddr vaddr count) \<noteq> ADDR_TO_PN vaddr"
  shows "unat (snd (page_chunk vaddr count (ADDR_TO_PN (last_vaddr vaddr count)) a)) = unat (last_vaddr vaddr count) mod 4096"
proof -
  let ?l = "last_vaddr vaddr count"
  have p: "unat (PN_TO_ADDR (ADDR_TO_PN ?l)) = unat ?l div 4096 * 4096"
    using unat_PN_TO_ADDR [OF unat_ADDR_TO_PN_less, of ?l] by (simp add: unat_ADDR_TO_PN)
  then have "unat (?l - PN_TO_ADDR (ADDR_TO_PN ?l)) = unat ?l - unat ?l div 4096 * 4096"
    by (subst unat_diff_ge) (simp_all add: div_times_less_eq_dividend)
  then show ?thesis using assms by (simp add: page_chunk_def Let_def minus_div_mult_eq_mod)
qed

lemma page_chunk_middle:
  "i \<noteq> ADDR_TO_PN vaddr \<Longrightarrow> i \<noteq> ADDR_TO_PN (last_vaddr vaddr count) \<Longrightarrow> unat (snd (page_chunk vaddr count i a)) = 4096"
  by (simp add: page_chunk_def PAGE_SIZE_def)

lemma unat_last:
  fixes a len :: u32
  assumes "0 < len" and "unat a + unat len \<le> 2 ^ 32"
  shows "unat (a + len - 1) = unat a + unat len - 1"
proof -
  have len: "0 < unat len" using assms(1) by (simp add: word_less_nat_alt)
  then have m: "unat (len - 1) = unat len - 1" by (intro unat_minus_one) auto
  have "unat (a + (len - 1)) = (unat a + unat (len - 1)) mod 2 ^ 32" by (simp add: unat_word_ariths)
  also have "\<dots> = unat a + unat len - 1" using m len assms(2) by simp
  finally show ?thesis by (simp add: add_diff_eq)
qed

lemma map_ends: "0 < n \<Longrightarrow> map f [0..<Suc n] = f 0 # map f [1..<n] @ [f n]"
  by (simp add: upt_conv_Cons)

lemma span_one:
  fixes v c :: nat
  assumes "v div 4096 = (v + c - 1) div 4096" and "0 < c"
  shows "c \<le> 4096 - v mod 4096"
proof -
  have "v + c - 1 < 4096 + v div 4096 * 4096" using dividend_less_div_times [of 4096 "v + c - 1"] assms(1) by simp
  moreover have "v div 4096 * 4096 + v mod 4096 = v" by simp
  ultimately show ?thesis using assms(2) by linarith
qed

lemma span_more:
  fixes v c :: nat
  assumes "0 < (v + c - 1) div 4096 - v div 4096"
  shows "min c (4096 - v mod 4096) + ((v + c - 1) div 4096 - v div 4096 - 1) * 4096 + (v + c - 1) mod 4096 = c - 1"
proof -
  obtain d where d: "(v + c - 1) div 4096 = v div 4096 + Suc d" using assms by (metis less_imp_Suc_add zero_less_diff add_Suc_right)
  define q r R where "q = v div 4096" and "r = v mod 4096" and "R = (v + c - 1) mod 4096"
  have "(v div 4096 + Suc d) * 4096 + (v + c - 1) mod 4096 = v + c - 1"
    using div_mult_mod_eq [of "v + c - 1" 4096] unfolding d .
  then have L: "q * 4096 + d * 4096 + 4096 + R = v + c - 1" unfolding q_def R_def by (simp add: add_mult_distrib)
  have V: "q * 4096 + r = v" "r < 4096" unfolding q_def r_def by simp_all
  then have "4096 - r \<le> c" using L by linarith
  then have "min c (4096 - r) = 4096 - r" "q + Suc d - q - 1 = d" by simp_all
  then have "min c (4096 - r) + (q + Suc d - q - 1) * 4096 + R = c - 1" using L V by linarith
  then show ?thesis unfolding d q_def r_def R_def .
qed

text \<open>
  C35: \<open>vmmap_read\<close> and \<open>vmmap_write\<close> copy a byte too few across pages. When the range lies in one page, the part of
  the page that they copy is the whole range; when it spans several pages, the parts of the pages add up
  to one byte less, and the last byte of the range is never copied.
\<close>

theorem page_chunks_total:
  assumes count: "0 < count" "unat vaddr + unat count \<le> 2 ^ 32" and addr: "\<forall>i. unat (addr i) + 4096 + unat count < 2 ^ 32"
  shows "sum_list (map (\<lambda>i. unat (snd (page_chunk vaddr count i (addr i))))
      (vfns (ADDR_TO_PN vaddr) (ADDR_TO_PN (last_vaddr vaddr count))))
    = (if ADDR_TO_PN vaddr = ADDR_TO_PN (last_vaddr vaddr count) then unat count else unat count - 1)"
proof -
  let ?lo = "ADDR_TO_PN vaddr" and ?hi = "ADDR_TO_PN (last_vaddr vaddr count)"
  let ?f = "\<lambda>i. unat (snd (page_chunk vaddr count i (addr i)))"
  define n where "n = unat ?hi - unat ?lo"
  have c: "0 < unat count" using count(1) by (simp add: word_less_nat_alt)
  have last: "unat (last_vaddr vaddr count) = unat vaddr + unat count - 1"
    unfolding last_vaddr_def by (rule unat_last [OF count])
  have hi: "unat ?hi = unat ?lo + n" "unat ?lo \<le> unat ?hi"
    using c last unfolding n_def by (simp_all add: unat_ADDR_TO_PN div_le_mono)
  have lo: "unat ?hi < 2 ^ 20" by (rule unat_ADDR_TO_PN_less)
  have nth: "unat (?lo + of_nat k) = unat ?lo + k" if "k \<le> n" for k
    using that hi lo by (simp add: unat_word_ariths unat_of_nat)
  have vf: "vfns ?lo ?hi = map (\<lambda>k. ?lo + of_nat k) [0..<Suc n]"
    using hi unfolding vfns_def n_def by (simp add: Suc_diff_le)
  have first: "?f ?lo = min (unat count) (4096 - unat vaddr mod 4096)" by (rule page_chunk_first [OF spec [OF addr]])
  show ?thesis
  proof (cases "n = 0")
    case True
    then have eq: "?lo = ?hi" using hi by (simp add: word_unat_eq_iff)
    then have "unat vaddr div 4096 = (unat vaddr + unat count - 1) div 4096" using last by (metis unat_ADDR_TO_PN)
    then have "unat count \<le> 4096 - unat vaddr mod 4096" by (rule span_one [OF _ c])
    then show ?thesis using True eq first vf by simp
  next
    case False
    then have ne: "?hi \<noteq> ?lo" using hi by auto
    have mid: "map (\<lambda>k. ?f (?lo + of_nat k)) [1..<n] = map (\<lambda>_. 4096) [1..<n]"
    proof (rule map_cong [OF refl])
      fix k assume "k \<in> set [1..<n]"
      then have "unat (?lo + of_nat k) \<noteq> unat ?lo" "unat (?lo + of_nat k) \<noteq> unat ?hi" using nth [of k] hi by auto
      then show "?f (?lo + of_nat k) = 4096" by (intro page_chunk_middle) auto
    qed
    have "?lo + of_nat n = ?hi" using nth [of n] hi by (simp add: word_unat_eq_iff)
    then have sum: "sum_list (map ?f (vfns ?lo ?hi)) = ?f ?lo + (n - 1) * 4096 + ?f ?hi"
      unfolding vf map_map o_def using False map_ends [of n "\<lambda>k. ?f (?lo + of_nat k)"] mid
      by (simp add: map_replicate_const sum_list_replicate)
    have fin: "?f ?hi = (unat vaddr + unat count - 1) mod 4096" using page_chunk_last [OF ne] last by simp
    have n: "(unat vaddr + unat count - 1) div 4096 - unat vaddr div 4096 = n"
      unfolding n_def unat_ADDR_TO_PN last ..
    have "sum_list (map ?f (vfns ?lo ?hi)) = unat count - 1"
      using span_more [of "unat vaddr" "unat count", unfolded n] False unfolding sum first fin by blast
    then show ?thesis using ne by (simp only: if_not_P [OF ne [symmetric]])
  qed
qed

theorem page_chunks_total_witness:
  "sum_list (map (\<lambda>i. unat (snd (page_chunk 0x400FFF 2 i 0x1000)))
    (vfns (ADDR_TO_PN 0x400FFF) (ADDR_TO_PN (last_vaddr 0x400FFF 2)))) = 1"
proof -
  have "ADDR_TO_PN 0x400FFF \<noteq> ADDR_TO_PN (last_vaddr 0x400FFF 2)"
    by (simp add: last_vaddr_def ADDR_TO_PN_def word_unat_eq_iff unat_drop_bit_eq)
  then show ?thesis using page_chunks_total [of 2 "0x400FFF" "\<lambda>_. 0x1000"] by simp
qed

section \<open>Cloning\<close>

lemma vma_upd_eq_Ret [kres_simps]:
  "vma_upd v f s = Ret u s' \<longleftrightarrow> (\<exists>a. vmareas s v = Some a \<and> s' = s\<lparr>vmareas := (vmareas s)(v \<mapsto> f a)\<rparr>)"
  by (auto simp: vma_upd_def kres_simps)

definition copy_of :: "ptr \<Rightarrow> ptr \<Rightarrow> vmarea \<Rightarrow> vmarea" where
  "copy_of nm x a = a\<lparr>vma_id := x, vma_vmmap := Some nm, vma_obj := None, vma_olink := None\<rparr>"

lemma copy_of_fields:
  "n\<lparr>vma_id := x, vma_start := vma_start a, vma_end := vma_end a, vma_off := vma_off a, vma_prot := vma_prot a,
     vma_flags := vma_flags a, vma_vmmap := Some nm, vma_obj := None, vma_olink := None\<rparr> = copy_of nm x a"
  by (cases n, cases a) (simp add: copy_of_def)

lemma clone_areas_Cons:
  assumes c: "clone_areas env nm (v # vs) s = Ret (Some r) s'" and fresh: "allocs_fresh env" and m: "vmmaps s nm = Some m"
    and a: "vmareas s v = Some a"
  obtains x where "vmareas s x = None"
    "clone_areas env nm vs (s\<lparr>vmareas := (vmareas s)(x \<mapsto> copy_of nm x a),
      vmmaps := (vmmaps s)(nm \<mapsto> m\<lparr>vmn_list := vmn_list m @ [x]\<rparr>)\<rparr>) = Ret (Some r) s'"
proof -
  obtain x where x: "vmarea_slab env (vmareas s) = Some x" using c by (auto simp: vmarea_alloc_def kres_simps split: option.splits)
  then have n: "vmareas s x = None" using fresh by (simp add: allocs_fresh_def)
  then have "v \<noteq> x" using a by auto
  then show thesis using that [OF n] c m a x by (simp add: vmarea_alloc_def kres_simps copy_of_fields)
qed

lemma clone_areas_all:
  assumes "clone_areas env nm vs s = Ret (Some r) s'" and "allocs_fresh env" and "vmmaps s nm = Some m"
    and "\<forall>v\<in>set vs. vmareas s v \<noteq> None"
  shows "\<exists>xs h. r = nm \<and> s' = s\<lparr>vmareas := h, vmmaps := (vmmaps s)(nm \<mapsto> m\<lparr>vmn_list := vmn_list m @ xs\<rparr>)\<rparr>
    \<and> length xs = length vs \<and> distinct xs \<and> (\<forall>x\<in>set xs. vmareas s x = None) \<and> (\<forall>u. u \<notin> set xs \<longrightarrow> h u = vmareas s u)
    \<and> (\<forall>(v, x)\<in>set (zip vs xs). h x = map_option (copy_of nm x) (vmareas s v))"
  using assms(1,3,4)
proof (induction vs arbitrary: s m)
  case Nil
  then show ?case by (intro exI [of _ "[]"] exI [of _ "vmareas s"]) (simp add: fun_upd_idem)
next
  case (Cons v vs)
  obtain a where a: "vmareas s v = Some a" using Cons.prems(3) by auto
  obtain x where x: "vmareas s x = None" and rest: "clone_areas env nm vs (s\<lparr>vmareas := (vmareas s)(x \<mapsto> copy_of nm x a),
      vmmaps := (vmmaps s)(nm \<mapsto> m\<lparr>vmn_list := vmn_list m @ [x]\<rparr>)\<rparr>) = Ret (Some r) s'" (is "clone_areas env nm vs ?s = _")
    by (rule clone_areas_Cons [OF Cons.prems(1) assms(2) Cons.prems(2) a])
  have ex: "\<forall>v\<in>set vs. vmareas ?s v \<noteq> None" using Cons.prems(3) by simp
  have m': "vmmaps ?s nm = Some (m\<lparr>vmn_list := vmn_list m @ [x]\<rparr>)" by simp
  obtain xs h where r: "r = nm" and s': "s' = ?s\<lparr>vmareas := h, vmmaps := (vmmaps ?s)(nm \<mapsto> m\<lparr>vmn_list := vmn_list m @ [x]\<rparr>
        \<lparr>vmn_list := vmn_list (m\<lparr>vmn_list := vmn_list m @ [x]\<rparr>) @ xs\<rparr>)\<rparr>"
    and xs: "length xs = length vs" "distinct xs" "\<forall>x\<in>set xs. vmareas ?s x = None" "\<forall>u. u \<notin> set xs \<longrightarrow> h u = vmareas ?s u"
    and zip: "\<forall>(v, y)\<in>set (zip vs xs). h y = map_option (copy_of nm y) (vmareas ?s v)"
    using Cons.IH [OF rest m' ex] by blast
  have nx: "x \<notin> set xs" using xs(3) by auto
  have Z: "h y = map_option (copy_of nm y) (vmareas s v')" if "(v', y) \<in> set (zip vs xs)" for v' y
  proof -
    have "v' \<noteq> x" using set_zip_leftD [OF that] Cons.prems(3) x by auto
    then show ?thesis using zip that by auto
  qed
  have hx: "h x = Some (copy_of nm x a)" using xs(4) nx by simp
  have S: "s' = s\<lparr>vmareas := h, vmmaps := (vmmaps s)(nm \<mapsto> m\<lparr>vmn_list := vmn_list m @ (x # xs)\<rparr>)\<rparr>"
    using s' by simp
  have new: "vmareas s y = None" if "y \<in> set (x # xs)" for y using that xs(3) x by (auto split: if_splits)
  have old: "h u = vmareas s u" if "u \<notin> set (x # xs)" for u using that xs(4) by simp
  show ?case
    by (rule exI [of _ "x # xs"], rule exI [of _ h], intro conjI allI ballI impI)
      (use r S xs(1,2) nx new old Z hx a in \<open>auto simp del: fun_upd_apply\<close>)
qed

text \<open>The areas of an address space and their addresses.\<close>

lemma load_map_Ret:
  "load_map mp s = Ret m s \<longleftrightarrow> (\<exists>n. vmmaps s mp = Some n \<and> those (map (vmareas s) (vmn_list n)) = Some (vmm_list m)
     \<and> m = \<lparr>vmm_id = mp, vmm_list = vmm_list m, vmm_proc = vmn_proc n\<rparr>)"
  by (auto simp: load_map_def kres_simps split: option.splits)

lemma those_map_Some: "those (map f xs) = Some ys \<longleftrightarrow> list_all2 (\<lambda>x y. f x = Some y) xs ys"
  by (induction xs arbitrary: ys) (auto simp: list_all2_Cons1 split: option.splits)

lemma clone_copies:
  assumes fresh: "allocs_fresh env" and l: "load_map mp s = Ret m s" and c: "vmmap_clone env mp s = Ret (Some nm) s'"
  shows "vmmaps s nm = None \<and> load_map mp s' = Ret m s' \<and> (\<exists>ha hm. s' = s\<lparr>vmareas := ha, vmmaps := hm\<rparr>)
    \<and> (\<exists>xs. distinct xs \<and> (\<forall>x\<in>set xs. vmareas s x = None) \<and> length xs = length (vmm_list m)
      \<and> load_map nm s' = Ret \<lparr>vmm_id = nm, vmm_list = map2 (copy_of nm) xs (vmm_list m), vmm_proc = None\<rparr> s')"
proof -
  obtain n where n: "vmmaps s mp = Some n" "list_all2 (\<lambda>v a. vmareas s v = Some a) (vmn_list n) (vmm_list m)"
    "m = \<lparr>vmm_id = mp, vmm_list = vmm_list m, vmm_proc = vmn_proc n\<rparr>"
    using l by (auto simp: load_map_Ret those_map_Some)
  obtain q where q: "vmmap_slab env (vmmaps s) = Some q" using c by (auto simp: vmmap_clone_def vmmap_create_def split: option.splits)
  then have fq: "vmmaps s q = None" using fresh by (simp add: allocs_fresh_def)
  then have ne: "mp \<noteq> q" using n(1) by auto
  have c': "clone_areas env q (vmn_list n) (s\<lparr>vmmaps := (vmmaps s)(q \<mapsto> \<lparr>vmn_list = [], vmn_proc = None\<rparr>)\<rparr>) = Ret (Some nm) s'"
    (is "clone_areas env q _ ?s = _")
    using c q n(1) ne by (simp add: vmmap_clone_def vmmap_create_def)
  have ex: "\<forall>v\<in>set (vmn_list n). vmareas ?s v \<noteq> None" using n(2) by (auto simp: list_all2_conv_all_nth in_set_conv_nth)
  obtain xs h where nm: "nm = q" and s': "s' = s\<lparr>vmareas := h, vmmaps := (vmmaps s)(q \<mapsto> \<lparr>vmn_list = xs, vmn_proc = None\<rparr>)\<rparr>"
    and xs: "length xs = length (vmn_list n)" "distinct xs" "\<forall>x\<in>set xs. vmareas s x = None" "\<forall>u. u \<notin> set xs \<longrightarrow> h u = vmareas s u"
    and zip: "\<forall>(v, x)\<in>set (zip (vmn_list n) xs). h x = map_option (copy_of q x) (vmareas s v)"
    using clone_areas_all [OF c' fresh _ ex] by auto
  have len: "length xs = length (vmm_list m)" using xs(1) n(2) by (simp add: list_all2_lengthD)
  have A: "list_all2 (\<lambda>x a. h x = Some a) xs (map2 (copy_of q) xs (vmm_list m))"
  proof (rule list_all2_all_nthI)
    fix i assume "i < length xs"
    then have "(vmn_list n ! i, xs ! i) \<in> set (zip (vmn_list n) xs)" "vmareas s (vmn_list n ! i) = Some (vmm_list m ! i)"
      using xs(1) n(2) by (auto simp: in_set_zip list_all2_conv_all_nth)
    then show "h (xs ! i) = Some (map2 (copy_of q) xs (vmm_list m) ! i)" using zip \<open>i < length xs\<close> len by auto
  qed (use len in simp)
  have B: "list_all2 (\<lambda>v a. h v = Some a) (vmn_list n) (vmm_list m)"
  proof (rule list.rel_mono_strong [OF n(2)])
    fix v a assume "v \<in> set (vmn_list n)" "vmareas s v = Some a"
    moreover from this have "v \<notin> set xs" using xs(3) by auto
    ultimately show "h v = Some a" using xs(4) by simp
  qed
  have "load_map q s' = Ret \<lparr>vmm_id = q, vmm_list = map2 (copy_of q) xs (vmm_list m), vmm_proc = None\<rparr> s'"
    unfolding load_map_Ret those_map_Some using A by (simp add: s')
  moreover have "load_map mp s' = Ret m s'" unfolding load_map_Ret those_map_Some
    by (rule exI [of _ n], intro conjI n(3)) (use n(1) ne B in \<open>simp_all add: s'\<close>)
  ultimately show ?thesis using fq nm xs(2,3) len s' by blast
qed

lemma clone_areas_succeeds:
  assumes fresh: "allocs_fresh env" and "vmmaps s nm = Some m" and "\<forall>v\<in>set vs. vmareas s v \<noteq> None"
    and "slab_room (vmarea_slab env) (length vs) (vmareas s)"
  shows "\<exists>s'. clone_areas env nm vs s = Ret (Some nm) s'"
  using assms(2-4)
proof (induction vs arbitrary: s m)
  case (Cons v vs)
  have room: "slab_room (vmarea_slab env) (Suc (length vs)) (vmareas s)" using Cons.prems(3) by simp
  obtain x where x: "vmarea_slab env (vmareas s) = Some x" "vmareas s x = None"
    using slab_room_slab [OF room] fresh by (auto simp: allocs_fresh_def)
  obtain a where a: "vmareas s v = Some a" using Cons.prems(2) by auto
  then have ne: "v \<noteq> x" using x(2) by auto
  let ?s = "s\<lparr>vmareas := (vmareas s)(x \<mapsto> copy_of nm x a), vmmaps := (vmmaps s)(nm \<mapsto> m\<lparr>vmn_list := vmn_list m @ [x]\<rparr>)\<rparr>"
  have "slab_room (vmarea_slab env) (length vs) (vmareas ?s)" using slab_room_new [OF room, of "vmareas ?s" x] x(2) by auto
  then obtain s' where "clone_areas env nm vs ?s = Ret (Some nm) s'" using Cons.IH [of ?s] Cons.prems(2) by fastforce
  then show ?case using x a ne Cons.prems(1) by (simp add: vmarea_alloc_def kres_simps copy_of_fields)
qed simp

text \<open>
  C22: \<open>vmmap_clone\<close> copies the areas. With memory for the new address space and its areas it succeeds; the new address space has new areas with the ranges, offsets,
  permissions and flags of the old ones, in their order, which belong to it and have no object yet; the old address
  space has what it had, and nothing else changes.
\<close>

theorem vmmap_clone_copies:
  assumes fresh: "allocs_fresh env" and l: "load_map mp s = Ret m s" and nm: "vmmap_slab env (vmmaps s) = Some nm"
    and room: "slab_room (vmarea_slab env) (length (vmm_list m)) (vmareas s)"
  shows "\<exists>s'. vmmap_clone env mp s = Ret (Some nm) s' \<and> vmmaps s nm = None \<and> load_map mp s' = Ret m s'
    \<and> (\<exists>ha hm. s' = s\<lparr>vmareas := ha, vmmaps := hm\<rparr>)
    \<and> (\<exists>xs. distinct xs \<and> (\<forall>x\<in>set xs. vmareas s x = None) \<and> length xs = length (vmm_list m)
      \<and> load_map nm s' = Ret \<lparr>vmm_id = nm, vmm_list = map2 (copy_of nm) xs (vmm_list m), vmm_proc = None\<rparr> s')"
proof -
  obtain n where n: "vmmaps s mp = Some n" "list_all2 (\<lambda>v a. vmareas s v = Some a) (vmn_list n) (vmm_list m)"
    using l by (auto simp: load_map_Ret those_map_Some)
  have "vmmaps s nm = None" using nm fresh by (simp add: allocs_fresh_def)
  then have ne: "mp \<noteq> nm" using n(1) by auto
  let ?s = "s\<lparr>vmmaps := (vmmaps s)(nm \<mapsto> \<lparr>vmn_list = [], vmn_proc = None\<rparr>)\<rparr>"
  have "\<forall>v\<in>set (vmn_list n). vmareas ?s v \<noteq> None" using n(2) by (auto simp: list_all2_conv_all_nth in_set_conv_nth)
  moreover have "slab_room (vmarea_slab env) (length (vmn_list n)) (vmareas ?s)" using room n(2) by (simp add: list_all2_lengthD)
  ultimately obtain s' where "clone_areas env nm (vmn_list n) ?s = Ret (Some nm) s'"
    using clone_areas_succeeds [OF fresh, of ?s nm "\<lparr>vmn_list = [], vmn_proc = None\<rparr>" "vmn_list n"] by auto
  then have "vmmap_clone env mp s = Ret (Some nm) s'" using nm n(1) ne by (simp add: vmmap_clone_def vmmap_create_def)
  then show ?thesis using clone_copies [OF fresh l] by blast
qed

text \<open>An address space with one area, the pages \<open>0x400\<close> to \<open>0x402\<close>, readable only.\<close>

definition example_area :: vmarea where
  "example_area = \<lparr>vma_id = 1, vma_start = 0x400, vma_end = 0x402, vma_off = 0, vma_prot = 1, vma_flags = 1,
     vma_vmmap = Some 1, vma_obj = Some 1, vma_olink = None\<rparr>"

definition example_space :: kstate where
  "example_space = (kstate0 (\<lambda>_. None))\<lparr>procs := [1 \<mapsto> example_proc], vmmaps := [1 \<mapsto> \<lparr>vmn_list = [1], vmn_proc = Some 1\<rparr>],
     vmareas := [1 \<mapsto> example_area]\<rparr>"

lemma example_space_loaded: "load_map 1 example_space = Ret \<lparr>vmm_id = 1, vmm_list = [example_area], vmm_proc = Some 1\<rparr> example_space"
  by (simp add: load_map_def example_space_def)

theorem vmmap_clone_copies_witness:
  "\<exists>s' x. vmmap_clone example_env 1 example_space = Ret (Some 2) s' \<and> vmareas example_space x = None
    \<and> load_map 1 s' = Ret \<lparr>vmm_id = 1, vmm_list = [example_area], vmm_proc = Some 1\<rparr> s'
    \<and> load_map 2 s' = Ret \<lparr>vmm_id = 2, vmm_list = [copy_of 2 x example_area], vmm_proc = None\<rparr> s'"
proof -
  have nm: "vmmap_slab example_env (vmmaps example_space) = Some 2"
    unfolding example_env_sel by (simp add: example_space_def kstate0_def first_free_def)
  have r: "slab_room (vmarea_slab example_env) (length [example_area]) (vmareas example_space)"
    unfolding example_env_sel by (rule first_free_slab_room) (simp_all add: example_space_def kstate0_def)
  show ?thesis using vmmap_clone_copies [OF example_env_fresh example_space_loaded nm] r by (fastforce simp: length_Suc_conv)
qed

end
