(* ===== verification/Access.thy ===== *)
theory Access
  imports Vmmap
begin

text \<open>
  Access to user memory, \<open>src/kernel/api/access.c\<close>: permission checks on an address and on a range,
  and copying between the kernel and the address space of the current process. The loop of
  \<open>range_perm\<close> runs over page numbers below \<open>2 ^ 20\<close> and so never wraps around.
\<close>

section \<open>Operations\<close>

definition addr_perm :: "kenv \<Rightarrow> proc \<Rightarrow> u32 \<Rightarrow> u32 \<Rightarrow> bool kop" where
  "addr_perm env p vaddr perm s =
     (case p_vmmap p of
        None \<Rightarrow> Stop KASSERT_failed
      | Some mp \<Rightarrow>
          bindK (load_map mp s) (\<lambda>m s.
            case vmmap_lookup m (ADDR_TO_PN vaddr) of
              None \<Rightarrow> Ret False s
            | Some vma \<Rightarrow> if vma_prot vma AND perm \<noteq> perm then Ret False s else Ret True s))"

primrec perm_loop :: "kenv \<Rightarrow> proc \<Rightarrow> u32 \<Rightarrow> u32 list \<Rightarrow> bool kop" where
  "perm_loop env p perm [] s = Ret True s"
| "perm_loop env p perm (i # is) s =
     bindK (addr_perm env p (PN_TO_ADDR i) perm s) (\<lambda>ok s.
       if \<not> ok then Ret False s else perm_loop env p perm is s)"

definition range_perm :: "kenv \<Rightarrow> proc \<Rightarrow> u32 \<Rightarrow> u32 \<Rightarrow> u32 \<Rightarrow> bool kop" where
  "range_perm env p avaddr len perm =
     perm_loop env p perm (vfns (ADDR_TO_PN avaddr) (ADDR_TO_PN (avaddr + len - 1)))"

definition copy_from_user :: "kenv \<Rightarrow> u32 \<Rightarrow> u32 \<Rightarrow> u32 \<Rightarrow> (errno + unit) kop" where
  "copy_from_user env kaddr uaddr nbytes s =
     bindK (cur_proc s) (\<lambda>(_, p) s.
     bindK (range_perm env p uaddr nbytes (PROT_READ (cfg env)) s) (\<lambda>ok s.
       if \<not> ok then Ret (Inl EFAULT) s
       else case p_vmmap p of
              None \<Rightarrow> Stop BAD_POINTER
            | Some mp \<Rightarrow> vmmap_read env mp uaddr kaddr nbytes s))"

definition copy_to_user :: "kenv \<Rightarrow> u32 \<Rightarrow> u32 \<Rightarrow> u32 \<Rightarrow> (errno + unit) kop" where
  "copy_to_user env uaddr kaddr nbytes s =
     bindK (cur_proc s) (\<lambda>(_, p) s.
     bindK (range_perm env p uaddr nbytes (PROT_WRITE (cfg env)) s) (\<lambda>ok s.
       if \<not> ok then Ret (Inl EFAULT) s
       else case p_vmmap p of
              None \<Rightarrow> Stop BAD_POINTER
            | Some mp \<Rightarrow> vmmap_write env mp uaddr kaddr nbytes s))"

text \<open>A string of the user, its address and its length; and a vector of strings.\<close>

record argstr = as_str :: u32 as_len :: u32

record argvec = av_vec :: u32 av_len :: u32

text \<open>How a string descriptor lies in memory, which the headers decide.\<close>

record argabi =
  SIZEOF_ARGSTR :: u32
  argstr_at :: "(u32 \<Rightarrow> u8) \<Rightarrow> u32 \<Rightarrow> argstr"

definition set_errno_num :: "int \<Rightarrow> unit kop" where
  "set_errno_num n s =
     (case curthr s of
        None \<Rightarrow> Stop BAD_POINTER
      | Some t \<Rightarrow> thr_update t (\<lambda>th. th\<lparr>kt_errno := n\<rparr>) s)"

definition set_errno :: "kenv \<Rightarrow> errno \<Rightarrow> unit kop" where
  "set_errno env e = set_errno_num (int (errno_num (cfg env) e))"

definition get_errno :: "int kop" where
  "get_errno s =
     (case curthr s of
        None \<Rightarrow> Stop BAD_POINTER
      | Some t \<Rightarrow> bindK (deref (threads s) t s) (\<lambda>th s. Ret (kt_errno th) s))"

definition user_strdup :: "kenv \<Rightarrow> argstr \<Rightarrow> u32 option kop" where
  "user_strdup env ustr s =
     bindK (kmalloc env (as_len ustr + 1) s) (\<lambda>r s.
       case r of
         None \<Rightarrow> bindK (set_errno env ENOMEM s) (\<lambda>_ s. Ret None s)
       | Some kstr \<Rightarrow>
           bindK (copy_from_user env kstr (as_str ustr) (as_len ustr + 1) s) (\<lambda>ret s.
             case ret of
               Inl e \<Rightarrow> bindK (set_errno env e s) (\<lambda>_ s. bindK (kfree env kstr s) (\<lambda>_ s. Ret None s))
             | Inr _ \<Rightarrow> Ret (Some kstr) s))"

text \<open>
  The loop that frees the strings of a vector up to the first null pointer. It reads the memory of the
  vector, whatever it holds, and runs until it meets a null pointer; the bound \<open>n\<close> is on the number of entries.
\<close>

primrec free_strings :: "nat \<Rightarrow> kenv \<Rightarrow> u32 \<Rightarrow> unit kop" where
  "free_strings 0 env p s = Stop OUT_OF_FUEL"
| "free_strings (Suc n) env p s =
     (if load32 (kmem s) p = 0 then Ret () s
      else bindK (kfree env (load32 (kmem s) p) s) (\<lambda>_ s. free_strings n env (p + 4) s))"

text \<open>The loop over the entries of the vector: whether all strings were copied.\<close>

primrec dup_strings :: "'z argabi_scheme \<Rightarrow> kenv \<Rightarrow> u32 \<Rightarrow> u32 \<Rightarrow> u32 list \<Rightarrow> bool kop" where
  "dup_strings abi env temp_kvec kvec [] s = Ret True s"
| "dup_strings abi env temp_kvec kvec (i # is) s =
     bindK (user_strdup env (argstr_at abi (kmem s) (temp_kvec + i * SIZEOF_ARGSTR abi)) s) (\<lambda>r s.
       case r of
         None \<Rightarrow> Ret False (store32 (kvec + 4 * i) 0 s)
       | Some kstr \<Rightarrow> dup_strings abi env temp_kvec kvec is (store32 (kvec + 4 * i) kstr s))"

text \<open>The end of \<open>user_vecdup\<close> after an error; a null pointer is the address 0.\<close>

definition vecdup_fail :: "nat \<Rightarrow> kenv \<Rightarrow> u32 \<Rightarrow> u32 \<Rightarrow> int \<Rightarrow> u32 option kop" where
  "vecdup_fail n env kvec temp_kvec err s =
     bindK (if kvec = 0 then Ret () s
            else bindK (free_strings n env kvec s) (\<lambda>_ s. kfree env kvec s)) (\<lambda>_ s.
     bindK (kfree env temp_kvec s) (\<lambda>_ s.
     bindK (set_errno_num err s) (\<lambda>_ s.
       Ret None s)))"

definition user_vecdup :: "nat \<Rightarrow> 'z argabi_scheme \<Rightarrow> kenv \<Rightarrow> argvec \<Rightarrow> u32 option kop" where
  "user_vecdup n abi env uvec s =
     (let num = (\<lambda>e. int (errno_num (cfg env) e)) in
      bindK (kmalloc env ((av_len uvec + 1) * SIZEOF_ARGSTR abi) s) (\<lambda>r s.
        case r of
          None \<Rightarrow> vecdup_fail n env 0 0 (num ENOMEM) s
        | Some temp_kvec \<Rightarrow>
            bindK (kmalloc env ((av_len uvec + 1) * 4) s) (\<lambda>r s.
              case r of
                None \<Rightarrow> vecdup_fail n env 0 temp_kvec (num ENOMEM) s
              | Some kvec \<Rightarrow>
                  bindK (copy_from_user env temp_kvec (av_vec uvec) ((av_len uvec + 1) * SIZEOF_ARGSTR abi) s) (\<lambda>ret s.
                    case ret of
                      Inl e \<Rightarrow> vecdup_fail n env kvec temp_kvec (num e) s
                    | Inr _ \<Rightarrow>
                        bindK (dup_strings abi env temp_kvec kvec (map of_nat [0..<unat (av_len uvec)]) s) (\<lambda>ok s.
                          if \<not> ok
                          then bindK (get_errno s) (\<lambda>err s. vecdup_fail n env kvec temp_kvec err s)
                          else bindK (kfree env temp_kvec (store32 (kvec + 4 * av_len uvec) 0 s)) (\<lambda>_ s.
                                 Ret (Some kvec) s))))))"

section \<open>Permissions of a range\<close>

text \<open>
  The page numbers of the loop, and the areas of an address space.
\<close>

lemma vfns_eq: "unat lo \<le> unat hi \<Longrightarrow> set (vfns lo hi) = {v. lo \<le> v \<and> v \<le> hi}"
proof -
  assume le: "unat lo \<le> unat hi"
  have "v \<in> (\<lambda>k. lo + of_nat k) ` {0..<Suc (unat hi) - unat lo}" if v: "lo \<le> v" "v \<le> hi" for v
  proof -
    have "unat v - unat lo < Suc (unat hi) - unat lo" using v by (auto simp: word_le_nat_alt)
    moreover have "v = lo + of_nat (unat v - unat lo)"
      using v(1) by (simp add: word_le_nat_alt of_nat_diff)
    ultimately show ?thesis by (intro image_eqI [of _ _ "unat v - unat lo"]) auto
  qed
  moreover have "lo \<le> lo + of_nat k \<and> lo + of_nat k \<le> hi" if k: "k < Suc (unat hi) - unat lo" for k
  proof -
    have "unat hi < 2 ^ 32" using unsigned_less [of hi, where ?'a = nat] by simp
    then have "unat (lo + of_nat k) = unat lo + k" using k by (simp add: unat_word_ariths unat_of_nat)
    then show ?thesis using k by (simp add: word_le_nat_alt)
  qed
  ultimately show ?thesis by (auto simp: vfns_def)
qed

definition areas :: "kstate \<Rightarrow> ptr \<Rightarrow> vmarea list" where
  "areas s mp = (case load_map mp s of Ret m _ \<Rightarrow> vmm_list m | _ \<Rightarrow> [])"

definition map_loaded :: "kstate \<Rightarrow> ptr \<Rightarrow> bool" where
  "map_loaded s mp \<longleftrightarrow> (\<exists>m. load_map mp s = Ret m s)"

text \<open>\<open>allows s mp perm v\<close>: page \<open>v\<close> is mapped with at least the given permissions.\<close>

definition allows :: "kstate \<Rightarrow> ptr \<Rightarrow> u32 \<Rightarrow> u32 \<Rightarrow> bool" where
  "allows s mp perm v \<longleftrightarrow> (\<exists>prot fl ob n. view (areas s mp) v = Some (prot, fl, ob, n) \<and> prot AND perm = perm)"

lemma addr_perm_eq:
  assumes "map_loaded s mp" and "p_vmmap p = Some mp"
  shows "addr_perm env p vaddr perm s = Ret (allows s mp perm (ADDR_TO_PN vaddr)) s"
proof -
  obtain m where m: "load_map mp s = Ret m s" using assms(1) by (auto simp: map_loaded_def)
  then show ?thesis using assms(2)
    by (cases "vmmap_lookup m (ADDR_TO_PN vaddr)")
      (auto simp: addr_perm_def allows_def areas_def view_def vmmap_lookup_covers page_of_def)
qed

lemma perm_loop_eq:
  assumes "map_loaded s mp" and "p_vmmap p = Some mp" and "\<forall>i\<in>set is. unat i < 2 ^ 20"
  shows "perm_loop env p perm is s = Ret (\<forall>i\<in>set is. allows s mp perm i) s"
  using assms(3)
proof (induction "is")
  case (Cons i "is")
  then have "ADDR_TO_PN (PN_TO_ADDR i) = i" by (intro ADDR_TO_PN_PN_TO_ADDR) simp
  then show ?case using Cons addr_perm_eq [OF assms(1,2), of env "PN_TO_ADDR i" perm] by auto
qed simp

lemma vfns_small: "i \<in> set (vfns (ADDR_TO_PN a) (ADDR_TO_PN b)) \<Longrightarrow> unat i < 2 ^ 20"
proof (cases "unat (ADDR_TO_PN a) \<le> unat (ADDR_TO_PN b)")
  case True
  moreover assume "i \<in> set (vfns (ADDR_TO_PN a) (ADDR_TO_PN b))"
  ultimately have "unat i \<le> unat (ADDR_TO_PN b)" by (simp add: vfns_eq word_le_nat_alt)
  then show ?thesis using unat_ADDR_TO_PN_less [of b] by simp
qed (simp add: vfns_def)

lemma range_perm_loop:
  assumes "map_loaded s mp" and "p_vmmap p = Some mp"
  shows "range_perm env p avaddr len perm s =
    Ret (\<forall>i\<in>set (vfns (ADDR_TO_PN avaddr) (ADDR_TO_PN (avaddr + len - 1))). allows s mp perm i) s"
  unfolding range_perm_def by (rule perm_loop_eq [OF assms]) (auto dest: vfns_small)

lemma range_perm_iff:
  assumes "map_loaded s mp" and "p_vmmap p = Some mp" and "0 < len" and "unat avaddr + unat len \<le> 2 ^ 32"
  shows "range_perm env p avaddr len perm s =
    Ret (\<forall>a. unat avaddr \<le> unat a \<and> unat a < unat avaddr + unat len \<longrightarrow> allows s mp perm (ADDR_TO_PN a)) s"
proof -
  let ?lo = "ADDR_TO_PN avaddr" and ?hi = "ADDR_TO_PN (avaddr + len - 1)"
  have len: "0 < unat len" using assms(3) by (simp add: word_less_nat_alt)
  have last: "unat (avaddr + len - 1) = unat avaddr + unat len - 1" by (rule unat_last [OF assms(3,4)])
  have le: "unat ?lo \<le> unat ?hi" using len unfolding unat_ADDR_TO_PN last by (intro div_le_mono) simp
  have "(\<forall>i\<in>set (vfns ?lo ?hi). allows s mp perm i)
      \<longleftrightarrow> (\<forall>a. unat avaddr \<le> unat a \<and> unat a < unat avaddr + unat len \<longrightarrow> allows s mp perm (ADDR_TO_PN a))"
  proof (intro iffI allI ballI impI)
    fix a :: u32 assume all: "\<forall>i\<in>set (vfns ?lo ?hi). allows s mp perm i"
      and a: "unat avaddr \<le> unat a \<and> unat a < unat avaddr + unat len"
    have "ADDR_TO_PN a \<in> set (vfns ?lo ?hi)" unfolding vfns_eq [OF le]
      using a last by (auto simp: word_le_nat_alt unat_ADDR_TO_PN intro!: div_le_mono)
    then show "allows s mp perm (ADDR_TO_PN a)" using all by blast
  next
    fix i assume all: "\<forall>a. unat avaddr \<le> unat a \<and> unat a < unat avaddr + unat len \<longrightarrow> allows s mp perm (ADDR_TO_PN a)"
      and "i \<in> set (vfns ?lo ?hi)"
    then have i: "unat avaddr div 4096 \<le> unat i" "unat i \<le> (unat avaddr + unat len - 1) div 4096" "unat i < 2 ^ 20"
      using vfns_small [of i avaddr "avaddr + len - 1"] by (auto simp: vfns_eq [OF le] word_le_nat_alt unat_ADDR_TO_PN last)
    define a :: u32 where "a = (if i = ?lo then avaddr else PN_TO_ADDR i)"
    have "ADDR_TO_PN a = i" using ADDR_TO_PN_PN_TO_ADDR [OF i(3)] by (simp add: a_def)
    moreover have "unat avaddr \<le> unat a \<and> unat a < unat avaddr + unat len"
    proof (cases "i = ?lo")
      case True
      then show ?thesis using len by (simp add: a_def)
    next
      case False
      then have "unat avaddr div 4096 < unat i" using i(1) by (metis le_neq_implies_less unat_ADDR_TO_PN word_unat_eq_iff)
      then show ?thesis using False i(2,3) len unat_PN_TO_ADDR [OF i(3)] by (simp add: a_def div_less_iff_less_mult less_eq_div_iff_mult_less_eq)
    qed
    ultimately show "allows s mp perm i" using all by metis
  qed
  then show ?thesis using range_perm_loop [OF assms(1,2)] by simp
qed

lemma vfns_down:
  assumes "unat hi \<le> unat lo"
  shows "(\<forall>i\<in>set (vfns lo hi). P i) \<longleftrightarrow> hi \<noteq> lo \<or> P lo"
proof (cases "hi = lo")
  case True
  then show ?thesis by (auto simp: vfns_eq)
next
  case False
  then have "unat hi < unat lo" using assms by (metis le_neq_implies_less word_unat_eq_iff)
  then show ?thesis using False by (simp add: vfns_def)
qed

lemma range_perm_empty:
  assumes "map_loaded s mp" and "p_vmmap p = Some mp" and "avaddr \<noteq> 0"
  shows "range_perm env p avaddr 0 perm s = Ret (PAGE_ALIGNED avaddr \<or> allows s mp perm (ADDR_TO_PN avaddr)) s"
proof -
  have u: "unat (avaddr - 1) = unat avaddr - 1" using assms(3) by (simp add: unat_minus_one)
  obtain k where "unat avaddr = Suc k" using assms(3) by (metis not0_implies_Suc unat_eq_0)
  then have "(unat avaddr - 1) div 4096 \<noteq> unat avaddr div 4096 \<longleftrightarrow> unat avaddr mod 4096 = 0" by (simp add: div_Suc)
  then have "ADDR_TO_PN (avaddr - 1) \<noteq> ADDR_TO_PN avaddr \<longleftrightarrow> PAGE_ALIGNED avaddr"
    by (simp add: word_unat_eq_iff unat_ADDR_TO_PN u PAGE_ALIGNED_iff)
  moreover have "unat (ADDR_TO_PN (avaddr - 1)) \<le> unat (ADDR_TO_PN avaddr)"
    by (simp add: unat_ADDR_TO_PN u div_le_mono)
  ultimately show ?thesis using range_perm_loop [OF assms(1,2), of env avaddr 0 perm] vfns_down by simp
qed

lemma range_perm_all:
  assumes "map_loaded s mp" and "p_vmmap p = Some mp"
  shows "range_perm env p 0 0 perm s = Ret (\<forall>v. v < 2 ^ 20 \<longrightarrow> allows s mp perm v) s"
proof -
  have pn: "ADDR_TO_PN 0 = 0" "ADDR_TO_PN (- 1) = 2 ^ 20 - 1" by (simp_all add: ADDR_TO_PN_def mask_eq_exp_minus_1)
  have "set (vfns 0 (2 ^ 20 - 1)) = {v. v < 2 ^ 20}" by (subst vfns_eq) (auto simp: word_le_nat_alt word_less_nat_alt)
  then show ?thesis using range_perm_loop [OF assms, of env 0 0 perm] by (simp add: pn)
qed

lemma range_perm_wrapped:
  assumes "map_loaded s mp" and "p_vmmap p = Some mp" and "2 ^ 32 < unat avaddr + unat len"
  shows "range_perm env p avaddr len perm s =
    Ret (ADDR_TO_PN (avaddr + len - 1) \<noteq> ADDR_TO_PN avaddr \<or> allows s mp perm (ADDR_TO_PN avaddr)) s"
proof -
  have b: "unat avaddr < 2 ^ 32" "unat len < 2 ^ 32" using unsigned_less [where ?'b = 32 and ?'a = nat] by auto
  have sum: "unat (avaddr + len) = unat avaddr + unat len - 2 ^ 32"
    using assms(3) b by (simp add: unat_word_ariths le_mod_geq)
  then have "avaddr + len \<noteq> 0" using assms(3) by (metis unat_0 zero_less_diff less_numeral_extra(3))
  then have "unat (avaddr + len - 1) = unat avaddr + unat len - 2 ^ 32 - 1" using sum by (simp add: unat_minus_one)
  then have "unat (ADDR_TO_PN (avaddr + len - 1)) \<le> unat (ADDR_TO_PN avaddr)" using b by (simp add: unat_ADDR_TO_PN div_le_mono)
  then show ?thesis using range_perm_loop [OF assms(1,2), of env avaddr len perm] vfns_down by simp
qed

text \<open>
  C27: what \<open>range_perm\<close> answers, for every range. For a range of at least one byte that does not wrap around the end of memory
  the answer is whether every address of the range is mapped with the permissions asked for, although the code looks at one
  address per page. A range that wraps around is permitted whatever is mapped, unless its first and last byte are on the same
  page, which alone is looked at then. For the empty range the page of the address is looked at, unless the address is the start of a
  page, when the answer is yes; at address 0 all pages of memory are looked at.
\<close>

theorem range_perm_correct:
  assumes "map_loaded s mp" and "p_vmmap p = Some mp"
  shows "range_perm env p avaddr len perm s = Ret
    (if len = 0 then if avaddr = 0 then \<forall>v. v < 2 ^ 20 \<longrightarrow> allows s mp perm v
       else PAGE_ALIGNED avaddr \<or> allows s mp perm (ADDR_TO_PN avaddr)
     else if unat avaddr + unat len \<le> 2 ^ 32
     then \<forall>a. unat avaddr \<le> unat a \<and> unat a < unat avaddr + unat len \<longrightarrow> allows s mp perm (ADDR_TO_PN a)
     else ADDR_TO_PN (avaddr + len - 1) \<noteq> ADDR_TO_PN avaddr \<or> allows s mp perm (ADDR_TO_PN avaddr)) s"
  using range_perm_empty [OF assms] range_perm_all [OF assms] range_perm_iff [OF assms] range_perm_wrapped [OF assms]
  by (simp add: word_neq_0_conv)

theorem range_perm_correct_witness:
  "range_perm example_env example_proc 0x400FFF 2 1 example_space = Ret True example_space
    \<and> range_perm example_env example_proc 0xFFFFF000 0x2000 1 example_space = Ret True example_space
    \<and> range_perm example_env example_proc 0x800001 0 1 example_space = Ret False example_space"
proof -
  have "map_loaded example_space 1" using example_space_loaded by (auto simp: map_loaded_def)
  moreover have "p_vmmap example_proc = Some 1" by (simp add: example_proc_def)
  ultimately have r: "range_perm example_env example_proc avaddr len 1 example_space = Ret
    (if len = 0 then if avaddr = 0 then \<forall>v. v < 2 ^ 20 \<longrightarrow> allows example_space 1 1 v
       else PAGE_ALIGNED avaddr \<or> allows example_space 1 1 (ADDR_TO_PN avaddr)
     else if unat avaddr + unat len \<le> 2 ^ 32
     then \<forall>a. unat avaddr \<le> unat a \<and> unat a < unat avaddr + unat len \<longrightarrow> allows example_space 1 1 (ADDR_TO_PN a)
     else ADDR_TO_PN (avaddr + len - 1) \<noteq> ADDR_TO_PN avaddr \<or> allows example_space 1 1 (ADDR_TO_PN avaddr)) example_space"
    for avaddr len by (rule range_perm_correct)
  have al: "allows example_space 1 1 v \<longleftrightarrow> 0x400 \<le> v \<and> v < 0x402" for v
    by (auto simp: allows_def areas_def example_space_loaded [unfolded One_nat_def] view_def covers_def page_of_def example_area_def)
  have "range_perm example_env example_proc 0x400FFF 2 1 example_space = Ret True example_space"
    unfolding r by (auto simp: al [unfolded One_nat_def] word_le_nat_alt word_less_nat_alt unat_ADDR_TO_PN)
  moreover have "range_perm example_env example_proc 0xFFFFF000 0x2000 1 example_space = Ret True example_space"
    unfolding r by (simp add: ADDR_TO_PN_def)
  moreover have "range_perm example_env example_proc 0x800001 0 1 example_space = Ret False example_space"
    unfolding r by (simp add: al [unfolded One_nat_def] ADDR_TO_PN_def PAGE_ALIGNED_def PAGE_OFFSET_def)
  ultimately show ?thesis by blast
qed

text \<open>
  \<open>range_perm\<close> permits every range that wraps around. When the address of the last byte is on a lower page
  than the first, the loop does not run and the answer is yes, whatever is mapped.
\<close>

theorem range_perm_wraps:
  assumes "ADDR_TO_PN (avaddr + len - 1) < ADDR_TO_PN avaddr"
  shows "range_perm env p avaddr len perm s = Ret True s"
proof -
  have "unat (ADDR_TO_PN (avaddr + len - 1)) < unat (ADDR_TO_PN avaddr)" using assms by (simp add: word_less_nat_alt)
  then have "vfns (ADDR_TO_PN avaddr) (ADDR_TO_PN (avaddr + len - 1)) = []" by (simp add: vfns_def)
  then show ?thesis by (simp add: range_perm_def)
qed

theorem range_perm_wraps_witness:
  "range_perm example_env example_proc 0xFFFFF000 0x2000 7 example_space = Ret True example_space"
  by (rule range_perm_wraps) (simp add: ADDR_TO_PN_def)

lemma copy_from_user_denied:
  assumes "map_loaded s mp" and "curproc s = Some p" and "procs s p = Some pr" and "p_vmmap pr = Some mp"
    and "0 < n" and "unat ua + unat n \<le> 2 ^ 32"
    and bad: "unat ua \<le> unat a" "unat a < unat ua + unat n" "\<not> allows s mp (PROT_READ (cfg env)) (ADDR_TO_PN a)"
  shows "copy_from_user env ka ua n s = Ret (Inl EFAULT) s"
proof -
  have "cur_proc s = Ret (p, pr) s" using assms(2,3) by (simp add: cur_proc_def)
  then show ?thesis
    using range_perm_iff [OF assms(1,4,5,6), of env "PROT_READ (cfg env)"] bad by (auto simp: copy_from_user_def)
qed

text \<open>
  Copying from user memory without permission for the whole range fails with \<open>EFAULT\<close>
  and touches nothing.
\<close>

theorem copy_from_user_efault:
  assumes "map_loaded s mp" and "curproc s = Some p" and "procs s p = Some pr" and "p_vmmap pr = Some mp"
    and "0 < n" and "unat ua + unat n \<le> 2 ^ 32"
    and bad: "unat ua \<le> unat a" "unat a < unat ua + unat n" "\<not> allows s mp (PROT_READ (cfg env)) (ADDR_TO_PN a)"
  shows "copy_from_user env ka ua n s = Ret (Inl EFAULT) s"
  by (rule copy_from_user_denied [OF assms])

theorem copy_from_user_efault_witness:
  "copy_from_user example_env 0x9000 0x402000 4 example_space = Ret (Inl EFAULT) example_space"
proof (rule copy_from_user_efault [where mp = 1 and p = 1 and pr = example_proc and a = "0x402000"])
  show "map_loaded example_space 1" using example_space_loaded by (auto simp: map_loaded_def)
  show "\<not> allows example_space 1 (PROT_READ (cfg example_env)) (ADDR_TO_PN 0x402000)"
    by (simp add: allows_def areas_def example_space_loaded [unfolded One_nat_def] view_def covers_def example_area_def ADDR_TO_PN_def)
qed (simp_all add: example_space_def kstate0_def example_proc_def)

end
