(* ===== verification/Vnode.thy ===== *)
theory Vnode
  imports Vmmap
begin

text \<open>
  Vnodes, the part of \<open>src/kernel/fs/vnode.c\<close> that is not an entry point of their memory objects:
  finding or reading in a vnode (\<open>vget\<close>), the questions a file system asks when it is unmounted
  (\<open>vfs_is_in_use\<close>, \<open>vnode_inuse\<close>), flushing, and special files. A call through \<open>vn_ops\<close> goes to the
  file system or, for a special file, to the functions of this theory; the tables of special files
  hold null pointers where \<open>vop\<close> is None. The table of a vnode that is being read in is the file
  system's, which \<open>read_vnode\<close> sets.
\<close>

section \<open>Scanning a list of structures\<close>

text \<open>
  Several loops of the kernel walk a list of structures and stop at the first that passes a test.
  The locale says what such a loop does: \<open>hit\<close> is what it returns for the structure it stops at, and
  \<open>miss\<close> what it returns at the end of the list.
\<close>

locale heap_scan =
  fixes heap :: "kstate \<Rightarrow> ptr \<Rightarrow> 'o option" and test :: "'o \<Rightarrow> bool"
    and hit :: "ptr \<Rightarrow> 'o \<Rightarrow> 'r" and miss :: 'r and scan :: "ptr list \<Rightarrow> kstate \<Rightarrow> ('r, kstate) kres"
  assumes scan_Nil: "scan [] s = Ret miss s"
    and scan_Cons: "scan (p # ps) s =
      bindK (deref (heap s) p s) (\<lambda>x s. if test x then Ret (hit p x) s else scan ps s)"
begin

lemma scan_find:
  assumes "\<forall>p\<in>set ps. heap s p \<noteq> None"
  shows "scan ps s = Ret (case find (\<lambda>p. test (the (heap s p))) ps of
    None \<Rightarrow> miss | Some p \<Rightarrow> hit p (the (heap s p))) s"
  using assms by (induction ps) (auto simp: scan_Nil scan_Cons)

lemma scan_miss:
  assumes "\<forall>p\<in>set ps. \<exists>x. heap s p = Some x \<and> \<not> test x"
  shows "scan ps s = Ret miss s"
  using assms by (induction ps) (auto simp: scan_Nil scan_Cons)

lemma scan_hit:
  assumes "\<forall>q\<in>set ps. \<exists>x. heap s q = Some x \<and> \<not> test x" and "heap s p = Some x" and "test x"
  shows "scan (ps @ p # qs) s = Ret (hit p x) s"
  using assms by (induction ps) (auto simp: scan_Cons)

end

section \<open>Operations of a vnode\<close>

definition vnode_put :: "kenv \<Rightarrow> ptr \<Rightarrow> unit kop" where
  "vnode_put env vn = vput env (mmo_put (chain_fuel env) env) vn"

definition vn_upd :: "ptr \<Rightarrow> (vnode \<Rightarrow> vnode) \<Rightarrow> unit kop" where
  "vn_upd v f s = bindK (deref (vnodes s) v s) (\<lambda>vn s. Ret () (s\<lparr>vnodes := (vnodes s)(v \<mapsto> f vn)\<rparr>))"

definition vop :: "(ptr \<Rightarrow> 'f option) \<Rightarrow> ptr \<Rightarrow> 'f option kop" where
  "vop entry vn s =
     bindK (deref (vnodes s) vn s) (\<lambda>v s.
       case vn_ops v of
         fs_vops \<Rightarrow> Ret (entry vn) s
       | bytedev_spec_vops \<Rightarrow> Ret None s
       | blockdev_spec_vops \<Rightarrow> Ret None s)"

definition special_file_read :: "kenv \<Rightarrow> ptr \<Rightarrow> u32 \<Rightarrow> u32 \<Rightarrow> u32 \<Rightarrow> (errno + u32) kop" where
  "special_file_read env file offset buf count s =
     bindK (deref (vnodes s) file s) (\<lambda>v s.
     bindK (kassert (vn_mode v = S_IFCHR \<or> vn_mode v = S_IFBLK) s) (\<lambda>_ s.
     bindK (if vn_mode v = S_IFCHR
            then kassert (case vn_cdev v of None \<Rightarrow> False | Some cdev \<Rightarrow> cd_read env cdev \<noteq> None) s
            else Ret () s) (\<lambda>_ s.
       if mode_is v S_IFBLK then Ret (Inl ENOTSUP) s
       else if mode_is v S_IFCHR
       then case vn_cdev v of
              None \<Rightarrow> Stop BAD_POINTER
            | Some cdev \<Rightarrow>
                (case cd_read env cdev of
                   None \<Rightarrow> Stop BAD_POINTER
                 | Some read \<Rightarrow> read cdev offset buf count s)
       else Ret (Inr 0) s)))"

definition special_file_write :: "kenv \<Rightarrow> ptr \<Rightarrow> u32 \<Rightarrow> u32 \<Rightarrow> u32 \<Rightarrow> (errno + u32) kop" where
  "special_file_write env file offset buf count s =
     bindK (deref (vnodes s) file s) (\<lambda>v s.
     bindK (kassert (vn_mode v = S_IFCHR \<or> vn_mode v = S_IFBLK) s) (\<lambda>_ s.
     bindK (if vn_mode v = S_IFCHR
            then kassert (case vn_cdev v of None \<Rightarrow> False | Some cdev \<Rightarrow> cd_write env cdev \<noteq> None) s
            else Ret () s) (\<lambda>_ s.
       if mode_is v S_IFBLK then Ret (Inl ENOTSUP) s
       else if mode_is v S_IFCHR
       then case vn_cdev v of
              None \<Rightarrow> Stop BAD_POINTER
            | Some cdev \<Rightarrow>
                (case cd_write env cdev of
                   None \<Rightarrow> Stop BAD_POINTER
                 | Some write \<Rightarrow> write cdev offset buf count s)
       else Ret (Inr 0) s)))"

text \<open>The \<open>stat\<close> of the root directory of the file system serves the special files in it.\<close>

definition special_file_stat :: "kenv \<Rightarrow> ptr \<Rightarrow> u32 \<Rightarrow> (errno + unit) kop" where
  "special_file_stat env vn ss s =
     bindK (deref (vnodes s) vn s) (\<lambda>v s.
     bindK (deref (vnodes s) (fs_root env (vn_fs v)) s) (\<lambda>root s.
     bindK (kassert (vn_ops root = fs_vops) s) (\<lambda>_ s.
       fs_stat env vn ss s)))"

definition vn_read :: "kenv \<Rightarrow> ptr \<Rightarrow> u32 \<Rightarrow> u32 \<Rightarrow> u32 \<Rightarrow> (errno + u32) kop" where
  "vn_read env vn pos buf n s =
     bindK (deref (vnodes s) vn s) (\<lambda>v s.
       case vn_ops v of
         fs_vops \<Rightarrow> fs_read env vn pos buf n s
       | bytedev_spec_vops \<Rightarrow> special_file_read env vn pos buf n s
       | blockdev_spec_vops \<Rightarrow> Stop BAD_POINTER)"

definition vn_write :: "kenv \<Rightarrow> ptr \<Rightarrow> u32 \<Rightarrow> u32 \<Rightarrow> u32 \<Rightarrow> (errno + u32) kop" where
  "vn_write env vn pos buf n s =
     bindK (deref (vnodes s) vn s) (\<lambda>v s.
       case vn_ops v of
         fs_vops \<Rightarrow> fs_write env vn pos buf n s
       | bytedev_spec_vops \<Rightarrow> special_file_write env vn pos buf n s
       | blockdev_spec_vops \<Rightarrow> Stop BAD_POINTER)"

definition vn_stat :: "kenv \<Rightarrow> ptr \<Rightarrow> u32 \<Rightarrow> (errno + unit) kop" where
  "vn_stat env vn buf s =
     bindK (deref (vnodes s) vn s) (\<lambda>v s.
       case vn_ops v of
         fs_vops \<Rightarrow> fs_stat env vn buf s
       | bytedev_spec_vops \<Rightarrow> special_file_stat env vn buf s
       | blockdev_spec_vops \<Rightarrow> special_file_stat env vn buf s)"

section \<open>Getting a vnode\<close>

definition init_special_vnode :: "kenv \<Rightarrow> ptr \<Rightarrow> unit kop" where
  "init_special_vnode env vn s =
     bindK (deref (vnodes s) vn s) (\<lambda>v s.
       if vn_mode v = S_IFCHR
       then vn_upd vn (\<lambda>v. v\<lparr>vn_ops := bytedev_spec_vops, vn_cdev := bytedev_lookup env (vn_devid v)\<rparr>) s
       else bindK (kassert (vn_mode v = S_IFBLK) s) (\<lambda>_ s.
            vn_upd vn (\<lambda>v. v\<lparr>vn_ops := blockdev_spec_vops, vn_bdev := blockdev_lookup env (vn_devid v)\<rparr>) s))"

primrec find_vnode :: "ptr \<Rightarrow> nat \<Rightarrow> ptr list \<Rightarrow> (ptr \<times> vnode) option kop" where
  "find_vnode fs vno [] s = Ret None s"
| "find_vnode fs vno (vn # rest) s =
     bindK (deref (vnodes s) vn s) (\<lambda>v s.
       if vn_fs v = fs \<and> vn_vno v = vno then Ret (Some (vn, v)) s else find_vnode fs vno rest s)"

interpretation vnode_scan: heap_scan vnodes "\<lambda>v. vn_fs v = fs \<and> vn_vno v = vno" "\<lambda>p v. Some (p, v)" None
  "find_vnode fs vno"
  by unfold_locales simp_all

definition read_in_vnode :: "kenv \<Rightarrow> ptr \<Rightarrow> nat \<Rightarrow> ptr \<Rightarrow> ptr kop" where
  "read_in_vnode env fs vno vn s =
     (let s = s\<lparr>vnodes := (vnodes s)(vn \<mapsto> \<lparr>vn_ops = fs_vops, vn_fs = fs, vn_vno = vno, vn_mode = S_IFOTHER, vn_perm = 0,
                  vn_len = 0, vn_devid = 0, vn_busy = True, vn_cdev = None, vn_bdev = None\<rparr>),
                mmobjs := (mmobjs s)(vn \<mapsto> \<lparr>mmo_ops = vnode_mmobj_ops, mmo_refcount = 0, mmo_nrespages = 0,
                  mmo_respages = [], mmo_un_f = mmo_vmas [], mmo_shadowed = None\<rparr>)\<rparr>;
          s = sched_queue_init (VNWAITQ vn) (kmutex_init vn s);
          s = s\<lparr>vnode_inuse_list := vn # vnode_inuse_list s\<rparr>
      in bindK (fs_read_vnode env vn s) (\<lambda>_ s.
         bindK (vn_upd vn (\<lambda>v. v\<lparr>vn_busy := False\<rparr>) s) (\<lambda>_ s.
         bindK (deref (vnodes s) vn s) (\<lambda>v s.
         bindK (if vn_mode v = S_IFCHR \<or> vn_mode v = S_IFBLK then init_special_vnode env vn s else Ret () s) (\<lambda>_ s.
         bindK (mmo_upd vn (\<lambda>m. m\<lparr>mmo_refcount := 1\<rparr>) s) (\<lambda>_ s.
           Ret vn s))))))"

primrec vget :: "nat \<Rightarrow> kenv \<Rightarrow> ptr \<Rightarrow> nat \<Rightarrow> ptr kop" where
  "vget 0 env fs vno s = Stop OUT_OF_FUEL"
| "vget (Suc n) env fs vno s =
     bindK (find_vnode fs vno (vnode_inuse_list s) s) (\<lambda>r s.
       case r of
         Some (vn, v) \<Rightarrow>
           if vn_busy v
           then bindK (sched_sleep_on (senv env) (VNWAITQ vn) s) (\<lambda>_ s. vget n env fs vno s)
           else bindK (vref vn s) (\<lambda>_ s. Ret vn s)
       | None \<Rightarrow>
           (case vnode_slab env s of
              None \<Rightarrow>
                (case curthr s of
                   None \<Rightarrow> Stop BAD_POINTER
                 | Some t \<Rightarrow>
                     bindK (sched_make_runnable t s) (\<lambda>_ s.
                     bindK (sched_switch (senv env) s) (\<lambda>_ s.
                       vget n env fs vno s)))
            | Some vn \<Rightarrow> read_in_vnode env fs vno vn s))"

section \<open>Unmounting\<close>

primrec in_use_scan :: "kenv \<Rightarrow> ptr \<Rightarrow> ptr list \<Rightarrow> (errno + unit) \<Rightarrow> (errno + unit) kop" where
  "in_use_scan env fs [] ret s = Ret ret s"
| "in_use_scan env fs (vn # rest) ret s =
     bindK (deref (vnodes s) vn s) (\<lambda>v s.
     bindK (deref (mmobjs s) vn s) (\<lambda>m s.
     bindK (kassert (mmo_refcount m \<ge> mmo_nrespages m) s) (\<lambda>_ s.
     bindK (kassert (mmo_nrespages m \<ge> 0) s) (\<lambda>_ s.
       if fs \<noteq> vn_fs v then in_use_scan env fs rest ret s
       else let refs = mmo_refcount m - mmo_nrespages m; root = (fs_root env (vn_fs v) = vn) in
         bindK (kassert (0 \<le> refs) s) (\<lambda>_ s.
         bindK (kassert (root \<and> 1 \<le> refs \<or> \<not> root \<and> 0 \<le> refs) s) (\<lambda>_ s.
           in_use_scan env fs rest
             (if root \<and> 1 < refs \<or> \<not> root \<and> refs \<noteq> 0 then Inl EBUSY else ret) s))))))"

definition vfs_is_in_use :: "kenv \<Rightarrow> ptr \<Rightarrow> (errno + unit) kop" where
  "vfs_is_in_use env fs s = in_use_scan env fs (vnode_inuse_list s) (Inr ()) s"

primrec vnode_inuse_count :: "ptr \<Rightarrow> ptr list \<Rightarrow> nat \<Rightarrow> nat kop" where
  "vnode_inuse_count fs [] n s = Ret n s"
| "vnode_inuse_count fs (vn # rest) n s =
     bindK (deref (vnodes s) vn s) (\<lambda>v s.
       vnode_inuse_count fs rest (if vn_fs v = fs then n + 1 else n) s)"

definition vnode_inuse :: "ptr \<Rightarrow> nat kop" where
  "vnode_inuse fs s = vnode_inuse_count fs (vnode_inuse_list s) 0 s"

text \<open>
  Flushing: the first pass cleans the first dirty page it finds and starts over, the second frees
  every page. The pass is given the pages as it finds them.
\<close>

primrec flush_page :: "kenv \<Rightarrow> unit kop \<Rightarrow> ptr list \<Rightarrow> unit kop \<Rightarrow> unit kop" where
  "flush_page env again [] next s = next s"
| "flush_page env again (p # ps) next s =
     bindK (deref (pframes s) p s) (\<lambda>f s.
       if pf_dirty f
       then bindK (pframe_clean env p s) (\<lambda>err s.
            case err of Inl _ \<Rightarrow> Stop KASSERT_failed | Inr _ \<Rightarrow> again s)
       else flush_page env again ps next s)"

primrec flush_vnodes :: "kenv \<Rightarrow> unit kop \<Rightarrow> ptr list \<Rightarrow> unit kop" where
  "flush_vnodes env again [] s = Ret () s"
| "flush_vnodes env again (v # vs) s =
     bindK (deref (mmobjs s) v s) (\<lambda>m s.
       flush_page env again (mmo_respages m) (flush_vnodes env again vs) s)"

primrec flush_all_pages :: "nat \<Rightarrow> kenv \<Rightarrow> unit kop" where
  "flush_all_pages 0 env s = Stop OUT_OF_FUEL"
| "flush_all_pages (Suc n) env s = flush_vnodes env (flush_all_pages n env) (vnode_inuse_list s) s"

primrec uncache_pages :: "kenv \<Rightarrow> ptr list \<Rightarrow> unit kop" where
  "uncache_pages env [] s = Ret () s"
| "uncache_pages env (p # ps) s =
     bindK (deref (pframes s) p s) (\<lambda>f s.
     bindK (kassert (\<not> pf_dirty f) s) (\<lambda>_ s.
     bindK (pframe_free (mmo_put (chain_fuel env) env) p s) (\<lambda>_ s.
       uncache_pages env ps s)))"

primrec uncache_vnodes :: "kenv \<Rightarrow> ptr list \<Rightarrow> unit kop" where
  "uncache_vnodes env [] s = Ret () s"
| "uncache_vnodes env (v # vs) s =
     bindK (deref (mmobjs s) v s) (\<lambda>m s.
     bindK (uncache_pages env (mmo_respages m) s) (\<lambda>_ s.
       uncache_vnodes env vs s))"

definition vnode_flush_all :: "nat \<Rightarrow> kenv \<Rightarrow> unit kop" where
  "vnode_flush_all n env s =
     bindK (flush_all_pages n env s) (\<lambda>_ s. uncache_vnodes env (vnode_inuse_list s) s)"

end
