(* ===== verification/Namev.thy ===== *)
theory Namev
  imports Vnode
begin

text \<open>
  Resolution of path names, \<open>src/kernel/fs/namev.c\<close>: \<open>lookup\<close>, \<open>dir_namev\<close> and \<open>open_namev\<close>. A path
  is the string up to its null character. The pointers that the code moves over a copy of the path
  are the rest of the string: \<open>walk\<close> is given the path from the current component on, and the flag
  \<open>dec\<close> is \<open>needToDecrease\<close>, which the code always changes together with \<open>singleFilename\<close>. The name
  that \<open>dir_namev\<close> returns is None where the code returns a null pointer, for a path of slashes.
\<close>

section \<open>Operations\<close>

definition lookup :: "kenv \<Rightarrow> ptr \<Rightarrow> string option \<Rightarrow> (errno + ptr) kop" where
  "lookup env dir name s =
     (case name of
        None \<Rightarrow> Stop KASSERT_failed
      | Some nm \<Rightarrow>
          bindK (vop (fs_lookup env) dir s) (\<lambda>op s.
          bindK (deref (vnodes s) dir s) (\<lambda>v s.
            case op of
              None \<Rightarrow> Ret (Inl ENOTDIR) s
            | Some look \<Rightarrow> if \<not> mode_is v S_IFDIR then Ret (Inl ENOTDIR) s else look nm s)))"

abbreviation slash :: "char \<Rightarrow> bool" where "slash c \<equiv> c = CHR ''/''"

definition component :: "string \<Rightarrow> string" where "component r = takeWhile (\<lambda>c. \<not> slash c) r"

definition after_component :: "string \<Rightarrow> string" where "after_component r = dropWhile (\<lambda>c. \<not> slash c) r"

lemma after_component_less: "after_component r \<noteq> [] \<Longrightarrow> length (dropWhile slash (after_component r)) < length r"
proof -
  assume ne: "after_component r \<noteq> []"
  then have "slash (hd (after_component r))" using hd_dropWhile [of "\<lambda>c. \<not> slash c" r] by (simp add: after_component_def)
  then have "length (dropWhile slash (after_component r)) < length (after_component r)"
    using ne by (cases "after_component r") (auto simp: less_Suc_eq_le length_dropWhile_le)
  also have "\<dots> \<le> length r" by (simp add: after_component_def length_dropWhile_le)
  finally show ?thesis .
qed

function walk :: "kenv \<Rightarrow> bool \<Rightarrow> ptr \<Rightarrow> string \<Rightarrow> (errno + (string \<times> ptr)) kop" where
  "walk env dec base r s =
     (if after_component r = []
      then bindK (if \<not> dec then vref base s else Ret () s) (\<lambda>_ s.
           if length (component r) > NAME_LEN (cfg env)
           then bindK (vnode_put env base s) (\<lambda>_ s. Ret (Inl ENAMETOOLONG) s)
           else Ret (Inr (component r, base)) s)
      else if length (component r) > NAME_LEN (cfg env) then Ret (Inl ENAMETOOLONG) s
      else bindK (lookup env base (Some (component r)) s) (\<lambda>res s.
           bindK (if dec then vnode_put env base s else Ret () s) (\<lambda>_ s.
             case res of
               Inl e \<Rightarrow> Ret (Inl e) s
             | Inr next \<Rightarrow> walk env True next (dropWhile slash (after_component r)) s)))"
  by pat_completeness auto

termination
  by (relation "measure (\<lambda>(env, dec, base, r, s). length r)") (auto intro: after_component_less)

declare walk.simps [simp del]

definition strip_slashes :: "string \<Rightarrow> string" where
  "strip_slashes p = rev (dropWhile slash (rev (dropWhile slash p)))"

definition dir_namev :: "kenv \<Rightarrow> string \<Rightarrow> ptr option \<Rightarrow> (errno + (string option \<times> ptr)) kop" where
  "dir_namev env pathname base s =
     (if length pathname > MAXPATHLEN (cfg env) \<or> pathname = [] then Ret (Inl EINVAL) s
      else bindK (if slash (hd pathname) then Ret (vfs_root_vn s) s
                  else case base of
                         Some b \<Rightarrow> Ret (Some b) s
                       | None \<Rightarrow> bindK (cur_proc s) (\<lambda>(_, p) s. Ret (p_cwd p) s)) (\<lambda>curPathBase s.
           case curPathBase of
             None \<Rightarrow>
               let r = strip_slashes pathname in
               if after_component r \<noteq> [] \<and> length (component r) > NAME_LEN (cfg env)
               then Ret (Inl ENAMETOOLONG) s else Stop KASSERT_failed
           | Some cur \<Rightarrow>
               if list_all slash pathname
               then bindK (vref cur s) (\<lambda>_ s. Ret (Inr (None, cur)) s)
               else bindK (walk env False cur (strip_slashes pathname) s) (\<lambda>r s.
                    case r of
                      Inl e \<Rightarrow> Ret (Inl e) s
                    | Inr (name, dir) \<Rightarrow> Ret (Inr (Some name, dir)) s)))"

definition open_namev :: "kenv \<Rightarrow> string \<Rightarrow> u32 \<Rightarrow> ptr option \<Rightarrow> (errno + ptr) kop" where
  "open_namev env pathname flag base s =
     bindK (dir_namev env pathname base s) (\<lambda>r s.
       case r of
         Inl e \<Rightarrow> Ret (Inl e) s
       | Inr (None, parent) \<Rightarrow>
           (case vfs_root_vn s of
              None \<Rightarrow> Stop KASSERT_failed
            | Some root \<Rightarrow>
                bindK (vref root s) (\<lambda>_ s.
                bindK (vnode_put env parent s) (\<lambda>_ s.
                  Ret (Inr root) s)))
       | Inr (Some name, parent) \<Rightarrow>
           bindK (lookup env parent (Some name) s) (\<lambda>retval s.
             if retval = Inl ENOENT \<and> flag AND O_CREAT (cfg env) \<noteq> 0x100
             then bindK (vnode_put env parent s) (\<lambda>_ s. Ret (Inl ENOENT) s)
             else if retval = Inl ENOENT \<and> flag AND O_CREAT (cfg env) \<noteq> 0
             then bindK (vop (fs_create env) parent s) (\<lambda>create s.
                    case create of
                      None \<Rightarrow> Stop KASSERT_failed
                    | Some cr \<Rightarrow>
                        bindK (cr name s) (\<lambda>retval s.
                        bindK (vnode_put env parent s) (\<lambda>_ s.
                          Ret retval s)))
             else bindK (vnode_put env parent s) (\<lambda>_ s. Ret retval s)))"

section \<open>Paths as lists of components\<close>

text \<open>
  The reference: a path is split at its slashes, empty pieces are dropped, and the components are
  looked up one after the other, each in the directory that the one before gave.
\<close>

primrec split_slash :: "string \<Rightarrow> string list" where
  "split_slash [] = [[]]"
| "split_slash (c # cs) = (if slash c then [] # split_slash cs else (c # hd (split_slash cs)) # tl (split_slash cs))"

definition components :: "string \<Rightarrow> string list" where
  "components p = filter (\<lambda>w. w \<noteq> []) (split_slash p)"

fun resolve :: "kenv \<Rightarrow> bool \<Rightarrow> ptr \<Rightarrow> string list \<Rightarrow> (errno + (string \<times> ptr)) kop" where
  "resolve env dec base [] s = Ret (Inl ENOENT) s"
| "resolve env dec base [c] s =
     bindK (if \<not> dec then vref base s else Ret () s) (\<lambda>_ s.
       if length c > NAME_LEN (cfg env)
       then bindK (vnode_put env base s) (\<lambda>_ s. Ret (Inl ENAMETOOLONG) s)
       else Ret (Inr (c, base)) s)"
| "resolve env dec base (c # d # cs) s =
     (if length c > NAME_LEN (cfg env) then Ret (Inl ENAMETOOLONG) s
      else bindK (lookup env base (Some c) s) (\<lambda>res s.
           bindK (if dec then vnode_put env base s else Ret () s) (\<lambda>_ s.
             case res of Inl e \<Rightarrow> Ret (Inl e) s | Inr next \<Rightarrow> resolve env True next (d # cs) s)))"

lemma split_slash_not_Nil [simp]: "split_slash p \<noteq> []"
  by (cases p) auto

lemma split_slash_component:
  "split_slash r = component r # (case after_component r of [] \<Rightarrow> [] | _ # cs \<Rightarrow> split_slash cs)"
  by (induction r) (auto simp: component_def after_component_def)

lemma components_Nil [simp]: "components [] = []"
  by (simp add: components_def)

lemma components_slash [simp]: "slash c \<Longrightarrow> components (c # cs) = components cs"
  by (simp add: components_def)

lemma components_dropWhile: "components (dropWhile slash r) = components r"
  by (induction r) auto

lemma slash_after_component: "after_component r = c # cs \<Longrightarrow> slash c"
  using hd_dropWhile [of "\<lambda>c. \<not> slash c" r] by (simp add: after_component_def)

lemma components_step:
  assumes "component r \<noteq> []"
  shows "components r = component r # components (dropWhile slash (after_component r))"
proof (cases "after_component r")
  case Nil
  then show ?thesis using assms split_slash_component [of r] by (simp add: components_def)
next
  case (Cons c cs)
  then have "components (dropWhile slash (after_component r)) = components cs"
    using slash_after_component [OF Cons] by (simp add: components_dropWhile)
  then show ?thesis using assms Cons split_slash_component [of r] by (simp add: components_def)
qed

lemma split_slash_snoc: "slash c \<Longrightarrow> split_slash (cs @ [c]) = split_slash cs @ [[]]"
  by (induction cs) (auto simp: hd_append tl_append split: list.splits)

lemma components_snoc: "slash c \<Longrightarrow> components (cs @ [c]) = components cs"
  by (simp add: components_def split_slash_snoc)

lemma components_dropWhile_rev: "components (rev (dropWhile slash (rev r))) = components r"
  by (induction r rule: rev_induct) (auto simp: components_snoc)

lemma components_strip: "components (strip_slashes p) = components p"
  by (simp add: strip_slashes_def components_dropWhile_rev components_dropWhile)

lemma components_eq_Nil: "components p = [] \<longleftrightarrow> list_all slash p"
proof (induction p)
  case (Cons c p)
  show ?case
  proof (cases "slash c")
    case False
    then show ?thesis by (simp add: components_def)
  qed (use Cons in simp)
qed simp

text \<open>The walk over a path without slashes at its ends visits its components.\<close>

definition trimmed :: "string \<Rightarrow> bool" where
  "trimmed r \<longleftrightarrow> r \<noteq> [] \<and> \<not> slash (hd r) \<and> \<not> slash (last r)"

lemma trimmed_component: "trimmed r \<Longrightarrow> component r \<noteq> []"
  by (cases r) (auto simp: trimmed_def component_def)

lemma trimmed_next:
  assumes "trimmed r" and "after_component r \<noteq> []"
  shows "trimmed (dropWhile slash (after_component r))"
proof -
  obtain pre where pre: "r = pre @ after_component r"
    using takeWhile_dropWhile_id [of "\<lambda>c. \<not> slash c" r] by (metis after_component_def)
  then have "last (after_component r) = last r" using assms(2) by (metis last_appendR)
  then have l: "\<not> slash (last (after_component r))" using assms(1) by (simp add: trimmed_def)
  then have "\<exists>c\<in>set (after_component r). \<not> slash c" using assms(2) last_in_set by blast
  then have ne: "dropWhile slash (after_component r) \<noteq> []" by simp
  then have "\<not> slash (hd (dropWhile slash (after_component r)))" by (rule hd_dropWhile)
  moreover have "last (dropWhile slash (after_component r)) = last (after_component r)"
    using ne takeWhile_dropWhile_id [of slash "after_component r"] by (metis last_appendR)
  ultimately show ?thesis using l ne by (simp add: trimmed_def)
qed

lemma trimmed_components: "trimmed r \<Longrightarrow> components r \<noteq> []"
  by (cases r) (auto simp: trimmed_def components_eq_Nil)

lemma walk_resolve: "trimmed r \<Longrightarrow> walk env dec base r s = resolve env dec base (components r) s"
proof (induction env dec base r s rule: walk.induct)
  case (1 env dec base r s)
  note c = components_step [OF trimmed_component [OF "1.prems"]]
  show ?case
  proof (cases "after_component r = []")
    case True
    then show ?thesis using c by (subst walk.simps) simp
  next
    case False
    have t: "trimmed (dropWhile slash (after_component r))" by (rule trimmed_next [OF "1.prems" False])
    then obtain d ds where d: "components (dropWhile slash (after_component r)) = d # ds"
      using trimmed_components by (metis list.exhaust)
    show ?thesis
    proof (cases "length (component r) > NAME_LEN (cfg env)")
      case True
      then show ?thesis using False c d by (subst walk.simps) simp
    next
      case len: False
      have "walk env True nx (dropWhile slash (after_component r)) s2 = resolve env True nx (d # ds) s2"
        if "lookup env base (Some (component r)) s = Ret res s1" "(if dec then vnode_put env base s1 else Ret () s1) = Ret u s2"
          "res = Inr nx" for res s1 u s2 nx
        using "1.IH" [OF False len that t] unfolding d .
      then show ?thesis unfolding c d using False len
        by (subst walk.simps) (auto intro!: bindK_cong split: sum.splits)
    qed
  qed
qed

lemma trimmed_strip:
  assumes "\<not> list_all slash p"
  shows "trimmed (strip_slashes p)"
proof -
  let ?d = "dropWhile slash p"
  have ne: "?d \<noteq> []" using assms by (simp add: list_all_iff)
  have nh: "\<not> slash (hd ?d)" by (rule hd_dropWhile [OF ne])
  then have ne2: "dropWhile slash (rev ?d) \<noteq> []" using hd_in_set [OF ne] by auto
  have "\<not> slash (hd (dropWhile slash (rev ?d)))" by (rule hd_dropWhile [OF ne2])
  then have l: "\<not> slash (last (strip_slashes p))" using ne2 by (simp add: strip_slashes_def last_rev)
  have "last (dropWhile slash (rev ?d)) = last (rev ?d)"
    using ne2 takeWhile_dropWhile_id [of slash "rev ?d"] by (metis last_appendR)
  then have "hd (strip_slashes p) = hd ?d" using ne ne2 by (simp add: strip_slashes_def hd_rev last_rev)
  then show ?thesis using nh l ne2 by (simp add: trimmed_def strip_slashes_def)
qed

definition namev_start :: "kstate \<Rightarrow> string \<Rightarrow> ptr option \<Rightarrow> ptr option" where
  "namev_start s pathname base =
     (if slash (hd pathname) then vfs_root_vn s
      else case base of
             Some b \<Rightarrow> Some b
           | None \<Rightarrow> Option.bind (curproc s) (\<lambda>p. Option.bind (procs s p) p_cwd))"

text \<open>
  C20: \<open>dir_namev\<close> is resolution by components. However many slashes separate, precede or follow the
  components of a path, it looks up all but the last of them in turn, from the root for an absolute path and from
  the base or the working directory otherwise, and returns the last directory with the last
  component as the name; a path of slashes gives the root and no name.
\<close>

theorem dir_namev_resolves:
  assumes "pathname \<noteq> []" and "length pathname \<le> MAXPATHLEN (cfg env)" and cur: "namev_start s pathname base = Some cur"
  shows "dir_namev env pathname base s =
    (if components pathname = [] then bindK (vref cur s) (\<lambda>_ s. Ret (Inr (None, cur)) s)
     else bindK (resolve env False cur (components pathname) s) (\<lambda>r s.
       case r of Inl e \<Rightarrow> Ret (Inl e) s | Inr (name, dir) \<Rightarrow> Ret (Inr (Some name, dir)) s))"
proof -
  have "(if slash (hd pathname) then Ret (vfs_root_vn s) s
      else case base of Some b \<Rightarrow> Ret (Some b) s
        | None \<Rightarrow> bindK (cur_proc s) (\<lambda>(_, p) s. Ret (p_cwd p) s)) = Ret (Some cur) s"
    using cur by (auto simp: namev_start_def cur_proc_def Option.bind_eq_Some_conv split: option.splits if_splits)
  then show ?thesis
    using assms(1,2) walk_resolve [OF trimmed_strip, of pathname env False cur s]
    by (simp add: dir_namev_def components_eq_Nil components_strip)
qed

theorem dir_namev_resolves_witness:
  "dir_namev example_env ''//usr///bin/'' None ((kstate0 (\<lambda>_. None))\<lparr>vfs_root_vn := Some 1\<rparr>) =
     bindK (resolve example_env False 1 [''usr'', ''bin''] ((kstate0 (\<lambda>_. None))\<lparr>vfs_root_vn := Some 1\<rparr>)) (\<lambda>r s.
       case r of Inl e \<Rightarrow> Ret (Inl e) s | Inr (name, dir) \<Rightarrow> Ret (Inr (Some name, dir)) s)"
  by (subst dir_namev_resolves [where cur = 1])
    (simp_all add: example_env_def example_cfg_def namev_start_def components_def)

end
