(* ===== verification/Vfs.thy ===== *)
theory Vfs
  imports Namev
begin

text \<open>
  The file system calls: \<open>src/kernel/fs/open.c\<close> and \<open>src/kernel/fs/vfs_syscall.c\<close>. Open files are
  records in the heap \<open>files\<close>; \<open>fget\<close> and \<open>fput\<close> of \<open>fs/file.c\<close> are parameters of the environment.
  A count of bytes is a 32-bit word, and a failed \<open>read\<close>, \<open>write\<close> or \<open>readdir\<close> is added to \<open>f_pos\<close>
  as the number it is in C (\<open>ret_word\<close>).
\<close>

section \<open>Descriptors\<close>

definition proc_upd :: "ptr \<Rightarrow> (proc \<Rightarrow> proc) \<Rightarrow> unit kop" where
  "proc_upd p f s = bindK (deref (procs s) p s) (\<lambda>pr s. Ret () (s\<lparr>procs := (procs s)(p \<mapsto> f pr)\<rparr>))"

definition file_upd :: "ptr \<Rightarrow> (file_t \<Rightarrow> file_t) \<Rightarrow> unit kop" where
  "file_upd p f s = bindK (deref (files s) p s) (\<lambda>fl s. Ret () (s\<lparr>files := (files s)(p \<mapsto> f fl)\<rparr>))"

definition set_fd :: "nat \<Rightarrow> ptr option \<Rightarrow> unit kop" where
  "set_fd fd f s = bindK (cur_proc s) (\<lambda>(p, _) s. proc_upd p (\<lambda>pr. pr\<lparr>p_files := (p_files pr)[fd := f]\<rparr>) s)"

definition bad_fd :: "kenv \<Rightarrow> int \<Rightarrow> bool" where
  "bad_fd env fd \<longleftrightarrow> fd \<ge> int (NFILES (cfg env)) \<or> fd < 0"

primrec empty_from :: "nat \<Rightarrow> ptr option list \<Rightarrow> errno + nat" where
  "empty_from fd [] = Inl EMFILE"
| "empty_from fd (f # fs) = (if f = None then Inr fd else empty_from (Suc fd) fs)"

definition get_empty_fd :: "proc \<Rightarrow> errno + nat" where
  "get_empty_fd p = empty_from 0 (p_files p)"

definition ret_word :: "kenv \<Rightarrow> errno + u32 \<Rightarrow> u32" where
  "ret_word env r = (case r of Inr n \<Rightarrow> n | Inl e \<Rightarrow> - of_nat (errno_num (cfg env) e))"

definition file_vnode :: "ptr \<Rightarrow> (file_t \<times> ptr \<times> vnode) kop" where
  "file_vnode f s =
     bindK (deref (files s) f s) (\<lambda>fl s.
       case f_vnode fl of
         None \<Rightarrow> Stop BAD_POINTER
       | Some vn \<Rightarrow> bindK (deref (vnodes s) vn s) (\<lambda>v s. Ret (fl, vn, v) s))"

section \<open>Opening a file\<close>

definition open_fmode :: "kenv \<Rightarrow> u32 \<Rightarrow> u32" where
  "open_fmode env oflags =
     (let c = cfg env;
          fmode = (if oflags AND 0x400 = 0x400 then FMODE_APPEND c else 0);
          fmode = (if oflags AND 0x1 = 0 then fmode OR FMODE_READ c else fmode);
          fmode = (if oflags AND 0x1 = 0x1 then fmode OR FMODE_WRITE c else fmode)
      in if oflags AND 0x2 = 0x2 then fmode OR (FMODE_READ c OR FMODE_WRITE c) else fmode)"

definition do_open :: "kenv \<Rightarrow> string \<Rightarrow> u32 \<Rightarrow> (errno + nat) kop" where
  "do_open env filename oflags s =
     (if oflags AND NOT 0x703 \<noteq> 0 then Ret (Inl EINVAL) s
      else if oflags AND 0x1 = 0x1 \<and> oflags AND 0x2 = 0x2 then Ret (Inl EINVAL) s
      else bindK (cur_proc s) (\<lambda>(_, p) s.
        case get_empty_fd p of
          Inl e \<Rightarrow> Ret (Inl e) s
        | Inr new_fd \<Rightarrow>
            bindK (fget env (-1) s) (\<lambda>r s.
              case r of
                None \<Rightarrow> Ret (Inl ENOMEM) s
              | Some new_file \<Rightarrow>
                  bindK (set_fd new_fd (Some new_file) s) (\<lambda>_ s.
                  bindK (file_upd new_file (\<lambda>f. f\<lparr>f_mode := open_fmode env oflags\<rparr>) s) (\<lambda>_ s.
                  bindK (open_namev env filename oflags None s) (\<lambda>ret s.
                    case ret of
                      Inl e \<Rightarrow>
                        bindK (fput env new_file s) (\<lambda>_ s.
                        bindK (set_fd new_fd None s) (\<lambda>_ s.
                          Ret (Inl e) s))
                    | Inr vn \<Rightarrow>
                        bindK (file_upd new_file (\<lambda>f. f\<lparr>f_vnode := Some vn\<rparr>) s) (\<lambda>_ s.
                        bindK (file_vnode new_file s) (\<lambda>(f, _, v) s.
                          if vn_mode v = S_IFDIR \<and> f_mode f AND FMODE_WRITE (cfg env) \<noteq> 0
                          then bindK (fput env new_file s) (\<lambda>_ s.
                               bindK (set_fd new_fd None s) (\<lambda>_ s.
                                 Ret (Inl EISDIR) s))
                          else bindK (file_upd new_file (\<lambda>f. f\<lparr>f_pos := 0\<rparr>) s) (\<lambda>_ s.
                                 Ret (Inr new_fd) s)))))))))"

section \<open>Reading, writing and seeking\<close>

definition do_read :: "kenv \<Rightarrow> int \<Rightarrow> u32 \<Rightarrow> u32 \<Rightarrow> (errno + u32) kop" where
  "do_read env fd buf nbytes s =
     (if bad_fd env fd then Ret (Inl EBADF) s
      else bindK (fget env fd s) (\<lambda>r s.
        case r of
          None \<Rightarrow> Ret (Inl EBADF) s
        | Some cur \<Rightarrow>
            bindK (deref (files s) cur s) (\<lambda>f s.
              if f_mode f AND FMODE_READ (cfg env) \<noteq> 0x1
              then bindK (fput env cur s) (\<lambda>_ s. Ret (Inl EBADF) s)
              else bindK (file_vnode cur s) (\<lambda>(f, vn, v) s.
                if vn_mode v = S_IFDIR then bindK (fput env cur s) (\<lambda>_ s. Ret (Inl EISDIR) s)
                else bindK (vn_read env vn (f_pos f) buf nbytes s) (\<lambda>bytes_read s.
                     bindK (file_upd cur (\<lambda>f. f\<lparr>f_pos := f_pos f + ret_word env bytes_read\<rparr>) s) (\<lambda>_ s.
                     bindK (fput env cur s) (\<lambda>_ s.
                       Ret bytes_read s)))))))"

text \<open>The new position, None when no branch applies.\<close>

definition seek_pos :: "kenv \<Rightarrow> u32 \<Rightarrow> int \<Rightarrow> ptr \<Rightarrow> u32 option kop" where
  "seek_pos env offset whence file s =
     bindK (deref (files s) file s) (\<lambda>f s.
       if whence = SEEK_SET (cfg env) \<and> sint offset \<ge> 0 then Ret (Some offset) s
       else if whence = SEEK_CUR (cfg env) \<and> sint (f_pos f + offset) \<ge> 0 then Ret (Some (f_pos f + offset)) s
       else if whence = SEEK_END (cfg env)
       then bindK (file_vnode file s) (\<lambda>(_, _, v) s.
              if sint (vn_len v + offset) \<ge> 0 then Ret (Some (vn_len v + offset)) s else Ret None s)
       else Ret None s)"

definition do_lseek :: "kenv \<Rightarrow> int \<Rightarrow> u32 \<Rightarrow> int \<Rightarrow> (errno + u32) kop" where
  "do_lseek env fd offset whence s =
     (if bad_fd env fd then Ret (Inl EBADF) s
      else bindK (fget env fd s) (\<lambda>r s.
        case r of
          None \<Rightarrow> Ret (Inl EBADF) s
        | Some file \<Rightarrow>
            if \<not> (whence = SEEK_SET (cfg env) \<or> whence = SEEK_CUR (cfg env) \<or> whence = SEEK_END (cfg env))
            then bindK (fput env file s) (\<lambda>_ s. Ret (Inl EINVAL) s)
            else bindK (seek_pos env offset whence file s) (\<lambda>newpos s.
              case newpos of
                Some pos \<Rightarrow>
                  bindK (file_upd file (\<lambda>f. f\<lparr>f_pos := pos\<rparr>) s) (\<lambda>_ s.
                  bindK (deref (files s) file s) (\<lambda>f s.
                  bindK (fput env file s) (\<lambda>_ s.
                    Ret (Inr (f_pos f)) s)))
              | None \<Rightarrow> bindK (fput env file s) (\<lambda>_ s. Ret (Inl EINVAL) s))))"

definition do_write :: "kenv \<Rightarrow> int \<Rightarrow> u32 \<Rightarrow> u32 \<Rightarrow> (errno + u32) kop" where
  "do_write env fd buf nbytes s =
     (if bad_fd env fd then Ret (Inl EBADF) s
      else bindK (fget env fd s) (\<lambda>r s.
        case r of
          None \<Rightarrow> Ret (Inl EBADF) s
        | Some cur \<Rightarrow>
            bindK (deref (files s) cur s) (\<lambda>f s.
              if f_mode f AND FMODE_WRITE (cfg env) \<noteq> 0x2
              then bindK (fput env cur s) (\<lambda>_ s. Ret (Inl EBADF) s)
              else bindK (if f_mode f AND FMODE_APPEND (cfg env) = 0x4
                          then do_lseek env fd 0 (SEEK_END (cfg env)) s else Ret (Inr 0) s) (\<lambda>ret s.
                case ret of
                  Inl e \<Rightarrow> bindK (fput env cur s) (\<lambda>_ s. Ret (Inl e) s)
                | Inr _ \<Rightarrow>
                    bindK (file_vnode cur s) (\<lambda>(f, vn, _) s.
                    bindK (vn_write env vn (f_pos f) buf nbytes s) (\<lambda>bytes_written s.
                    bindK (file_upd cur (\<lambda>f. f\<lparr>f_pos := f_pos f + ret_word env bytes_written\<rparr>) s) (\<lambda>_ s.
                    bindK (file_vnode cur s) (\<lambda>(f, _, v) s.
                    bindK (case bytes_written of
                             Inl _ \<Rightarrow> Ret () s
                           | Inr _ \<Rightarrow> kassert (vn_mode v = S_IFCHR \<or> vn_mode v = S_IFBLK
                                 \<or> vn_mode v = S_IFREG \<and> sint (f_pos f) \<le> sint (vn_len v)) s) (\<lambda>_ s.
                    bindK (fput env cur s) (\<lambda>_ s.
                      Ret bytes_written s)))))))))) "

section \<open>Closing and duplicating descriptors\<close>

definition do_close :: "kenv \<Rightarrow> int \<Rightarrow> (errno + unit) kop" where
  "do_close env fd s =
     (if bad_fd env fd then Ret (Inl EBADF) s
      else bindK (fget env fd s) (\<lambda>r s.
        case r of
          None \<Rightarrow> Ret (Inl EBADF) s
        | Some cur \<Rightarrow>
            bindK (set_fd (nat fd) None s) (\<lambda>_ s.
            bindK (fput env cur s) (\<lambda>_ s.
            bindK (fput env cur s) (\<lambda>_ s.
              Ret (Inr ()) s)))))"

definition do_dup :: "kenv \<Rightarrow> int \<Rightarrow> (errno + nat) kop" where
  "do_dup env fd s =
     (if bad_fd env fd then Ret (Inl EBADF) s
      else bindK (fget env fd s) (\<lambda>r s.
        case r of
          None \<Rightarrow> Ret (Inl EBADF) s
        | Some cur \<Rightarrow>
            bindK (cur_proc s) (\<lambda>(_, p) s.
              case get_empty_fd p of
                Inl e \<Rightarrow> bindK (fput env cur s) (\<lambda>_ s. Ret (Inl e) s)
              | Inr new_fd \<Rightarrow> bindK (set_fd new_fd (Some cur) s) (\<lambda>_ s. Ret (Inr new_fd) s))))"

definition do_dup2 :: "kenv \<Rightarrow> int \<Rightarrow> int \<Rightarrow> (errno + int) kop" where
  "do_dup2 env ofd nfd s =
     (if bad_fd env ofd then Ret (Inl EBADF) s
      else if bad_fd env nfd then Ret (Inl EBADF) s
      else bindK (fget env ofd s) (\<lambda>r s.
        case r of
          None \<Rightarrow> Ret (Inl EBADF) s
        | Some cur \<Rightarrow>
            if ofd = nfd then bindK (fput env cur s) (\<lambda>_ s. Ret (Inr nfd) s)
            else bindK (cur_proc s) (\<lambda>(_, p) s.
                 bindK (if p_files p ! nat nfd \<noteq> None then do_close env nfd s else Ret (Inr ()) s) (\<lambda>ret s.
                   case ret of
                     Inl e \<Rightarrow> bindK (fput env cur s) (\<lambda>_ s. Ret (Inl e) s)
                   | Inr _ \<Rightarrow> bindK (set_fd (nat nfd) (Some cur) s) (\<lambda>_ s. Ret (Inr nfd) s)))))"

section \<open>Names\<close>

text \<open>
  The error path of \<open>do_mknod\<close> for a failed \<open>lookup\<close> other than \<open>ENOENT\<close> reads the variable \<open>result\<close>,
  which nothing has written.
\<close>

definition do_mknod :: "kenv \<Rightarrow> string \<Rightarrow> vn_kind \<Rightarrow> u32 \<Rightarrow> (errno + unit) kop" where
  "do_mknod env path mode devid s =
     (if mode \<noteq> S_IFBLK \<and> mode \<noteq> S_IFCHR then Ret (Inl EINVAL) s
      else bindK (dir_namev env path None s) (\<lambda>r s.
        case r of
          Inl e \<Rightarrow> Ret (Inl e) s
        | Inr (name, parent) \<Rightarrow>
            bindK (lookup env parent name s) (\<lambda>ret s.
              case ret of
                Inl ENOENT \<Rightarrow>
                  bindK (vop (fs_mknod env) parent s) (\<lambda>op s.
                    case op of
                      None \<Rightarrow> Stop KASSERT_failed
                    | Some mknod \<Rightarrow>
                        bindK (mknod (the name) mode devid s) (\<lambda>ret2 s.
                        bindK (vnode_put env parent s) (\<lambda>_ s.
                          Ret ret2 s)))
              | Inl _ \<Rightarrow> Stop BAD_POINTER
              | Inr result \<Rightarrow>
                  bindK (vnode_put env result s) (\<lambda>_ s.
                  bindK (vnode_put env parent s) (\<lambda>_ s.
                    Ret (Inl EEXIST) s)))))"

definition do_mkdir :: "kenv \<Rightarrow> string \<Rightarrow> (errno + unit) kop" where
  "do_mkdir env path s =
     bindK (dir_namev env path None s) (\<lambda>r s.
       case r of
         Inl e \<Rightarrow> Ret (Inl e) s
       | Inr (None, parent) \<Rightarrow>
           (case vfs_root_vn s of
              None \<Rightarrow> Stop KASSERT_failed
            | Some root \<Rightarrow> bindK (vnode_put env root s) (\<lambda>_ s. Ret (Inl EEXIST) s))
       | Inr (Some name, parent) \<Rightarrow>
           bindK (deref (vnodes s) parent s) (\<lambda>v s.
             if vn_mode v \<noteq> S_IFDIR then bindK (vnode_put env parent s) (\<lambda>_ s. Ret (Inl ENOTDIR) s)
             else bindK (lookup env parent (Some name) s) (\<lambda>ret s.
               case ret of
                 Inl e \<Rightarrow>
                   if e = ENOENT
                   then bindK (vop (fs_mkdir env) parent s) (\<lambda>op s.
                          case op of
                            None \<Rightarrow> Stop KASSERT_failed
                          | Some mkdir \<Rightarrow>
                              bindK (mkdir name s) (\<lambda>ret2 s.
                              bindK (vnode_put env parent s) (\<lambda>_ s.
                                Ret ret2 s)))
                   else bindK (vnode_put env parent s) (\<lambda>_ s. Ret (Inl e) s)
               | Inr dir \<Rightarrow>
                   bindK (vnode_put env parent s) (\<lambda>_ s.
                   bindK (vnode_put env dir s) (\<lambda>_ s.
                     Ret (Inl EEXIST) s)))))"

text \<open>\<open>strncmp(name, lit, namelen) == 0\<close> for the name that \<open>dir_namev\<close> returned.\<close>

definition name_is :: "string \<Rightarrow> string option \<Rightarrow> bool" where
  "name_is lit name \<longleftrightarrow> (case name of None \<Rightarrow> True | Some n \<Rightarrow> n = take (length n) lit)"

definition do_rmdir :: "kenv \<Rightarrow> string \<Rightarrow> (errno + unit) kop" where
  "do_rmdir env path s =
     bindK (dir_namev env path None s) (\<lambda>r s.
       case r of
         Inl e \<Rightarrow> Ret (Inl e) s
       | Inr (name, parent) \<Rightarrow>
           bindK (deref (vnodes s) parent s) (\<lambda>v s.
             if vn_mode v \<noteq> S_IFDIR then bindK (vnode_put env parent s) (\<lambda>_ s. Ret (Inl ENOTDIR) s)
             else if name_is ''.'' name then bindK (vnode_put env parent s) (\<lambda>_ s. Ret (Inl EINVAL) s)
             else if name_is ''..'' name then bindK (vnode_put env parent s) (\<lambda>_ s. Ret (Inl ENOTEMPTY) s)
             else bindK (vop (fs_rmdir env) parent s) (\<lambda>op s.
                    case op of
                      None \<Rightarrow> Stop KASSERT_failed
                    | Some rmdir \<Rightarrow>
                        bindK (rmdir (the name) s) (\<lambda>ret s.
                        bindK (vnode_put env parent s) (\<lambda>_ s.
                          Ret ret s)))))"

definition do_unlink :: "kenv \<Rightarrow> string \<Rightarrow> (errno + unit) kop" where
  "do_unlink env path s =
     bindK (dir_namev env path None s) (\<lambda>r s.
       case r of
         Inl e \<Rightarrow> Ret (Inl e) s
       | Inr (name, parent) \<Rightarrow>
           bindK (lookup env parent name s) (\<lambda>ret s.
             case ret of
               Inl e \<Rightarrow> bindK (vnode_put env parent s) (\<lambda>_ s. Ret (Inl e) s)
             | Inr result \<Rightarrow>
                 bindK (vnode_put env result s) (\<lambda>_ s.
                 bindK (deref (vnodes s) result s) (\<lambda>v s.
                   if mode_is v S_IFDIR then bindK (vnode_put env parent s) (\<lambda>_ s. Ret (Inl EISDIR) s)
                   else bindK (vop (fs_unlink env) parent s) (\<lambda>op s.
                          case op of
                            None \<Rightarrow> Stop KASSERT_failed
                          | Some unlink \<Rightarrow>
                              bindK (unlink (the name) s) (\<lambda>ret s.
                              bindK (vnode_put env parent s) (\<lambda>_ s.
                                Ret ret s)))))))"

definition do_link :: "kenv \<Rightarrow> string \<Rightarrow> string \<Rightarrow> (errno + unit) kop" where
  "do_link env from' to' s =
     bindK (open_namev env from' 0 None s) (\<lambda>r s.
       case r of
         Inl e \<Rightarrow> Ret (Inl e) s
       | Inr from_vnode \<Rightarrow>
           bindK (deref (vnodes s) from_vnode s) (\<lambda>v s.
             if mode_is v S_IFDIR then bindK (vnode_put env from_vnode s) (\<lambda>_ s. Ret (Inl EISDIR) s)
             else bindK (dir_namev env to' None s) (\<lambda>r s.
               case r of
                 Inl e \<Rightarrow> bindK (vnode_put env from_vnode s) (\<lambda>_ s. Ret (Inl e) s)
               | Inr (name, to_vnode) \<Rightarrow>
                   bindK (lookup env to_vnode name s) (\<lambda>ret s.
                     case ret of
                       Inr testNode \<Rightarrow>
                         bindK (vnode_put env from_vnode s) (\<lambda>_ s.
                         bindK (vnode_put env to_vnode s) (\<lambda>_ s.
                         bindK (vnode_put env testNode s) (\<lambda>_ s.
                           Ret (Inl EEXIST) s)))
                     | Inl e \<Rightarrow>
                         if e = ENOTDIR
                         then bindK (vnode_put env from_vnode s) (\<lambda>_ s.
                              bindK (vnode_put env to_vnode s) (\<lambda>_ s.
                                Ret (Inl ENOTDIR) s))
                         else bindK (vop (fs_link env) to_vnode s) (\<lambda>op s.
                                case op of
                                  None \<Rightarrow> Stop BAD_POINTER
                                | Some link \<Rightarrow>
                                    bindK (link from_vnode (the name) s) (\<lambda>ret s.
                                    bindK (vnode_put env from_vnode s) (\<lambda>_ s.
                                    bindK (vnode_put env to_vnode s) (\<lambda>_ s.
                                      Ret ret s))))))))"

definition do_rename :: "kenv \<Rightarrow> string option \<Rightarrow> string option \<Rightarrow> (errno + unit) kop" where
  "do_rename env oldname newname s =
     (case (oldname, newname) of
        (Some old, Some new) \<Rightarrow>
          bindK (do_link env old new s) (\<lambda>ret s.
            case ret of Inl e \<Rightarrow> Ret (Inl e) s | Inr _ \<Rightarrow> do_unlink env old s)
      | _ \<Rightarrow> Ret (Inl EINVAL) s)"

definition do_chdir :: "kenv \<Rightarrow> string \<Rightarrow> (errno + unit) kop" where
  "do_chdir env path s =
     bindK (cur_proc s) (\<lambda>(p, pr) s.
       let temp = p_cwd pr in
       bindK (open_namev env path 0 None s) (\<lambda>r s.
         case r of
           Inl e \<Rightarrow> Ret (Inl e) s
         | Inr dir \<Rightarrow>
             bindK (deref (vnodes s) dir s) (\<lambda>v s.
               if \<not> mode_is v S_IFDIR then bindK (vnode_put env dir s) (\<lambda>_ s. Ret (Inl ENOTDIR) s)
               else case temp of
                      None \<Rightarrow> Stop KASSERT_failed
                    | Some cwd \<Rightarrow>
                        bindK (vnode_put env cwd s) (\<lambda>_ s.
                        bindK (proc_upd p (\<lambda>pr. pr\<lparr>p_cwd := Some dir\<rparr>) s) (\<lambda>_ s.
                          Ret (Inr ()) s)))))"

definition do_getdent :: "kenv \<Rightarrow> int \<Rightarrow> u32 \<Rightarrow> (errno + nat) kop" where
  "do_getdent env fd dirp s =
     (if bad_fd env fd then Ret (Inl EBADF) s
      else bindK (fget env fd s) (\<lambda>r s.
        case r of
          None \<Rightarrow> Ret (Inl EBADF) s
        | Some file \<Rightarrow>
            bindK (file_vnode file s) (\<lambda>(f, vn, v) s.
            bindK (vop (fs_readdir env) vn s) (\<lambda>op s.
              case op of
                None \<Rightarrow> bindK (fput env file s) (\<lambda>_ s. Ret (Inl ENOTDIR) s)
              | Some readdir \<Rightarrow>
                  if \<not> mode_is v S_IFDIR then bindK (fput env file s) (\<lambda>_ s. Ret (Inl ENOTDIR) s)
                  else bindK (readdir (f_pos f) dirp s) (\<lambda>ret s.
                       bindK (file_upd file (\<lambda>f. f\<lparr>f_pos := f_pos f + ret_word env ret\<rparr>) s) (\<lambda>_ s.
                       bindK (fput env file s) (\<lambda>_ s.
                         if ret_word env ret \<noteq> 0 then Ret (Inr (DIRENT_SIZE (cfg env))) s else Ret (Inr 0) s)))))))"

definition do_stat :: "kenv \<Rightarrow> string option \<Rightarrow> u32 \<Rightarrow> (errno + unit) kop" where
  "do_stat env path buf s =
     (case path of
        None \<Rightarrow> Ret (Inl EINVAL) s
      | Some pth \<Rightarrow>
          bindK (open_namev env pth 0 None s) (\<lambda>r s.
            case r of
              Inl e \<Rightarrow> Ret (Inl e) s
            | Inr result \<Rightarrow>
                bindK (vn_stat env result buf s) (\<lambda>retVal s.
                bindK (vnode_put env result s) (\<lambda>_ s.
                  Ret retVal s))))"

section \<open>Open files\<close>

text \<open>
  What the system calls rely on of \<open>fget\<close> and \<open>fput\<close>: \<open>fget\<close> of a descriptor takes a reference on
  the file in the table of the current process, \<open>fget(-1)\<close> gives a new file with one reference or
  fails, and \<open>fput\<close> drops a reference and frees the file with the last one.
\<close>

definition fget_law :: "kenv \<Rightarrow> bool" where
  "fget_law env \<longleftrightarrow> (\<forall>s p pr fd. cur_proc s = Ret (p, pr) s \<longrightarrow> fd < NFILES (cfg env) \<longrightarrow>
     fget env (int fd) s = (case p_files pr ! fd of
        None \<Rightarrow> Ret None s
      | Some f \<Rightarrow> bindK (file_upd f (\<lambda>x. x\<lparr>f_refcount := f_refcount x + 1\<rparr>) s) (\<lambda>_ s. Ret (Some f) s)))"

definition fget_new_law :: "kenv \<Rightarrow> bool" where
  "fget_new_law env \<longleftrightarrow> (\<forall>s. fget env (-1) s = Ret None s \<or> (\<exists>f x. files s f = None \<and> f_refcount x = 1
     \<and> f_vnode x = None \<and> fget env (-1) s = Ret (Some f) (s\<lparr>files := (files s)(f \<mapsto> x)\<rparr>)))"

definition fput_law :: "kenv \<Rightarrow> bool" where
  "fput_law env \<longleftrightarrow> (\<forall>s f x. files s f = Some x \<longrightarrow> 1 < f_refcount x \<longrightarrow>
     fput env f s = Ret () (s\<lparr>files := (files s)(f \<mapsto> x\<lparr>f_refcount := f_refcount x - 1\<rparr>)\<rparr>))"

definition fput_last_law :: "kenv \<Rightarrow> bool" where
  "fput_last_law env \<longleftrightarrow> (\<forall>s f x. files s f = Some x \<longrightarrow> f_refcount x = 1 \<longrightarrow>
     (f_vnode x = None \<longrightarrow> fput env f s = Ret () (s\<lparr>files := (files s)(f := None)\<rparr>))
     \<and> (\<forall>s'. fput env f s = Ret () s' \<longrightarrow> files s' = (files s)(f := None) \<and> procs s' = procs s \<and> curproc s' = curproc s))"

definition file_laws :: "kenv \<Rightarrow> bool" where
  "file_laws env \<longleftrightarrow> fget_law env \<and> fget_new_law env \<and> fput_law env \<and> fput_last_law env"

lemma fget_eq:
  "file_laws env \<Longrightarrow> cur_proc s = Ret (p, pr) s \<Longrightarrow> fd < NFILES (cfg env) \<Longrightarrow> p_files pr ! fd = Some f \<Longrightarrow>
     files s f = Some x \<Longrightarrow>
     fget env (int fd) s = Ret (Some f) (s\<lparr>files := (files s)(f \<mapsto> x\<lparr>f_refcount := f_refcount x + 1\<rparr>)\<rparr>)"
  "file_laws env \<Longrightarrow> cur_proc s = Ret (p, pr) s \<Longrightarrow> fd < NFILES (cfg env) \<Longrightarrow> p_files pr ! fd = None \<Longrightarrow>
     fget env (int fd) s = Ret None s"
  by (simp_all add: file_laws_def fget_law_def file_upd_def)

lemma fput_eq:
  "file_laws env \<Longrightarrow> files s f = Some x \<Longrightarrow> 1 < f_refcount x \<Longrightarrow>
     fput env f s = Ret () (s\<lparr>files := (files s)(f \<mapsto> x\<lparr>f_refcount := f_refcount x - 1\<rparr>)\<rparr>)"
  by (simp add: file_laws_def fput_law_def)

lemma fput_last:
  "file_laws env \<Longrightarrow> files s f = Some x \<Longrightarrow> f_refcount x = 1 \<Longrightarrow> fput env f s = Ret () s' \<Longrightarrow>
     files s' = (files s)(f := None) \<and> procs s' = procs s \<and> curproc s' = curproc s"
  unfolding file_laws_def fput_last_law_def by blast

lemma fput_last_unopened:
  "file_laws env \<Longrightarrow> files s f = Some x \<Longrightarrow> f_refcount x = 1 \<Longrightarrow> f_vnode x = None \<Longrightarrow>
     fput env f s = Ret () (s\<lparr>files := (files s)(f := None)\<rparr>)"
  unfolding file_laws_def fput_last_law_def by blast

text \<open>
  \<open>fd_ok env ext s\<close>: the current process has a table of \<open>NFILES\<close> descriptors, each of them empty or an
  open file, and the references of every open file are the descriptors that point to it and the
  \<open>ext f\<close> references held elsewhere, as by other processes.
\<close>

definition slots :: "proc \<Rightarrow> ptr \<Rightarrow> int" where
  "slots pr f = int (count_list (p_files pr) (Some f))"

definition table_ok :: "kenv \<Rightarrow> (ptr \<Rightarrow> int) \<Rightarrow> (ptr \<rightharpoonup> file_t) \<Rightarrow> proc \<Rightarrow> bool" where
  "table_ok env ext h pr \<longleftrightarrow> length (p_files pr) = NFILES (cfg env)
     \<and> (\<forall>f. Some f \<in> set (p_files pr) \<longrightarrow> h f \<noteq> None)
     \<and> (\<forall>f x. h f = Some x \<longrightarrow> f_refcount x = slots pr f + ext f)
     \<and> (\<forall>f. h f \<noteq> None \<longrightarrow> 0 < slots pr f + ext f) \<and> (\<forall>f. 0 \<le> ext f \<and> (0 < ext f \<longrightarrow> h f \<noteq> None))"

definition fd_ok :: "kenv \<Rightarrow> (ptr \<Rightarrow> int) \<Rightarrow> kstate \<Rightarrow> bool" where
  "fd_ok env ext s \<longleftrightarrow> (\<exists>p pr. curproc s = Some p \<and> procs s p = Some pr \<and> table_ok env ext (files s) pr)"

lemma table_okD:
  assumes "table_ok env ext h pr"
  shows "length (p_files pr) = NFILES (cfg env)" "Some f \<in> set (p_files pr) \<Longrightarrow> h f \<noteq> None"
    "h f = Some x \<Longrightarrow> f_refcount x = slots pr f + ext f" "h f = Some x \<Longrightarrow> 0 < slots pr f + ext f" "0 \<le> ext f"
    "0 < ext f \<Longrightarrow> h f \<noteq> None"
  using assms by (auto simp: table_ok_def)

lemma fd_okE:
  assumes "fd_ok env ext s"
  obtains p pr where "curproc s = Some p" "procs s p = Some pr" "table_ok env ext (files s) pr"
  using assms unfolding fd_ok_def by blast

lemma fd_okI: "curproc s = Some p \<Longrightarrow> procs s p = Some pr \<Longrightarrow> table_ok env ext (files s) pr \<Longrightarrow> fd_ok env ext s"
  unfolding fd_ok_def by blast

lemma slots_nonneg: "0 \<le> slots pr f"
  by (simp add: slots_def)

text \<open>A reference taken or dropped outside the table, and the last one dropped.\<close>

lemma table_ok_ref:
  assumes "table_ok env ext h pr" and "h f = Some x" and "0 \<le> ext f + d" and "0 < f_refcount x + d"
  shows "table_ok env (ext(f := ext f + d)) (h(f \<mapsto> x\<lparr>f_refcount := f_refcount x + d\<rparr>)) pr"
  using assms unfolding table_ok_def by auto

lemma table_ok_freed:
  assumes "table_ok env ext h pr" and "h f = Some x" and "f_refcount x = 1" and "0 < ext f"
  shows "table_ok env (ext(f := ext f - 1)) (h(f := None)) pr"
proof -
  have "slots pr f = 0" using table_okD(3) [OF assms(1,2)] assms(3,4) slots_nonneg [of pr f] by simp
  then have "Some f \<notin> set (p_files pr)" by (simp add: slots_def count_list_0_iff)
  moreover have "ext f = 1" using table_okD(3) [OF assms(1,2)] assms(3,4) slots_nonneg [of pr f] by simp
  ultimately show ?thesis using assms unfolding table_ok_def by auto
qed

lemma bad_fd_nat: "\<not> bad_fd env fd \<longleftrightarrow> (\<exists>n. fd = int n \<and> n < NFILES (cfg env))"
  by (auto simp: bad_fd_def intro: exI [of _ "nat fd"])

lemma count_list_update:
  assumes "i < length xs"
  shows "int (count_list (xs[i := y]) z) = int (count_list xs z) - (if xs ! i = z then 1 else 0) + (if y = z then 1 else 0)"
  using assms
proof (induction xs arbitrary: i)
  case (Cons a xs)
  show ?case
  proof (cases i)
    case (Suc k)
    then have "k < length xs" using Cons.prems by simp
    from Cons.IH [OF this] show ?thesis using Suc by auto
  qed auto
qed simp

lemma slots_update:
  assumes "i < length (p_files pr)"
  shows "slots (pr\<lparr>p_files := (p_files pr)[i := y]\<rparr>) f
    = slots pr f - (if p_files pr ! i = Some f then 1 else 0) + (if y = Some f then 1 else 0)"
  using count_list_update [OF assms, of y "Some f"] by (simp add: slots_def)

lemma empty_from_spec:
  "(empty_from k fs = Inl EMFILE \<and> None \<notin> set fs)
   \<or> (\<exists>i<length fs. empty_from k fs = Inr (k + i) \<and> fs ! i = None \<and> (\<forall>j<i. fs ! j \<noteq> None))"
proof (induction fs arbitrary: k)
  case (Cons f fs)
  show ?case
  proof (cases "f = None")
    case False
    from Cons [of "Suc k"] show ?thesis
    proof
      assume "empty_from (Suc k) fs = Inl EMFILE \<and> None \<notin> set fs"
      then show ?thesis using False by auto
    next
      assume "\<exists>i<length fs. empty_from (Suc k) fs = Inr (Suc k + i) \<and> fs ! i = None \<and> (\<forall>j<i. fs ! j \<noteq> None)"
      then obtain i where i: "i < length fs" "empty_from (Suc k) fs = Inr (Suc k + i)" "fs ! i = None" "\<forall>j<i. fs ! j \<noteq> None"
        by blast
      then show ?thesis using False
        by (intro disjI2 exI [of _ "Suc i"]) (auto simp: less_Suc_eq_0_disj)
    qed
  qed auto
qed simp


lemma table_ok_slot:
  assumes ok: "table_ok env ext h pr" and fd: "fd < NFILES (cfg env)"
    and y: "\<forall>f. y = Some f \<longrightarrow> 0 < ext f"
  shows "table_ok env (\<lambda>f. ext f + (if p_files pr ! fd = Some f then 1 else 0) - (if y = Some f then 1 else 0)) h
    (pr\<lparr>p_files := (p_files pr)[fd := y]\<rparr>)"
proof -
  have "slots (pr\<lparr>p_files := (p_files pr)[fd := y]\<rparr>) f
    = slots pr f - (if p_files pr ! fd = Some f then 1 else 0) + (if y = Some f then 1 else 0)" for f
    using slots_update fd table_okD(1) [OF ok] by simp
  moreover have "Some f \<in> set ((p_files pr)[fd := y]) \<Longrightarrow> h f \<noteq> None" for f
    using table_okD(2,6) [OF ok] y set_update_subset_insert [of "p_files pr" fd y] by blast
  moreover have "0 \<le> ext f + (if p_files pr ! fd = Some f then 1 else 0) - (if y = Some f then 1 else 0)" for f
  proof (cases "y = Some f")
    case True
    then show ?thesis using y by force
  qed (use table_okD(5) [OF ok, of f] in simp)
  moreover have "p_files pr ! fd \<in> set (p_files pr)" using fd table_okD(1) [OF ok] by simp
  ultimately show ?thesis using ok unfolding table_ok_def by (auto split: if_splits)
qed

lemma cur_proc_eq: "curproc s = Some p \<Longrightarrow> procs s p = Some pr \<Longrightarrow> cur_proc s = Ret (p, pr) s"
  by (simp add: cur_proc_def)

text \<open>Each of the three primitive steps moves one reference between the table and \<open>ext\<close>.\<close>

lemma fget_fd_ok:
  assumes ok: "fd_ok env ext s" and laws: "file_laws env" and fd: "fd < NFILES (cfg env)"
    and r: "fget env (int fd) s = Ret r s1"
  shows "\<exists>p pr. curproc s1 = Some p \<and> procs s1 p = Some pr \<and> p_files pr ! fd = r \<and> procs s1 = procs s \<and> (case r of
      None \<Rightarrow> s1 = s
    | Some f \<Rightarrow> fd_ok env (ext(f := ext f + 1)) s1)"
proof -
  from ok obtain p pr where pr: "curproc s = Some p" "procs s p = Some pr" "table_ok env ext (files s) pr"
    by (rule fd_okE)
  note cp = cur_proc_eq [OF pr(1,2)]
  show ?thesis
  proof (cases "p_files pr ! fd")
    case None
    then show ?thesis using fget_eq(2) [OF laws cp fd None] r pr(1,2) by simp
  next
    case (Some f)
    then have "Some f \<in> set (p_files pr)" using fd table_okD(1) [OF pr(3)] by (metis nth_mem)
    then obtain x where x: "files s f = Some x" using table_okD(2) [OF pr(3)] by blast
    let ?s = "s\<lparr>files := (files s)(f \<mapsto> x\<lparr>f_refcount := f_refcount x + 1\<rparr>)\<rparr>"
    have "table_ok env (ext(f := ext f + 1)) (files ?s) pr"
      using table_ok_ref [OF pr(3) x, of 1] table_okD(3,4) [OF pr(3) x] table_okD(5) [OF pr(3), of f] by simp
    then have "fd_ok env (ext(f := ext f + 1)) ?s" using pr(1,2) by (intro fd_okI [of _ p pr]) simp_all
    moreover have "s1 = ?s" "r = Some f" using fget_eq(1) [OF laws cp fd Some x] r by simp_all
    ultimately show ?thesis using pr(1,2) Some by simp
  qed
qed

lemma fput_fd_ok:
  assumes ok: "fd_ok env ext s" and laws: "file_laws env" and f: "0 < ext f"
    and r: "fput env f s = Ret () s1"
  shows "fd_ok env (ext(f := ext f - 1)) s1 \<and> procs s1 = procs s \<and> curproc s1 = curproc s"
proof -
  from ok obtain p pr where pr: "curproc s = Some p" "procs s p = Some pr" "table_ok env ext (files s) pr"
    by (rule fd_okE)
  obtain x where x: "files s f = Some x" using table_okD(6) [OF pr(3) f] by blast
  note cnt = table_okD(3,4) [OF pr(3) x]
  show ?thesis
  proof (cases "1 < f_refcount x")
    case True
    let ?s = "s\<lparr>files := (files s)(f \<mapsto> x\<lparr>f_refcount := f_refcount x - 1\<rparr>)\<rparr>"
    have "table_ok env (ext(f := ext f - 1)) (files ?s) pr"
      using table_ok_ref [OF pr(3) x, of "-1"] f True by simp
    then have "fd_ok env (ext(f := ext f - 1)) ?s" using pr(1,2) by (intro fd_okI [of _ p pr]) simp_all
    moreover have "s1 = ?s" using fput_eq [OF laws x True] r by simp
    ultimately show ?thesis by simp
  next
    case False
    then have one: "f_refcount x = 1" using cnt f by simp
    note s1 = fput_last [OF laws x one r]
    then have "fd_ok env (ext(f := ext f - 1)) s1"
      using pr(1,2) table_ok_freed [OF pr(3) x one f] by (intro fd_okI [of _ p pr]) simp_all
    then show ?thesis using s1 by simp
  qed
qed

lemma set_fd_ok:
  assumes ok: "fd_ok env ext s" and fd: "fd < NFILES (cfg env)" and r: "set_fd fd y s = Ret () s1"
    and cur: "curproc s = Some p" "procs s p = Some pr" and y: "\<forall>f. y = Some f \<longrightarrow> 0 < ext f"
  shows "fd_ok env (\<lambda>f. ext f + (if p_files pr ! fd = Some f then 1 else 0) - (if y = Some f then 1 else 0)) s1
    \<and> curproc s1 = Some p \<and> procs s1 p = Some (pr\<lparr>p_files := (p_files pr)[fd := y]\<rparr>)"
proof -
  have t: "table_ok env ext (files s) pr" using ok cur by (auto simp: fd_ok_def)
  have s1: "s1 = s\<lparr>procs := (procs s)(p \<mapsto> pr\<lparr>p_files := (p_files pr)[fd := y]\<rparr>)\<rparr>"
    using r cur by (simp add: set_fd_def proc_upd_def cur_proc_eq)
  show ?thesis unfolding s1 using cur table_ok_slot [OF t fd y]
    by (intro conjI fd_okI [of _ p "pr\<lparr>p_files := (p_files pr)[fd := y]\<rparr>"]) simp_all
qed



text \<open>
  The three system calls keep the table consistent; each takes a reference on the file of a
  descriptor first.
\<close>

lemma do_close_fd_ok:
  assumes ok: "fd_ok env ext s" and laws: "file_laws env" and r: "do_close env fd s = Ret r s'"
  shows "fd_ok env ext s' \<and> (\<forall>p pr. r = Inr () \<and> curproc s' = Some p \<and> procs s' p = Some pr \<longrightarrow> p_files pr ! nat fd = None)"
proof (cases "bad_fd env fd")
  case True
  then show ?thesis using r ok by (auto simp: do_close_def)
next
  case False
  then obtain n where n: "fd = int n" "n < NFILES (cfg env)" by (auto simp: bad_fd_nat)
  from r False obtain ro s1 where g: "fget env (int n) s = Ret ro s1"
    and rest: "(case ro of None \<Rightarrow> Ret (Inl EBADF) s1 | Some cur \<Rightarrow>
       bindK (set_fd n None s1) (\<lambda>_ s. bindK (fput env cur s) (\<lambda>_ s. bindK (fput env cur s) (\<lambda>_ s. Ret (Inr ()) s)))) = Ret r s'"
    by (auto simp: do_close_def n(1) bindK_eq_Ret cong: option.case_cong)
  from fget_fd_ok [OF ok laws n(2) g] obtain p pr where k1: "curproc s1 = Some p" "procs s1 p = Some pr" "p_files pr ! n = ro"
    "case ro of None \<Rightarrow> s1 = s | Some f \<Rightarrow> fd_ok env (ext(f := ext f + 1)) s1" by blast
  show ?thesis
  proof (cases ro)
    case None
    then show ?thesis using rest k1 ok by auto
  next
    case (Some f)
    then obtain s2 s3 where s2: "set_fd n None s1 = Ret () s2" and s3: "fput env f s2 = Ret () s3" and s4: "fput env f s3 = Ret () s'"
      using rest by (auto simp: bindK_eq_Ret)
    have e: "0 \<le> ext f" using ok table_okD(5) by (auto elim: fd_okE)
    have len: "n < length (p_files pr)" using ok n(2) k1 Some by (auto simp: fd_ok_def table_ok_def)
    have "(\<lambda>g. (ext(f := ext f + 1)) g + (if p_files pr ! n = Some g then 1 else 0) - (if None = Some g then 1 else 0))
        = ext(f := ext f + 2)"
      using k1(3) Some by (auto simp: fun_eq_iff)
    then have k2: "fd_ok env (ext(f := ext f + 2)) s2" "curproc s2 = Some p" "procs s2 p = Some (pr\<lparr>p_files := (p_files pr)[n := None]\<rparr>)"
      using set_fd_ok [OF _ n(2) s2 k1(1,2), of "ext(f := ext f + 1)"] k1(4) Some by auto
    have k3: "fd_ok env (ext(f := ext f + 1)) s3" "curproc s3 = Some p" "procs s3 = procs s2"
      using fput_fd_ok [OF k2(1) laws _ s3] e k2(2) by (auto simp: add.commute)
    show ?thesis using fput_fd_ok [OF k3(1) laws _ s4] e k3 k2 len n(1) by auto
  qed
qed

lemma do_dup_fd_ok:
  assumes ok: "fd_ok env ext s" and laws: "file_laws env" and r: "do_dup env fd s = Ret r s'"
  shows "fd_ok env ext s'"
proof (cases "bad_fd env fd")
  case True
  then show ?thesis using r ok by (simp add: do_dup_def)
next
  case False
  then obtain n where n: "fd = int n" "n < NFILES (cfg env)" by (auto simp: bad_fd_nat)
  from r False obtain ro s1 where g: "fget env (int n) s = Ret ro s1"
    and rest: "(case ro of None \<Rightarrow> Ret (Inl EBADF) s1 | Some cur \<Rightarrow> bindK (cur_proc s1) (\<lambda>(_, p) s.
       case get_empty_fd p of
         Inl e \<Rightarrow> bindK (fput env cur s) (\<lambda>_ s. Ret (Inl e) s)
       | Inr new_fd \<Rightarrow> bindK (set_fd new_fd (Some cur) s) (\<lambda>_ s. Ret (Inr new_fd) s))) = Ret r s'"
    by (auto simp: do_dup_def n(1) bindK_eq_Ret)
  from fget_fd_ok [OF ok laws n(2) g] obtain p pr where k1: "curproc s1 = Some p" "procs s1 p = Some pr" "p_files pr ! n = ro"
    "case ro of None \<Rightarrow> s1 = s | Some f \<Rightarrow> fd_ok env (ext(f := ext f + 1)) s1" by blast
  show ?thesis
  proof (cases ro)
    case None
    then show ?thesis using rest k1 ok by simp
  next
    case (Some f)
    have e: "0 \<le> ext f" using ok table_okD(5) by (auto elim: fd_okE)
    have k: "fd_ok env (ext(f := ext f + 1)) s1" using k1(4) Some by auto
    have len: "length (p_files pr) = NFILES (cfg env)" using k k1(1,2) by (auto simp: fd_ok_def table_ok_def)
    note rest = rest [unfolded Some option.case cur_proc_eq [OF k1(1,2)] bindK.simps prod.case]
    from empty_from_spec [of 0 "p_files pr"] show ?thesis
    proof
      assume "empty_from 0 (p_files pr) = Inl EMFILE \<and> None \<notin> set (p_files pr)"
      then have "fput env f s1 = Ret () s'" using rest by (auto simp: get_empty_fd_def bindK_eq_Ret)
      from fput_fd_ok [OF k laws _ this] show ?thesis using e by simp
    next
      assume "\<exists>i<length (p_files pr). empty_from 0 (p_files pr) = Inr (0 + i) \<and> p_files pr ! i = None \<and> (\<forall>j<i. p_files pr ! j \<noteq> None)"
      then obtain i where i: "i < NFILES (cfg env)" "get_empty_fd pr = Inr i" "p_files pr ! i = None"
        by (auto simp: get_empty_fd_def len)
      then have sf: "set_fd i (Some f) s1 = Ret () s'" using rest by (auto simp: bindK_eq_Ret)
      have "(\<lambda>g. (ext(f := ext f + 1)) g + (if p_files pr ! i = Some g then 1 else 0) - (if Some f = Some g then 1 else 0)) = ext"
        using i(3) by (auto simp: fun_eq_iff)
      then show ?thesis using set_fd_ok [OF k i(1) sf k1(1,2)] e by auto
    qed
  qed
qed

lemma do_dup2_fd_ok:
  assumes ok: "fd_ok env ext s" and laws: "file_laws env" and r: "do_dup2 env ofd nfd s = Ret r s'"
  shows "fd_ok env ext s'"
proof (cases "bad_fd env ofd \<or> bad_fd env nfd")
  case True
  then show ?thesis using r ok by (auto simp: do_dup2_def split: if_splits)
next
  case False
  then obtain n m where n: "ofd = int n" "n < NFILES (cfg env)" and m: "nfd = int m" "m < NFILES (cfg env)"
    by (auto simp: bad_fd_nat)
  from r False obtain ro s1 where g: "fget env (int n) s = Ret ro s1"
    and rest: "(case ro of None \<Rightarrow> Ret (Inl EBADF) s1 | Some cur \<Rightarrow>
       if ofd = nfd then bindK (fput env cur s1) (\<lambda>_ s. Ret (Inr nfd) s)
       else bindK (cur_proc s1) (\<lambda>(_, p) s.
         bindK (if p_files p ! nat nfd \<noteq> None then do_close env nfd s else Ret (Inr ()) s) (\<lambda>ret s.
         case ret of Inl e \<Rightarrow> bindK (fput env cur s) (\<lambda>_ s. Ret (Inl e) s)
         | Inr _ \<Rightarrow> bindK (set_fd (nat nfd) (Some cur) s) (\<lambda>_ s. Ret (Inr nfd) s)))) = Ret r s'"
    unfolding do_dup2_def n(1) by (auto simp: bindK_eq_Ret)
  from fget_fd_ok [OF ok laws n(2) g] obtain p pr where k1: "curproc s1 = Some p" "procs s1 p = Some pr" "p_files pr ! n = ro"
    "case ro of None \<Rightarrow> s1 = s | Some f \<Rightarrow> fd_ok env (ext(f := ext f + 1)) s1" by blast
  show ?thesis
  proof (cases ro)
    case None
    then show ?thesis using rest k1 ok by simp
  next
    case (Some f)
    have e: "0 \<le> ext f" using ok table_okD(5) by (auto elim: fd_okE)
    have k: "fd_ok env (ext(f := ext f + 1)) s1" using k1(4) Some by auto
    have put: "fd_ok env ext s3" if "fd_ok env (ext(f := ext f + 1)) s2" "fput env f s2 = Ret () s3" for s2 s3
      using fput_fd_ok [OF that(1) laws _ that(2)] e by simp
    show ?thesis
    proof (cases "ofd = nfd")
      case True
      then have "fput env f s1 = Ret () s'" using rest Some by (auto simp: bindK_eq_Ret)
      then show ?thesis using put [OF k] by simp
    next
      case False
      then obtain ret s2 where c: "(if p_files pr ! m \<noteq> None then do_close env nfd s1 else Ret (Inr ()) s1) = Ret ret s2"
        and rest2: "(case ret of Inl e \<Rightarrow> bindK (fput env f s2) (\<lambda>_ s. Ret (Inl e) s)
          | Inr _ \<Rightarrow> bindK (set_fd m (Some f) s2) (\<lambda>_ s. Ret (Inr nfd) s)) = Ret r s'"
        using rest Some m(1) by (auto simp: bindK_eq_Ret cur_proc_eq [OF k1(1,2)] cong: sum.case_cong)
      have k2: "fd_ok env (ext(f := ext f + 1)) s2" using c k do_close_fd_ok [OF k laws] by (auto split: if_splits)
      then obtain p2 pr2 where p2: "curproc s2 = Some p2" "procs s2 p2 = Some pr2" by (rule fd_okE)
      show ?thesis
      proof (cases ret)
        case (Inl e')
        then show ?thesis using rest2 put [OF k2] by (auto simp: bindK_eq_Ret)
      next
        case (Inr u)
        then have sf: "set_fd m (Some f) s2 = Ret () s'" using rest2 by (auto simp: bindK_eq_Ret)
        have "p_files pr2 ! m = None"
          using c Inr p2 k1(1,2) do_close_fd_ok [OF k laws, of nfd] m(1) by (auto split: if_splits)
        then have "(\<lambda>g. (ext(f := ext f + 1)) g + (if p_files pr2 ! m = Some g then 1 else 0) - (if Some f = Some g then 1 else 0)) = ext"
          by (auto simp: fun_eq_iff)
        then show ?thesis using set_fd_ok [OF k2 m(2) sf p2] e by auto
      qed
    qed
  qed
qed


inductive fd_step :: "kenv \<Rightarrow> kstate \<Rightarrow> kstate \<Rightarrow> bool" for env where
  fd_dup: "do_dup env fd s = Ret r s' \<Longrightarrow> fd_step env s s'"
| fd_dup2: "do_dup2 env ofd nfd s = Ret r' s' \<Longrightarrow> fd_step env s s'"
| fd_close: "do_close env fd s = Ret r'' s' \<Longrightarrow> fd_step env s s'"

inductive fd_reach :: "kenv \<Rightarrow> kstate \<Rightarrow> kstate \<Rightarrow> bool" for env s where
  fd_refl: "fd_reach env s s"
| fd_more: "fd_reach env s s' \<Longrightarrow> fd_step env s' s'' \<Longrightarrow> fd_reach env s s''"

text \<open>
  Files as the examples use them: descriptors and references as described, and a last \<open>fput\<close> that
  frees the file.
\<close>

definition example_fget :: "int \<Rightarrow> ptr option kop" where
  "example_fget fd s =
     (if fd = -1
      then case first_free (files s) of
             None \<Rightarrow> Ret None s
           | Some f \<Rightarrow> Ret (Some f) (s\<lparr>files := (files s)(f \<mapsto> \<lparr>f_pos = 0, f_mode = 0, f_refcount = 1, f_vnode = None\<rparr>)\<rparr>)
      else bindK (cur_proc s) (\<lambda>(_, pr) s.
        case p_files pr ! nat fd of
          None \<Rightarrow> Ret None s
        | Some f \<Rightarrow> bindK (file_upd f (\<lambda>x. x\<lparr>f_refcount := f_refcount x + 1\<rparr>) s) (\<lambda>_ s. Ret (Some f) s)))"

definition example_fput :: "ptr \<Rightarrow> unit kop" where
  "example_fput f s =
     bindK (deref (files s) f s) (\<lambda>x s.
       if 1 < f_refcount x then Ret () (s\<lparr>files := (files s)(f \<mapsto> x\<lparr>f_refcount := f_refcount x - 1\<rparr>)\<rparr>)
       else Ret () (s\<lparr>files := (files s)(f := None)\<rparr>))"

definition files_env :: kenv where
  "files_env = example_env\<lparr>fget := example_fget, fput := example_fput\<rparr>"

lemma files_env_sel [simp]: "fget files_env = example_fget" "fput files_env = example_fput" "cfg files_env = example_cfg"
  by (simp_all add: files_env_def example_env_def)

lemma files_env_laws: "file_laws files_env"
proof -
  have "fget_law files_env" unfolding fget_law_def by (simp add: example_fget_def)
  moreover have "fget_new_law files_env" unfolding fget_new_law_def
  proof
    fix s
    show "fget files_env (-1) s = Ret None s \<or> (\<exists>f x. files s f = None \<and> f_refcount x = 1
      \<and> f_vnode x = None \<and> fget files_env (-1) s = Ret (Some f) (s\<lparr>files := (files s)(f \<mapsto> x)\<rparr>))"
    proof (cases "first_free (files s)")
      case (Some f)
      then show ?thesis using first_free_fresh [OF Some]
        by (intro disjI2 exI [of _ f] exI [of _ "\<lparr>f_pos = 0, f_mode = 0, f_refcount = 1, f_vnode = None\<rparr>"])
          (simp add: example_fget_def)
    qed (simp add: example_fget_def)
  qed
  moreover have "fput_law files_env" "fput_last_law files_env"
    by (auto simp: fput_law_def fput_last_law_def example_fput_def)
  ultimately show ?thesis by (simp add: file_laws_def)
qed

text \<open>Descriptors 0 and 2 of four are one open file.\<close>

definition example_open :: file_t where
  "example_open = \<lparr>f_pos = 0, f_mode = 3, f_refcount = 2, f_vnode = Some 1\<rparr>"

definition example_table :: proc where
  "example_table = example_proc\<lparr>p_files := [Some 1, None, Some 1, None]\<rparr>"

definition example_fds :: kstate where
  "example_fds = (kstate0 (\<lambda>_. None))\<lparr>procs := [1 \<mapsto> example_table], files := [1 \<mapsto> example_open]\<rparr>"

lemma example_fds_sel [simp]:
  "curproc example_fds = Some 1" "procs example_fds = [1 \<mapsto> example_table]" "files example_fds = [1 \<mapsto> example_open]"
  "p_files example_table = [Some 1, None, Some 1, None]"
  by (simp_all add: example_fds_def kstate0_def example_table_def)

lemma example_fds_ok: "fd_ok files_env (\<lambda>_. 0) example_fds"
  by (rule fd_okI [of _ 1 example_table])
    (auto simp: table_ok_def slots_def example_open_def example_cfg_def split: if_splits)

text \<open>
  C19: whatever sequence of \<open>dup\<close>, \<open>dup2\<close> and \<open>close\<close> calls a process makes, with whatever
  arguments, every descriptor in its table stays an open file, and the reference count of every
  open file stays the number of its descriptors plus the references held elsewhere: no reference
  is leaked and no file is freed that a descriptor points to.
\<close>

theorem fd_refcounts_balanced:
  assumes "file_laws env" and "fd_ok env ext s" and "fd_reach env s s'"
  shows "fd_ok env ext s'"
  using assms(3)
proof induction
  case (fd_more s' s'')
  from fd_more.hyps(2) show ?case
    using do_dup_fd_ok [OF fd_more.IH assms(1)] do_dup2_fd_ok [OF fd_more.IH assms(1)] do_close_fd_ok [OF fd_more.IH assms(1)]
    by cases blast+
qed (rule assms(2))

theorem fd_refcounts_balanced_witness: "fd_ok files_env (\<lambda>_. 0) example_fds \<and> fd_ok files_env (\<lambda>_. 0)
    (case do_close files_env 2 example_fds of Ret _ s' \<Rightarrow> s' | _ \<Rightarrow> example_fds)"
proof -
  have "\<exists>r s'. do_close files_env 2 example_fds = Ret r s'"
    by (simp add: do_close_def bad_fd_def example_cfg_def example_fget_def example_fput_def cur_proc_def set_fd_def
        proc_upd_def file_upd_def example_open_def)
  then obtain r s' where c: "do_close files_env 2 example_fds = Ret r s'" by blast
  then have "fd_reach files_env example_fds s'" by (blast intro: fd_reach.intros fd_step.intros)
  from fd_refcounts_balanced [OF files_env_laws example_fds_ok this] show ?thesis
    using c example_fds_ok by simp
qed

lemma do_dup_cases:
  assumes laws: "file_laws env" and ok: "fd_ok env ext s" and cur: "curproc s = Some p" "procs s p = Some pr"
    and fd: "fd < NFILES (cfg env)" "p_files pr ! fd = Some f" and x: "files s f = Some x"
  shows "(None \<notin> set (p_files pr) \<and> do_dup env (int fd) s = Ret (Inl EMFILE) s)
    \<or> (\<exists>i<NFILES (cfg env). p_files pr ! i = None \<and> (\<forall>j<i. p_files pr ! j \<noteq> None)
      \<and> do_dup env (int fd) s = Ret (Inr i) (s\<lparr>files := (files s)(f \<mapsto> x\<lparr>f_refcount := f_refcount x + 1\<rparr>),
          procs := (procs s)(p \<mapsto> pr\<lparr>p_files := (p_files pr)[i := Some f]\<rparr>)\<rparr>))"
proof -
  have t: "table_ok env ext (files s) pr" using ok cur by (auto simp: fd_ok_def)
  let ?s = "s\<lparr>files := (files s)(f \<mapsto> x\<lparr>f_refcount := f_refcount x + 1\<rparr>)\<rparr>"
  have g: "fget env (int fd) s = Ret (Some f) ?s" by (rule fget_eq(1) [OF laws cur_proc_eq [OF cur] fd x])
  have cp: "cur_proc ?s = Ret (p, pr) ?s" using cur by (intro cur_proc_eq) simp_all
  have nb: "\<not> bad_fd env (int fd)" using fd(1) by (auto simp: bad_fd_nat)
  have "1 < f_refcount x + 1" using table_okD(3,4) [OF t x] by simp
  then have put: "fput env f ?s = Ret () s" using fput_eq [OF laws, of ?s f "x\<lparr>f_refcount := f_refcount x + 1\<rparr>"] x
    by (simp add: fun_upd_idem)
  from empty_from_spec [of 0 "p_files pr"] show ?thesis
  proof
    assume "empty_from 0 (p_files pr) = Inl EMFILE \<and> None \<notin> set (p_files pr)"
    then show ?thesis using nb g cp put by (auto simp: do_dup_def get_empty_fd_def)
  next
    assume "\<exists>i<length (p_files pr). empty_from 0 (p_files pr) = Inr (0 + i) \<and> p_files pr ! i = None \<and> (\<forall>j<i. p_files pr ! j \<noteq> None)"
    then obtain i where "i < NFILES (cfg env)" "get_empty_fd pr = Inr i" "p_files pr ! i = None" "\<forall>j<i. p_files pr ! j \<noteq> None"
      using table_okD(1) [OF t] by (auto simp: get_empty_fd_def)
    then show ?thesis using nb g cp cur by (auto simp: do_dup_def set_fd_def proc_upd_def)
  qed
qed

text \<open>
  \<open>do_dup\<close> of an open descriptor gives the lowest free descriptor, which then points to the same
  file, and takes one reference on it; when no descriptor is free it fails with \<open>EMFILE\<close> and changes
  nothing.
\<close>

theorem do_dup_lowest:
  assumes laws: "file_laws env" and ok: "fd_ok env ext s" and cur: "curproc s = Some p" "procs s p = Some pr"
    and fd: "fd < NFILES (cfg env)" "p_files pr ! fd = Some f" and x: "files s f = Some x"
  shows "(None \<notin> set (p_files pr) \<and> do_dup env (int fd) s = Ret (Inl EMFILE) s)
    \<or> (\<exists>i<NFILES (cfg env). p_files pr ! i = None \<and> (\<forall>j<i. p_files pr ! j \<noteq> None)
      \<and> do_dup env (int fd) s = Ret (Inr i) (s\<lparr>files := (files s)(f \<mapsto> x\<lparr>f_refcount := f_refcount x + 1\<rparr>),
          procs := (procs s)(p \<mapsto> pr\<lparr>p_files := (p_files pr)[i := Some f]\<rparr>)\<rparr>))"
  by (rule do_dup_cases [OF assms])

theorem do_dup_lowest_witness:
  "\<exists>i<NFILES example_cfg. p_files example_table ! i = None
      \<and> do_dup files_env (int 0) example_fds = Ret (Inr i) (example_fds\<lparr>files := (files example_fds)
          (1 \<mapsto> example_open\<lparr>f_refcount := f_refcount example_open + 1\<rparr>),
          procs := (procs example_fds)(1 \<mapsto> example_table\<lparr>p_files := (p_files example_table)[i := Some 1]\<rparr>)\<rparr>)"
  using do_dup_lowest [OF files_env_laws example_fds_ok, of 1 example_table 0 1 example_open]
  by (auto simp: example_cfg_def)

text \<open>
  C33: closing the descriptor that \<open>do_dup\<close> gave undoes it: the state is the one before.
\<close>

theorem do_dup_close_roundtrip:
  assumes laws: "file_laws env" and ok: "fd_ok env ext s" and cur: "curproc s = Some p" "procs s p = Some pr"
    and fd: "fd < NFILES (cfg env)" "p_files pr ! fd = Some f" and x: "files s f = Some x"
    and d: "do_dup env (int fd) s = Ret (Inr i) s'"
  shows "do_close env (int i) s' = Ret (Inr ()) s"
proof -
  have t: "table_ok env ext (files s) pr" using ok cur by (auto simp: fd_ok_def)
  have i: "i < NFILES (cfg env)" "p_files pr ! i = None"
    and s': "s' = s\<lparr>files := (files s)(f \<mapsto> x\<lparr>f_refcount := f_refcount x + 1\<rparr>),
          procs := (procs s)(p \<mapsto> pr\<lparr>p_files := (p_files pr)[i := Some f]\<rparr>)\<rparr>"
    using do_dup_cases [OF laws ok cur fd x] d by auto
  let ?x = "\<lambda>n. x\<lparr>f_refcount := f_refcount x + n\<rparr>"
  let ?pr = "pr\<lparr>p_files := (p_files pr)[i := Some f]\<rparr>"
  have pos: "0 < f_refcount x" and len: "length (p_files pr) = NFILES (cfg env)"
    using table_okD(1) [OF t] table_okD(3,4) [OF t x] by simp_all
  have cp: "cur_proc s' = Ret (p, ?pr) s'" using cur by (intro cur_proc_eq) (simp_all add: s')
  let ?s1 = "s'\<lparr>files := (files s')(f \<mapsto> ?x 2)\<rparr>"
  have g: "fget env (int i) s' = Ret (Some f) ?s1"
    using fget_eq(1) [OF laws cp i(1), of f "?x 1"] len i(1) by (simp add: s' add.assoc)
  let ?s2 = "s\<lparr>files := (files s)(f \<mapsto> ?x 2)\<rparr>"
  have "(p_files pr)[i := None] = p_files pr" using i(2) by (metis list_update_id)
  then have "?pr\<lparr>p_files := (p_files ?pr)[i := None]\<rparr> = pr" by simp
  then have sf: "set_fd i None ?s1 = Ret () ?s2"
    using cur by (simp add: set_fd_def cur_proc_def proc_upd_def s' fun_upd_idem)
  have "fput env f ?s2 = Ret () (s\<lparr>files := (files s)(f \<mapsto> ?x 1)\<rparr>)"
    using fput_eq [OF laws, of ?s2 f "?x 2"] pos by (simp add: add.commute)
  moreover have "fput env f (s\<lparr>files := (files s)(f \<mapsto> ?x 1)\<rparr>) = Ret () s"
    using fput_eq [OF laws, of "s\<lparr>files := (files s)(f \<mapsto> ?x 1)\<rparr>" f "?x 1"] pos x by (simp add: fun_upd_idem)
  moreover have "\<not> bad_fd env (int i)" using i(1) by (auto simp: bad_fd_nat)
  ultimately show ?thesis using g sf by (simp add: do_close_def)
qed

theorem do_dup_close_roundtrip_witness:
  "\<exists>s'. do_dup files_env (int 0) example_fds = Ret (Inr 1) s' \<and> do_close files_env (int 1) s' = Ret (Inr ()) example_fds"
proof -
  have "\<exists>s'. do_dup files_env (int 0) example_fds = Ret (Inr 1) s'"
    by (simp add: do_dup_def bad_fd_def example_cfg_def example_fget_def cur_proc_def set_fd_def proc_upd_def file_upd_def
        get_empty_fd_def)
  then obtain s' where d: "do_dup files_env (int 0) example_fds = Ret (Inr 1) s'" by blast
  from do_dup_close_roundtrip [OF files_env_laws example_fds_ok _ _ _ _ _ d, of 1 example_table 1 example_open]
  show ?thesis using d by (simp add: example_cfg_def)
qed

section \<open>Positions\<close>

lemma file_laws_cong:
  assumes "fget env' = fget env" and "fput env' = fput env" and "cfg env' = cfg env"
  shows "file_laws env' = file_laws env"
  unfolding file_laws_def fget_law_def fget_new_law_def fput_law_def fput_last_law_def assms ..

text \<open>
  Looking at an open file through a descriptor: \<open>opened env s fd f x\<close> says that descriptor \<open>fd\<close>
  of the current process is the file \<open>f\<close>, which is in the state \<open>x\<close>.
\<close>

definition opened :: "kenv \<Rightarrow> kstate \<Rightarrow> nat \<Rightarrow> ptr \<Rightarrow> file_t \<Rightarrow> bool" where
  "opened env s fd f x \<longleftrightarrow> fd < NFILES (cfg env) \<and> files s f = Some x \<and> 0 < f_refcount x
     \<and> (\<exists>p pr. curproc s = Some p \<and> procs s p = Some pr \<and> p_files pr ! fd = Some f)"

lemma opened_fget:
  assumes "file_laws env" and "opened env s fd f x"
  shows "\<not> bad_fd env (int fd)"
    "fget env (int fd) s = Ret (Some f) (s\<lparr>files := (files s)(f \<mapsto> x\<lparr>f_refcount := f_refcount x + 1\<rparr>)\<rparr>)"
  using assms fget_eq(1) [OF assms(1) cur_proc_eq] by (auto simp: opened_def bad_fd_nat)

lemma opened_fput:
  assumes "file_laws env" and "0 < f_refcount y"
  shows "fput env f (s\<lparr>files := (files s)(f \<mapsto> y\<lparr>f_refcount := f_refcount y + 1\<rparr>)\<rparr>) = Ret () (s\<lparr>files := (files s)(f \<mapsto> y)\<rparr>)"
  using fput_eq [OF assms(1), of "s\<lparr>files := (files s)(f \<mapsto> y\<lparr>f_refcount := f_refcount y + 1\<rparr>)\<rparr>" f
    "y\<lparr>f_refcount := f_refcount y + 1\<rparr>"] assms(2) by simp

text \<open>
  The position that \<open>whence\<close> and the offset ask for.
\<close>

definition seek_target :: "kconfig \<Rightarrow> int \<Rightarrow> u32 \<Rightarrow> file_t \<Rightarrow> vnode \<Rightarrow> u32 option" where
  "seek_target c whence offset x v =
     (if whence = SEEK_SET c then Some offset
      else if whence = SEEK_CUR c then Some (f_pos x + offset)
      else if whence = SEEK_END c then Some (vn_len v + offset) else None)"

text \<open>
  \<open>do_lseek\<close> on an open file moves the position to the offset from the start, from the current
  position or from the end of the file and returns it, when that is not negative as a signed number. Otherwise, and for an
  unknown \<open>whence\<close>, it fails with \<open>EINVAL\<close>. It changes nothing else and keeps no reference.
\<close>

theorem do_lseek_correct:
  assumes laws: "file_laws env" and op: "opened env s fd f x" and vn: "f_vnode x = Some vn" "vnodes s vn = Some v"
    and c: "distinct [SEEK_SET (cfg env), SEEK_CUR (cfg env), SEEK_END (cfg env)]"
  shows "do_lseek env (int fd) offset whence s =
    (case seek_target (cfg env) whence offset x v of
       None \<Rightarrow> Ret (Inl EINVAL) s
     | Some pos \<Rightarrow> if 0 \<le> sint pos then Ret (Inr pos) (s\<lparr>files := (files s)(f \<mapsto> x\<lparr>f_pos := pos\<rparr>)\<rparr>)
                   else Ret (Inl EINVAL) s)"
proof -
  let ?s = "s\<lparr>files := (files s)(f \<mapsto> x\<lparr>f_refcount := f_refcount x + 1\<rparr>)\<rparr>"
  note g = opened_fget [OF laws op]
  have x: "files s f = Some x" "0 < f_refcount x" using op by (simp_all add: opened_def)
  have put: "fput env f ?s = Ret () s" using opened_fput [OF laws x(2), of f s] x(1) by (simp add: fun_upd_idem)
  have putp: "fput env f (s\<lparr>files := (files s)(f \<mapsto> x\<lparr>f_pos := pos, f_refcount := f_refcount x + 1\<rparr>)\<rparr>)
      = Ret () (s\<lparr>files := (files s)(f \<mapsto> x\<lparr>f_pos := pos\<rparr>)\<rparr>)" for pos
    using opened_fput [OF laws, of "x\<lparr>f_pos := pos\<rparr>" f s] x(2) by simp
  have upd: "(x\<lparr>f_refcount := f_refcount x + 1\<rparr>)\<lparr>f_pos := pos\<rparr> = x\<lparr>f_pos := pos, f_refcount := f_refcount x + 1\<rparr>" for pos by simp
  have sp: "seek_pos env offset whence f ?s = Ret (case seek_target (cfg env) whence offset x v of
      Some pos \<Rightarrow> if 0 \<le> sint pos then Some pos else None | None \<Rightarrow> None) ?s"
    using vn c by (auto simp: seek_pos_def seek_target_def file_vnode_def)
  show ?thesis
  proof (cases "seek_target (cfg env) whence offset x v")
    case None
    then show ?thesis using g put sp by (auto simp: do_lseek_def seek_target_def split: if_splits)
  next
    case (Some pos)
    then have w: "whence = SEEK_SET (cfg env) \<or> whence = SEEK_CUR (cfg env) \<or> whence = SEEK_END (cfg env)"
      by (auto simp: seek_target_def split: if_splits)
    show ?thesis using g put putp sp Some w by (simp add: do_lseek_def file_upd_def upd)
  qed
qed

theorem do_lseek_correct_witness:
  "do_lseek files_env (int 0) 5 1 (example_fds\<lparr>vnodes := [1 \<mapsto>
      \<lparr>vn_ops = fs_vops, vn_fs = 1, vn_vno = 1, vn_mode = S_IFREG, vn_perm = 0, vn_len = 100, vn_devid = 0, vn_busy = False,
       vn_cdev = None, vn_bdev = None\<rparr>]\<rparr>)
    = Ret (Inr 5) (example_fds\<lparr>vnodes := [1 \<mapsto>
      \<lparr>vn_ops = fs_vops, vn_fs = 1, vn_vno = 1, vn_mode = S_IFREG, vn_perm = 0, vn_len = 100, vn_devid = 0, vn_busy = False,
       vn_cdev = None, vn_bdev = None\<rparr>], files := [1 \<mapsto> example_open\<lparr>f_pos := 5\<rparr>]\<rparr>)"
  (is "do_lseek files_env (int 0) 5 1 ?s = Ret (Inr 5) ?t")
proof -
  have "opened files_env ?s 0 1 example_open" by (simp add: opened_def example_cfg_def example_open_def)
  from do_lseek_correct [OF files_env_laws this, of 1 _ 5 1] show ?thesis
    by (simp add: example_open_def example_cfg_def seek_target_def)
qed

text \<open>
  A failed \<open>read\<close> moves the position. When the file system's \<open>read\<close> fails with \<open>e\<close>, \<open>do_read\<close> reports
  the error, but it has added the negative error number to the position of the file.
\<close>

theorem do_read_error_moves_position:
  assumes laws: "file_laws env" and op: "opened env s fd f x" and mode: "f_mode x AND FMODE_READ (cfg env) = 1"
    and vn: "f_vnode x = Some vn" "vnodes s vn = Some v" "vn_ops v = fs_vops" "vn_mode v = S_IFREG"
    and fail: "fs_read env vn (f_pos x) buf n = Ret (Inl e)"
  shows "do_read env (int fd) buf n s =
    Ret (Inl e) (s\<lparr>files := (files s)(f \<mapsto> x\<lparr>f_pos := f_pos x - of_nat (errno_num (cfg env) e)\<rparr>)\<rparr>)"
proof -
  note g = opened_fget [OF laws op]
  have x: "0 < f_refcount x" using op by (simp add: opened_def)
  let ?pos = "f_pos x - of_nat (errno_num (cfg env) e)"
  have "fput env f (s\<lparr>files := (files s)(f \<mapsto> x\<lparr>f_pos := ?pos, f_refcount := f_refcount x + 1\<rparr>)\<rparr>)
      = Ret () (s\<lparr>files := (files s)(f \<mapsto> x\<lparr>f_pos := ?pos\<rparr>)\<rparr>)"
    using opened_fput [OF laws, of "x\<lparr>f_pos := ?pos\<rparr>" f s] x by simp
  moreover have upd: "(x\<lparr>f_refcount := f_refcount x + 1\<rparr>)\<lparr>f_pos := ?pos\<rparr> = x\<lparr>f_pos := ?pos, f_refcount := f_refcount x + 1\<rparr>" by simp
  ultimately show ?thesis
    using g mode vn fail by (simp add: do_read_def file_vnode_def vn_read_def file_upd_def ret_word_def upd)
qed

theorem do_read_error_moves_position_witness:
  "do_read (files_env\<lparr>fs_read := (\<lambda>_ _ _ _. Ret (Inl ENOENT))\<rparr>) (int 0) 0x9000 10 (example_fds\<lparr>vnodes := [1 \<mapsto>
      \<lparr>vn_ops = fs_vops, vn_fs = 1, vn_vno = 1, vn_mode = S_IFREG, vn_perm = 0, vn_len = 100, vn_devid = 0, vn_busy = False,
       vn_cdev = None, vn_bdev = None\<rparr>]\<rparr>)
    = Ret (Inl ENOENT) (example_fds\<lparr>vnodes := [1 \<mapsto>
      \<lparr>vn_ops = fs_vops, vn_fs = 1, vn_vno = 1, vn_mode = S_IFREG, vn_perm = 0, vn_len = 100, vn_devid = 0, vn_busy = False,
       vn_cdev = None, vn_bdev = None\<rparr>], files := [1 \<mapsto> example_open\<lparr>f_pos := -22\<rparr>]\<rparr>)"
  (is "do_read ?env (int 0) 0x9000 10 ?s = Ret (Inl ENOENT) ?t")
proof -
  have "file_laws ?env" by (rule file_laws_cong [THEN iffD2, OF _ _ _ files_env_laws]) simp_all
  moreover have "opened ?env ?s 0 1 example_open" by (simp add: opened_def example_cfg_def example_open_def)
  ultimately show ?thesis
    using do_read_error_moves_position [where env = ?env and s = ?s and fd = 0 and f = 1 and x = example_open
      and vn = 1 and buf = "0x9000" and n = 10 and e = ENOENT]
    by (simp add: example_open_def example_cfg_def)
qed

end
