(* ===== verification/Unmap.thy ===== *)
theory Unmap
  imports Vmmap
begin

text \<open>
  What \<open>vmmap_remove\<close> (\<open>src/kernel/vm/vmmap.c\<close>) does to an address space: the pages of the range are
  unmapped, in the list of areas and in the page tables, and every other page stays mapped as it was.
  The loop over the areas is followed on the heap area by area; the abstract address space is the
  page view of theory \<open>Vmarea\<close>.
\<close>

section \<open>Address spaces in the heap\<close>

text \<open>\<open>holds_map s mp vs pr\<close>: the address space at \<open>mp\<close> has the areas \<open>vs\<close>, each at its address.\<close>

definition holds_map :: "kstate \<Rightarrow> ptr \<Rightarrow> vmarea list \<Rightarrow> ptr option \<Rightarrow> bool" where
  "holds_map s mp vs pr \<longleftrightarrow> vmmaps s mp = Some \<lparr>vmn_list = map vma_id vs, vmn_proc = pr\<rparr>
     \<and> (\<forall>a\<in>set vs. vmareas s (vma_id a) = Some a)"

lemma holds_map_load: "holds_map s mp vs pr \<Longrightarrow> load_map mp s = Ret \<lparr>vmm_id = mp, vmm_list = vs, vmm_proc = pr\<rparr> s"
  by (auto simp: holds_map_def load_map_Ret those_map_Some list_all2_map1 intro: list.rel_refl_strong)

lemma holds_map_other [simp]:
  "holds_map (s\<lparr>mmobjs := h\<rparr>) mp vs pr = holds_map s mp vs pr" "holds_map (hw e s) mp vs pr = holds_map s mp vs pr"
  by (simp_all add: holds_map_def hw_def)

lemma other_ids:
  "distinct (map vma_id (pre @ a # post)) \<Longrightarrow> x \<in> set pre \<union> set post \<Longrightarrow> vma_id x \<noteq> vma_id a"
  by (auto simp: image_iff)

lemma holds_map_upd:
  assumes "holds_map s mp (pre @ a # post) pr" and "distinct (map vma_id (pre @ a # post))" and "vma_id b = vma_id a"
  shows "holds_map (s\<lparr>vmareas := (vmareas s)(vma_id a \<mapsto> b)\<rparr>) mp (pre @ b # post) pr"
proof -
  have "vma_id x \<noteq> vma_id a" if "x \<in> set pre \<union> set post" for x by (rule other_ids [OF assms(2) that])
  then show ?thesis using assms(1,3) by (auto simp: holds_map_def)
qed

lemma holds_map_del:
  assumes "holds_map s mp (pre @ a # post) pr" and "distinct (map vma_id (pre @ a # post))"
  shows "holds_map (s\<lparr>vmmaps := (vmmaps s)(mp \<mapsto> \<lparr>vmn_list = remove1 (vma_id a) (map vma_id (pre @ a # post)), vmn_proc = pr\<rparr>),
    vmareas := (vmareas s)(vma_id a := None)\<rparr>) mp (pre @ post) pr"
proof -
  have ne: "vma_id x \<noteq> vma_id a" if "x \<in> set pre \<union> set post" for x by (rule other_ids [OF assms(2) that])
  then have "vma_id a \<notin> set (map vma_id pre)" by fastforce
  then have "remove1 (vma_id a) (map vma_id (pre @ a # post)) = map vma_id (pre @ post)"
    by (simp add: remove1_append del: set_map)
  then show ?thesis using assms(1) ne by (auto simp: holds_map_def)
qed

lemma fold_store:
  assumes "distinct (map vma_id vs)" and "a \<in> set vs"
  shows "fold (\<lambda>a h. h(vma_id a \<mapsto> a)) vs h (vma_id a) = Some a"
  using assms
proof (induction vs arbitrary: h)
  case (Cons b vs)
  have keep: "fold (\<lambda>a h. h(vma_id a \<mapsto> a)) xs g (vma_id b) = g (vma_id b)" if "vma_id b \<notin> vma_id ` set xs" for g xs
    using that by (induction xs arbitrary: g) auto
  show ?case using Cons keep [of vs "h(vma_id b \<mapsto> b)"] by (auto simp del: fun_upd_apply) simp
qed simp

lemma store_map_holds: "distinct (map vma_id (vmm_list m)) \<Longrightarrow> holds_map (store_map m s) (vmm_id m) (vmm_list m) (vmm_proc m)"
  by (simp add: holds_map_def store_map_def fold_store)

section \<open>Parts of an area\<close>

lemma view_Nil [simp]: "view [] v = None"
  by (simp add: view_def)

lemma view_Cons: "view (a # xs) v = (if covers a v then Some (page_of a v) else view xs v)"
  by (simp add: view_def)

lemma view_append: "view (xs @ ys) v = (case view xs v of None \<Rightarrow> view ys v | Some r \<Rightarrow> Some r)"
  by (induction xs) (auto simp: view_Cons)

text \<open>\<open>cut lo hi a cs\<close>: the areas \<open>cs\<close> map what the area \<open>a\<close> maps outside the range.\<close>

definition cut :: "u32 \<Rightarrow> u32 \<Rightarrow> vmarea \<Rightarrow> vmarea list \<Rightarrow> bool" where
  "cut lo hi a cs \<longleftrightarrow> sorted_wrt before cs
     \<and> (\<forall>b\<in>set cs. vma_start a \<le> vma_start b \<and> vma_end b \<le> vma_end a \<and> vma_start b < vma_end b)
     \<and> (\<forall>v. view cs v = (if lo \<le> v \<and> v < hi then None else view [a] v))"

lemma vmas_ok_cut:
  assumes ok: "vmas_ok c (pre @ a # post)" and cut: "cut lo hi a cs" and ids: "distinct (map vma_id (pre @ cs @ post))"
  shows "vmas_ok c (pre @ cs @ post)"
proof -
  have "before x b" if "x \<in> set pre" "b \<in> set cs" for x b
    using ok cut that by (force simp: vmas_ok_def sorted_wrt_append cut_def before_def)
  moreover have "before b y" if "y \<in> set post" "b \<in> set cs" for y b
    using ok cut that by (force simp: vmas_ok_def sorted_wrt_append cut_def before_def)
  moreover have "vma_ok c b" if "b \<in> set cs" for b
    using ok cut that by (force simp: vmas_ok_def cut_def vma_ok_def)
  ultimately show ?thesis using ok cut ids by (auto simp: vmas_ok_def sorted_wrt_append cut_def)
qed

lemma cut_none: "vma_start a < vma_end a \<Longrightarrow> hi \<le> vma_start a \<or> vma_end a \<le> lo \<Longrightarrow> cut lo hi a [a]"
  by (auto simp: cut_def view_Cons covers_def)

lemma cut_end:
  "lo > vma_start a \<Longrightarrow> lo < vma_end a \<Longrightarrow> hi \<ge> vma_end a \<Longrightarrow> cut lo hi a [a\<lparr>vma_end := lo\<rparr>]"
  by (auto simp: cut_def view_Cons covers_def page_of_def)

lemma cut_start:
  "lo \<le> vma_start a \<Longrightarrow> hi > vma_start a \<Longrightarrow> hi < vma_end a \<Longrightarrow>
     cut lo hi a [a\<lparr>vma_off := vma_off a + (hi - vma_start a), vma_start := hi\<rparr>]"
  by (auto simp: cut_def view_Cons covers_def page_of_def)

lemma cut_all: "lo \<le> vma_start a \<Longrightarrow> hi \<ge> vma_end a \<Longrightarrow> cut lo hi a []"
  by (auto simp: cut_def view_Cons covers_def)

lemma cut_inside:
  assumes "lo > vma_start a" and "hi < vma_end a" and "lo \<le> hi"
    and "vma_start b = hi" "vma_end b = vma_end a" "vma_off b = vma_off a + hi - vma_start a" "vma_prot b = vma_prot a"
      "vma_flags b = vma_flags a" "vma_obj b = vma_obj a"
  shows "cut lo hi a [a\<lparr>vma_end := lo\<rparr>, b]"
  using assms by (auto simp: cut_def view_Cons covers_def page_of_def before_def)

lemma vmlist_insert_mid:
  assumes "\<forall>b\<in>set pre. \<not> vma_start b > vma_start n" and "\<forall>b\<in>set post. vma_start b > vma_start n \<and> vma_end b > vma_end n"
  shows "vmlist_insert n (pre @ post) = pre @ n # post"
  using assms by (induction pre) (cases post, auto)

section \<open>One area\<close>

lemma hw_sel [simp]:
  "hwlog (hw e s) = hwlog s @ [e]" "vmareas (hw e s) = vmareas s" "vmmaps (hw e s) = vmmaps s" "mmobjs (hw e s) = mmobjs s"
  "vnodes (hw e s) = vnodes s"
  by (simp_all add: hw_def)

text \<open>
  \<open>spare k s ob\<close>: the object has more than \<open>k\<close> references beyond those of its pages, so that \<open>k\<close> of them
  can be put without freeing anything.
\<close>

definition spare :: "nat \<Rightarrow> kstate \<Rightarrow> ptr \<Rightarrow> bool" where
  "spare k s ob \<longleftrightarrow> (\<exists>m. mmobjs s ob = Some m \<and> 0 \<le> mmo_nrespages m \<and> mmo_nrespages m + int k < mmo_refcount m
     \<and> (mmo_ops m = vnode_mmobj_ops \<longrightarrow> (\<exists>v. vnodes s ob = Some v \<and> \<not> vn_busy v)))"

lemma put_spare:
  assumes "spare (Suc k) s ob" and "0 < n"
  obtains m where "mmobjs s ob = Some m"
    "mmo_put n env ob s = Ret () (s\<lparr>mmobjs := (mmobjs s)(ob \<mapsto> m\<lparr>mmo_refcount := mmo_refcount m - 1\<rparr>)\<rparr>)"
proof -
  obtain j where "n = Suc j" using assms(2) by (cases n) auto
  moreover obtain m where "mmobjs s ob = Some m" "0 \<le> mmo_nrespages m" "mmo_nrespages m + int (Suc k) < mmo_refcount m"
    "mmo_ops m = vnode_mmobj_ops \<longrightarrow> (\<exists>v. vnodes s ob = Some v \<and> \<not> vn_busy v)"
    using assms(1) by (auto simp: spare_def)
  ultimately show thesis
    by (intro that [of m]; cases "mmo_ops m") (auto simp: anon_put_def shadow_put_def vo_vput_def vput_def object_put_def Let_def)
qed

lemma spare_put:
  assumes "mmobjs s ob = Some m" and "spare (Suc k) s ob'"
  shows "spare k (s\<lparr>mmobjs := (mmobjs s)(ob \<mapsto> m\<lparr>mmo_refcount := mmo_refcount m - 1\<rparr>)\<rparr>) ob'"
  using assms by (auto simp: spare_def)

lemma spare_less: "spare (Suc k) s ob \<Longrightarrow> spare k s ob"
  by (auto simp: spare_def)

lemma spare_other [simp]:
  "spare k (s\<lparr>vmareas := h\<rparr>) = spare k s" "spare k (s\<lparr>vmmaps := h'\<rparr>) = spare k s" "spare k (hw e s) = spare k s"
  by (auto simp: spare_def hw_def fun_eq_iff)

text \<open>
  \<open>last_use k s ob\<close>: the object is a shadow without pages that has one reference left, over an object with more than \<open>k\<close> references
  to spare; so that putting it frees it and nothing else.
\<close>

definition last_use :: "nat \<Rightarrow> kstate \<Rightarrow> ptr \<Rightarrow> bool" where
  "last_use k s ob \<longleftrightarrow> (\<exists>m b sh. mmobjs s ob = Some m \<and> mmo_ops m = shadow_mmobj_ops \<and> mmo_refcount m = 1 \<and> mmo_nrespages m = 0
     \<and> mmo_respages m = [] \<and> mmo_un_f m = mmo_bottom_obj b \<and> mmo_shadowed m = Some sh \<and> spare k s sh)"

text \<open>The link of an area is in the list of an object that exists.\<close>

definition linked :: "kstate \<Rightarrow> vmarea \<Rightarrow> bool" where
  "linked s a \<longleftrightarrow> (\<exists>b mb vs. vma_olink a = Some b \<and> mmobjs s b = Some mb \<and> mmo_un_f mb = mmo_vmas vs \<and> vma_id a \<in> set vs)"

lemma last_not_spare: "last_use k s ob \<Longrightarrow> \<not> spare (Suc j) s ob"
  by (auto simp: last_use_def spare_def)

lemma put_last:
  assumes "last_use (Suc k) s ob" and "1 < n"
  obtains sh m where "mmobjs s sh = Some m" "spare (Suc k) s sh"
    "mmo_put n env ob s = Ret () (s\<lparr>mmobjs := (mmobjs s)(sh \<mapsto> m\<lparr>mmo_refcount := mmo_refcount m - 1\<rparr>, ob := None)\<rparr>)"
proof -
  obtain j where n: "n = Suc (Suc j)" using assms(2) by (metis Suc_lessE less_imp_Suc_add One_nat_def)
  obtain mo sh where mo: "mmobjs s ob = Some mo" "mmo_ops mo = shadow_mmobj_ops" "mmo_refcount mo = 1" "mmo_nrespages mo = 0"
    "mmo_shadowed mo = Some sh" "spare (Suc k) s sh" "mmo_respages mo = []" using assms(1) by (auto simp: last_use_def)
  have ne: "sh \<noteq> ob" using last_not_spare [OF assms(1)] mo(6) by auto
  let ?s = "s\<lparr>mmobjs := (mmobjs s)(ob \<mapsto> mo\<lparr>mmo_refcount := 0\<rparr>)\<rparr>"
  have "spare (Suc k) ?s sh" using mo(6) ne by (simp add: spare_def)
  then obtain m where m: "mmobjs ?s sh = Some m"
    "mmo_put (Suc j) env sh ?s = Ret () (?s\<lparr>mmobjs := (mmobjs ?s)(sh \<mapsto> m\<lparr>mmo_refcount := mmo_refcount m - 1\<rparr>)\<rparr>)"
    by (rule put_spare [where n = "Suc j" and env = env]) (simp del: mmo_put.simps)+
  have "mmo_put n env ob s = Ret () (s\<lparr>mmobjs := (mmobjs s)(sh \<mapsto> m\<lparr>mmo_refcount := mmo_refcount m - 1\<rparr>, ob := None)\<rparr>)"
    using mo m ne mmo_put_object [OF mo(1), of "Suc j" env] unfolding n
    by (simp add: object_put_def Let_def fun_upd_twist del: mmo_put.simps)
  with m(1) ne mo(6) show thesis by (intro that [of sh m]) simp_all
qed

text \<open>
  \<open>keeps_objects a s s'\<close>: from \<open>s\<close> to \<open>s'\<close> every object has lost one reference at most and no object but that of the area \<open>a\<close> has
  gone; links other than that of \<open>a\<close> are where they were.
\<close>

definition keeps_objects :: "vmarea \<Rightarrow> kstate \<Rightarrow> kstate \<Rightarrow> bool" where
  "keeps_objects a s s' \<longleftrightarrow> (\<forall>k ob. spare (Suc k) s ob \<longrightarrow> spare k s' ob)
     \<and> (\<forall>k ob. vma_obj a \<noteq> Some ob \<and> last_use (Suc k) s ob \<longrightarrow> last_use k s' ob)
     \<and> (\<forall>b. vma_id b \<noteq> vma_id a \<and> linked s b \<longrightarrow> linked s' b)"

lemma spare_cong: "mmobjs s' = mmobjs s \<Longrightarrow> vnodes s' = vnodes s \<Longrightarrow> spare k s' ob = spare k s ob"
  by (simp add: spare_def)

lemma last_use_less: "last_use (Suc k) s ob \<Longrightarrow> last_use k s ob"
  by (auto simp: last_use_def intro: spare_less)

lemma linked_cong: "mmobjs s' = mmobjs s \<Longrightarrow> linked s' a = linked s a"
  by (simp add: linked_def)

lemma keeps_objects_cong:
  assumes "mmobjs s' = mmobjs t" and "vnodes s' = vnodes t"
  shows "keeps_objects a s s' = keeps_objects a s t"
proof -
  have "spare k s' ob = spare k t ob" for k ob by (rule spare_cong [OF assms])
  then show ?thesis using assms(1) by (simp add: keeps_objects_def last_use_def linked_def)
qed

lemma keeps_objects_refl: "keeps_objects a s s"
  by (auto simp: keeps_objects_def intro: spare_less last_use_less)

lemma keeps_objects_same: "mmobjs s' = mmobjs s \<Longrightarrow> vnodes s' = vnodes s \<Longrightarrow> keeps_objects a s s'"
  using keeps_objects_refl keeps_objects_cong [of s' s] by blast

lemma keeps_objects_put:
  assumes "mmobjs s ob = Some m" and "vma_obj a = Some ob"
  shows "keeps_objects a s (s\<lparr>mmobjs := (mmobjs s)(ob \<mapsto> m\<lparr>mmo_refcount := mmo_refcount m - 1\<rparr>)\<rparr>)"
  using assms(2) spare_put [OF assms(1)] assms(1) unfolding keeps_objects_def last_use_def linked_def by fastforce

lemma linked_last:
  assumes "linked s b" and "last_use j s ob" and "mmobjs s sh = Some m"
  shows "linked (s\<lparr>mmobjs := (mmobjs s)(sh \<mapsto> m\<lparr>mmo_refcount := mmo_refcount m - 1\<rparr>, ob := None)\<rparr>) b"
proof -
  obtain b' mb vs where l: "vma_olink b = Some b'" "mmobjs s b' = Some mb" "mmo_un_f mb = mmo_vmas vs" "vma_id b \<in> set vs"
    using assms(1) unfolding linked_def by blast
  have "b' \<noteq> ob" using l(2,3) assms(2) by (auto simp: last_use_def)
  then show ?thesis using l assms(3) unfolding linked_def by (cases "b' = sh") auto
qed

lemma keeps_objects_last:
  assumes "mmobjs s sh = Some m" and "last_use j s ob" and "vma_obj a = Some ob" and "spare (Suc i) s sh"
  shows "keeps_objects a s (s\<lparr>mmobjs := (mmobjs s)(sh \<mapsto> m\<lparr>mmo_refcount := mmo_refcount m - 1\<rparr>, ob := None)\<rparr>)"
    (is "keeps_objects a s ?s")
proof -
  have sp: "spare k ?s ob'" if "spare (Suc k) s ob'" for k ob'
    using spare_put [OF assms(1) that] that last_not_spare [OF assms(2), of k] by (auto simp: spare_def)
  have "last_use k ?s ob'" if "ob' \<noteq> ob" "last_use (Suc k) s ob'" for k ob'
  proof -
    have "ob' \<noteq> sh" using that(2) assms(4) last_not_spare by blast
    then have "mmobjs ?s ob' = mmobjs s ob'" using that(1) by simp
    then show ?thesis using that(2) sp unfolding last_use_def by metis
  qed
  then show ?thesis using sp assms(3) linked_last [OF _ assms(2,1)] unfolding keeps_objects_def by auto
qed

text \<open>Taking the link of an area off its list.\<close>

lemma olink_remove_linked:
  assumes "vmareas s (vma_id a) = Some a" and "linked s a"
  obtains b mb vs where "mmobjs s b = Some mb" "mmo_un_f mb = mmo_vmas vs"
    "olink_remove (vma_id a) s = Ret () (s\<lparr>mmobjs := (mmobjs s)(b \<mapsto> mb\<lparr>mmo_un_f := mmo_vmas (remove1 (vma_id a) vs)\<rparr>)\<rparr>)"
proof -
  obtain b mb vs where b: "vma_olink a = Some b" "mmobjs s b = Some mb" "mmo_un_f mb = mmo_vmas vs" "vma_id a \<in> set vs"
    using assms(2) by (auto simp: linked_def)
  then show thesis using assms(1) by (intro that [of b mb vs]) (simp_all add: olink_remove_def)
qed

lemma spare_unlink:
  assumes "mmobjs s b = Some mb" and "spare k s ob"
  shows "spare k (s\<lparr>mmobjs := (mmobjs s)(b \<mapsto> mb\<lparr>mmo_un_f := u\<rparr>)\<rparr>) ob"
  using assms by (auto simp: spare_def)

lemma keeps_objects_unlink:
  assumes k: "keeps_objects a s t" and b: "mmobjs t b = Some mb" "mmo_un_f mb = mmo_vmas vs"
  shows "keeps_objects a s (t\<lparr>mmobjs := (mmobjs t)(b \<mapsto> mb\<lparr>mmo_un_f := mmo_vmas (remove1 (vma_id a) vs)\<rparr>)\<rparr>)"
    (is "keeps_objects a s ?t")
proof -
  have "last_use k ?t ob" if "last_use k t ob" for k ob
    using that b spare_unlink [OF b(1)] by (auto simp: last_use_def)
  moreover have "linked ?t c" if "vma_id c \<noteq> vma_id a" "linked t c" for c using that b by (auto simp: linked_def)
  ultimately show ?thesis using k spare_unlink [OF b(1)] unfolding keeps_objects_def by blast
qed

lemma spare_ref:
  "mmobjs s ob = Some m \<Longrightarrow> spare k s ob' \<Longrightarrow>
     spare k (s\<lparr>mmobjs := (mmobjs s)(ob \<mapsto> m\<lparr>mmo_refcount := mmo_refcount m + 1\<rparr>)\<rparr>) ob'"
  by (auto simp: spare_def)

lemma keeps_objects_ref:
  assumes "mmobjs s ob = Some m" and "vma_obj a = Some ob"
  shows "keeps_objects a s (s\<lparr>mmobjs := (mmobjs s)(ob \<mapsto> m\<lparr>mmo_refcount := mmo_refcount m + 1\<rparr>)\<rparr>)"
  using assms(2) spare_ref [OF assms(1) spare_less] assms(1) unfolding keeps_objects_def last_use_def linked_def by fastforce

text \<open>The page directory of the process that runs.\<close>

definition runs :: "kstate \<Rightarrow> ptr \<Rightarrow> bool" where
  "runs s pd \<longleftrightarrow> (\<exists>p pr. curproc s = Some p \<and> procs s p = Some pr \<and> p_pagedir pr = pd)"

lemma runs_other [simp]:
  "runs (s\<lparr>vmareas := h1\<rparr>) pd = runs s pd" "runs (s\<lparr>vmmaps := h2\<rparr>) pd = runs s pd" "runs (s\<lparr>mmobjs := h3\<rparr>) pd = runs s pd"
  "runs (hw e s) pd = runs s pd"
  by (auto simp: runs_def hw_def)

lemma pt_unmap_range_eq:
  "runs s pd \<Longrightarrow> pt_unmap_range lo hi s = Ret () (hw (PT_UNMAP_RANGE pd (PN_TO_ADDR lo) (PN_TO_ADDR hi)) s)"
  by (auto simp: pt_unmap_range_def cur_proc_def runs_def)

text \<open>\<open>unmaps pd es a lo hi\<close>: the events \<open>es\<close> unmap the pages of the area in the range from the page tables.\<close>

definition unmaps :: "ptr \<Rightarrow> hwevent list \<Rightarrow> vmarea \<Rightarrow> u32 \<Rightarrow> u32 \<Rightarrow> bool" where
  "unmaps pd es a lo hi \<longleftrightarrow> (\<forall>v. covers a v \<and> lo \<le> v \<and> v < hi \<longrightarrow>
     (\<exists>x y. PT_UNMAP_RANGE pd (PN_TO_ADDR x) (PN_TO_ADDR y) \<in> set es \<and> x \<le> v \<and> v < y))"

text \<open>What the body of the loop over the areas does to the area \<open>a\<close>.\<close>

definition area_removed ::
  "u32 \<Rightarrow> u32 \<Rightarrow> ptr \<Rightarrow> ptr \<Rightarrow> ptr option \<Rightarrow> vmarea list \<Rightarrow> vmarea \<Rightarrow> vmarea list \<Rightarrow> kstate \<Rightarrow> kstate \<Rightarrow> bool" where
  "area_removed lo hi pd mp pr pre a post s s1 \<longleftrightarrow>
     (\<exists>cs es. holds_map s1 mp (pre @ cs @ post) pr \<and> cut lo hi a cs \<and> distinct (map vma_id (pre @ cs @ post))
        \<and> hwlog s1 = hwlog s @ es \<and> unmaps pd es a lo hi)
     \<and> runs s1 pd \<and> keeps_objects a s s1 \<and> (vma_end a \<le> lo \<or> hi \<le> vma_start a \<longrightarrow> s1 = s)
     \<and> (lo \<le> vma_start a \<and> vma_end a \<le> hi \<or> vma_start a < lo \<and> hi < vma_end a \<or> mmobjs s1 = mmobjs s \<and> vnodes s1 = vnodes s)"

lemma distinct_replace:
  "distinct (map vma_id (pre @ a # post)) \<Longrightarrow> vma_id b = vma_id a \<Longrightarrow> distinct (map vma_id (pre @ [b] @ post))"
  by simp

definition removing ::
  "kenv \<Rightarrow> u32 \<Rightarrow> u32 \<Rightarrow> ptr \<Rightarrow> ptr \<Rightarrow> ptr option \<Rightarrow> vmarea list \<Rightarrow> vmarea \<Rightarrow> vmarea list \<Rightarrow> kstate \<Rightarrow> bool" where
  "removing env lo hi pd mp pr pre a post s \<longleftrightarrow> holds_map s mp (pre @ a # post) pr \<and> vmas_ok (cfg env) (pre @ a # post)
     \<and> runs s pd \<and> 1 < chain_fuel env \<and> lo < hi"

lemma removingD:
  assumes "removing env lo hi pd mp pr pre a post s"
  shows "holds_map s mp (pre @ a # post) pr" "vmas_ok (cfg env) (pre @ a # post)" "runs s pd" "1 < chain_fuel env" "lo < hi"
    "vmareas s (vma_id a) = Some a" "distinct (map vma_id (pre @ a # post))" "vma_start a < vma_end a"
    "vmmaps s mp = Some \<lparr>vmn_list = map vma_id (pre @ a # post), vmn_proc = pr\<rparr>"
  using assms by (auto simp: removing_def holds_map_def vmas_ok_def vma_ok_def)

lemma remove_outside:
  assumes r: "removing env lo hi pd mp pr pre a post s" and o: "vma_end a \<le> lo \<or> hi \<le> vma_start a"
  shows "remove_areas env mp lo hi (vma_id a # rest) s = remove_areas env mp lo hi rest s"
    "area_removed lo hi pd mp pr pre a post s s"
proof -
  note d = removingD [OF r]
  show "remove_areas env mp lo hi (vma_id a # rest) s = remove_areas env mp lo hi rest s"
    using d(5,6,8) o by auto
  have "unmaps pd [] a lo hi" using o by (auto simp: unmaps_def covers_def)
  then show "area_removed lo hi pd mp pr pre a post s s" unfolding area_removed_def
    using d(1,3,7) cut_none [OF d(8), of hi lo] o
    by (intro conjI exI [of _ "[a]"] exI [of _ "[]"]) (auto intro: keeps_objects_same)
qed

lemma remove_end:
  assumes r: "removing env lo hi pd mp pr pre a post s" and c: "lo > vma_start a" "lo < vma_end a" "hi \<ge> vma_end a"
  shows "\<exists>s1. remove_areas env mp lo hi (vma_id a # rest) s = remove_areas env mp lo hi rest s1
    \<and> area_removed lo hi pd mp pr pre a post s s1"
proof -
  note d = removingD [OF r]
  let ?b = "a\<lparr>vma_end := lo\<rparr>" and ?e = "PT_UNMAP_RANGE pd (PN_TO_ADDR lo) (PN_TO_ADDR (vma_end a))"
  let ?s = "hw ?e (s\<lparr>vmareas := (vmareas s)(vma_id a \<mapsto> ?b)\<rparr>)"
  have "remove_areas env mp lo hi (vma_id a # rest) s = remove_areas env mp lo hi rest ?s"
    using d(3,6) c leD [OF c(3)] by (simp add: vma_upd_def pt_unmap_range_eq [where pd = pd])
  moreover have "unmaps pd [?e] a lo hi" by (auto simp: unmaps_def covers_def)
  then have "area_removed lo hi pd mp pr pre a post s ?s" unfolding area_removed_def
    using holds_map_upd [OF d(1,7), of ?b] d(3,7) cut_end [OF c] c
    by (intro conjI exI [of _ "[?b]"] exI [of _ "[?e]"]) (auto intro: keeps_objects_same)
  ultimately show ?thesis by blast
qed

lemma remove_start:
  assumes r: "removing env lo hi pd mp pr pre a post s" and c: "lo \<le> vma_start a" "hi > vma_start a" "hi < vma_end a"
  shows "\<exists>s1. remove_areas env mp lo hi (vma_id a # rest) s = remove_areas env mp lo hi rest s1
    \<and> area_removed lo hi pd mp pr pre a post s s1"
proof -
  note d = removingD [OF r]
  let ?b = "a\<lparr>vma_off := vma_off a + (hi - vma_start a), vma_start := hi\<rparr>"
  let ?e = "PT_UNMAP_RANGE pd (PN_TO_ADDR (vma_start a)) (PN_TO_ADDR hi)"
  let ?s = "hw ?e (s\<lparr>vmareas := (vmareas s)(vma_id a \<mapsto> ?b)\<rparr>)"
  have "remove_areas env mp lo hi (vma_id a # rest) s = remove_areas env mp lo hi rest ?s"
    using d(3,6) c leD [OF c(1)] by (simp add: vma_upd_def pt_unmap_range_eq [where pd = pd])
  moreover have "unmaps pd [?e] a lo hi" by (auto simp: unmaps_def covers_def)
  then have "area_removed lo hi pd mp pr pre a post s ?s" unfolding area_removed_def
    using holds_map_upd [OF d(1,7), of ?b] d(3,7) cut_start [OF c] c
    by (intro conjI exI [of _ "[?b]"] exI [of _ "[?e]"]) (auto intro: keeps_objects_same)
  ultimately show ?thesis by blast
qed

text \<open>What an area in the range takes: its object can be put, and the link of a private area can be removed then.\<close>

definition disposable :: "kenv \<Rightarrow> nat \<Rightarrow> kstate \<Rightarrow> vmarea \<Rightarrow> bool" where
  "disposable env k s a \<longleftrightarrow> (\<exists>ob. vma_obj a = Some ob \<and> (spare k s ob \<or> last_use k s ob))
     \<and> (has_flag (vma_flags a) (MAP_PRIVATE (cfg env)) \<longrightarrow> linked s a)"

lemma put_disposable:
  assumes "disposable env (Suc k) s a" and "1 < chain_fuel env"
  obtains ob h where "vma_obj a = Some ob" "mmo_put (chain_fuel env) env ob s = Ret () (s\<lparr>mmobjs := h\<rparr>)"
    "keeps_objects a s (s\<lparr>mmobjs := h\<rparr>)" "linked s a \<Longrightarrow> linked (s\<lparr>mmobjs := h\<rparr>) a"
proof -
  obtain ob where ob: "vma_obj a = Some ob" "spare (Suc k) s ob \<or> last_use (Suc k) s ob" using assms(1) by (auto simp: disposable_def)
  from ob(2) show thesis
  proof
    assume "spare (Suc k) s ob"
    then obtain m where m: "mmobjs s ob = Some m"
      "mmo_put (chain_fuel env) env ob s = Ret () (s\<lparr>mmobjs := (mmobjs s)(ob \<mapsto> m\<lparr>mmo_refcount := mmo_refcount m - 1\<rparr>)\<rparr>)"
      using assms(2) by (elim put_spare [where n = "chain_fuel env" and env = env]) auto
    then show thesis using ob(1) keeps_objects_put [OF m(1) ob(1)] by (intro that [OF ob(1) m(2)]) (auto simp: linked_def)
  next
    assume l: "last_use (Suc k) s ob"
    then obtain sh m where m: "mmobjs s sh = Some m" "spare (Suc k) s sh"
      "mmo_put (chain_fuel env) env ob s = Ret () (s\<lparr>mmobjs := (mmobjs s)(sh \<mapsto> m\<lparr>mmo_refcount := mmo_refcount m - 1\<rparr>, ob := None)\<rparr>)"
      using assms(2) by (rule put_last)
    show thesis by (rule that [OF ob(1) m(3) keeps_objects_last [OF m(1) l ob(1) m(2)] linked_last [OF _ l m(1)]])
  qed
qed

lemma remove_whole_disposable:
  assumes a: "vmareas s (vma_id a) = Some a" "vmmaps s mp = Some vm" "runs s pd" and d: "disposable env (Suc k) s a" "1 < chain_fuel env"
  obtains h where "keeps_objects a s (s\<lparr>mmobjs := h\<rparr>)"
    "remove_whole env mp (vma_id a) s = Ret () (hw (PT_UNMAP_RANGE pd (PN_TO_ADDR (vma_start a)) (PN_TO_ADDR (vma_end a)))
       (s\<lparr>mmobjs := h, vmmaps := (vmmaps s)(mp \<mapsto> vm\<lparr>vmn_list := remove1 (vma_id a) (vmn_list vm)\<rparr>),
         vmareas := (vmareas s)(vma_id a := None)\<rparr>))"
proof -
  obtain ob h where h: "vma_obj a = Some ob" "mmo_put (chain_fuel env) env ob s = Ret () (s\<lparr>mmobjs := h\<rparr>)"
    "keeps_objects a s (s\<lparr>mmobjs := h\<rparr>)" "linked s a \<Longrightarrow> linked (s\<lparr>mmobjs := h\<rparr>) a"
    using put_disposable [OF d] by blast
  let ?s = "s\<lparr>mmobjs := h, vmmaps := (vmmaps s)(mp \<mapsto> vm\<lparr>vmn_list := remove1 (vma_id a) (vmn_list vm)\<rparr>)\<rparr>"
  have rs: "runs (?s\<lparr>vmareas := x, mmobjs := y\<rparr>) pd" "runs (?s\<lparr>vmareas := x\<rparr>) pd" for x y using a(3) by simp_all
  show thesis
  proof (cases "has_flag (vma_flags a) (MAP_PRIVATE (cfg env))")
    case False
    then show thesis using a(1,2) h rs
      by (intro that [OF h(3)]) (simp add: remove_whole_def plink_remove_def vmarea_free_def pt_unmap_range_eq [where pd = pd])
  next
    case True
    have "linked ?s a" using True d(1) h(4) by (simp add: disposable_def linked_cong [of ?s "s\<lparr>mmobjs := h\<rparr>"])
    moreover have "vmareas ?s (vma_id a) = Some a" using a(1) by simp
    ultimately obtain b mb vs where b: "mmobjs ?s b = Some mb" "mmo_un_f mb = mmo_vmas vs"
      "olink_remove (vma_id a) ?s = Ret () (?s\<lparr>mmobjs := (mmobjs ?s)(b \<mapsto> mb\<lparr>mmo_un_f := mmo_vmas (remove1 (vma_id a) vs)\<rparr>)\<rparr>)"
      by (elim olink_remove_linked [rotated])
    let ?h = "h(b \<mapsto> mb\<lparr>mmo_un_f := mmo_vmas (remove1 (vma_id a) vs)\<rparr>)"
    have "keeps_objects a s (s\<lparr>mmobjs := ?h\<rparr>)"
      using keeps_objects_unlink [OF h(3), of b mb vs] b(1,2) by simp
    then show thesis using a(1,2) h(1,2) b(3) True rs
      by (elim that) (simp add: remove_whole_def plink_remove_def vmarea_free_def pt_unmap_range_eq [where pd = pd] hw_def)
  qed
qed

lemma remove_all:
  assumes r: "removing env lo hi pd mp pr pre a post s" and c: "lo \<le> vma_start a" "hi \<ge> vma_end a"
    and dp: "disposable env (Suc k) s a"
  shows "\<exists>s1. remove_areas env mp lo hi (vma_id a # rest) s = remove_areas env mp lo hi rest s1
    \<and> area_removed lo hi pd mp pr pre a post s s1"
proof -
  note d = removingD [OF r]
  let ?e = "PT_UNMAP_RANGE pd (PN_TO_ADDR (vma_start a)) (PN_TO_ADDR (vma_end a))"
  obtain h where h: "keeps_objects a s (s\<lparr>mmobjs := h\<rparr>)"
    and w: "remove_whole env mp (vma_id a) s = Ret () (hw ?e (s\<lparr>mmobjs := h,
      vmmaps := (vmmaps s)(mp \<mapsto> \<lparr>vmn_list = remove1 (vma_id a) (map vma_id (pre @ a # post)), vmn_proc = pr\<rparr>),
      vmareas := (vmareas s)(vma_id a := None)\<rparr>))"
    using remove_whole_disposable [OF d(6,9,3) dp d(4)] by (auto simp del: map_append)
  let ?s = "hw ?e (s\<lparr>mmobjs := h, vmmaps := (vmmaps s)(mp \<mapsto> \<lparr>vmn_list = remove1 (vma_id a) (map vma_id (pre @ a # post)), vmn_proc = pr\<rparr>),
    vmareas := (vmareas s)(vma_id a := None)\<rparr>)"
  have "remove_areas env mp lo hi (vma_id a # rest) s = remove_areas env mp lo hi rest ?s"
    using d(6,8) c leD [OF c(1)] leD [OF c(2)] w by (simp del: map_append)
  moreover have "keeps_objects a s ?s" using h by (subst keeps_objects_cong [of _ "s\<lparr>mmobjs := h\<rparr>"]) (simp_all add: hw_def)
  moreover have "unmaps pd [?e] a lo hi" by (auto simp: unmaps_def covers_def)
  then have "area_removed lo hi pd mp pr pre a post s ?s" unfolding area_removed_def
    using holds_map_del [OF d(1,7)] d(3,7,8) cut_all [OF c] calculation(2) c
    by (intro conjI exI [of _ "[]"] exI [of _ "[?e]"]) (auto simp: holds_map_def)
  ultimately show ?thesis by blast
qed

text \<open>An area that the range splits, when it is shared.\<close>

definition upper_part :: "vmarea \<Rightarrow> ptr \<Rightarrow> u32 \<Rightarrow> ptr option \<Rightarrow> vmarea" where
  "upper_part a x hi ol = a\<lparr>vma_id := x, vma_start := hi, vma_off := vma_off a + hi - vma_start a, vma_vmmap := None, vma_olink := ol\<rparr>"

definition split_state :: "vmarea \<Rightarrow> ptr \<Rightarrow> u32 \<Rightarrow> u32 \<Rightarrow> ptr option \<Rightarrow> ptr \<Rightarrow> mmobj \<Rightarrow> kstate \<Rightarrow> kstate" where
  "split_state a x lo hi ol ob m s = s\<lparr>vmareas := (vmareas s)(vma_id a \<mapsto> a\<lparr>vma_end := lo\<rparr>, x \<mapsto> upper_part a x hi ol),
     mmobjs := (mmobjs s)(ob \<mapsto> m\<lparr>mmo_refcount := mmo_refcount m + 1\<rparr>)\<rparr>"

lemma upper_part_fields:
  "n\<lparr>vma_id := x, vma_start := hi, vma_end := vma_end a, vma_off := vma_off a + hi - vma_start a, vma_prot := vma_prot a,
     vma_flags := vma_flags a, vma_vmmap := None, vma_obj := vma_obj a\<rparr> = upper_part a x hi (vma_olink n)"
  by (cases n, cases a) (simp add: upper_part_def)

lemma remove_inside_shared:
  assumes a: "vmareas s (vma_id a) = Some a" and x: "vmarea_slab env (vmareas s) = Some x" "vmareas s x = None"
    and f: "\<not> has_flag (vma_flags a) (MAP_PRIVATE (cfg env))" "has_flag (vma_flags a) (MAP_SHARED (cfg env))"
    and ob: "vma_obj a = Some ob" "mmobjs s ob = Some m" "0 < mmo_refcount m"
  shows "remove_inside env mp lo hi (vma_id a) s =
    bindK (map_insert env mp x (split_state a x lo hi (vma_olink (slab_contents env x)) ob m s)) (\<lambda>_ s.
    bindK (pt_unmap_range lo hi s) (\<lambda>_ s. Ret (Inr ()) s))"
proof -
  have ne: "vma_id a \<noteq> x" using a x(2) by auto
  have "a\<lparr>vma_start := vma_start a, vma_end := lo\<rparr> = a\<lparr>vma_end := lo\<rparr>" by (cases a) simp
  then show ?thesis
    using a x f ob ne
    by (simp add: remove_inside_def vmarea_alloc_def vma_upd_def Let_def mmo_ref_eq split_state_def
        upper_part_fields [where n = "slab_contents env x" and a = a, unfolded ob(1)] fun_upd_twist [OF ne])
qed

lemma store_map_other [simp]:
  "runs (store_map m s) pd = runs s pd" "spare k (store_map m s) = spare k s" "hwlog (store_map m s) = hwlog s"
  by (auto simp: store_map_def runs_def spare_def fun_eq_iff)

text \<open>Inserting the second half \<open>u\<close> of the area \<open>a\<close> behind its first half \<open>l\<close>.\<close>

lemma map_insert_split:
  assumes ok: "vmas_ok (cfg env) (pre @ a # post)" and ht: "holds_map t mp (pre @ l # post) pr"
    and l: "vma_id l = vma_id a" "vma_start l = vma_start a" "vma_end l = lo" and mid: "vma_start a < lo" "lo < hi" "hi < vma_end a"
    and u: "vmareas t x = Some u" "vma_id u = x" "vma_start u = hi" "vma_end u = vma_end a" "vma_vmmap u = None"
    and new: "x \<notin> vma_id ` set (pre @ a # post)"
  shows "map_insert env mp x t = Ret () (store_map \<lparr>vmm_id = mp, vmm_list = pre @ l # u\<lparr>vma_vmmap := Some mp\<rparr> # post, vmm_proc = pr\<rparr> t)"
    and "distinct (map vma_id (pre @ [l, u\<lparr>vma_vmmap := Some mp\<rparr>] @ post))"
proof -
  let ?u = "u\<lparr>vma_vmmap := Some mp\<rparr>"
  have vma: "vma_ok (cfg env) u" using ok mid u by (auto simp: vmas_ok_def vma_ok_def)
  have "before y a" if "y \<in> set pre" for y using that ok by (auto simp: vmas_ok_def sorted_wrt_append)
  moreover have "vma_start y < vma_end y" if "y \<in> set pre \<union> set post" for y using that ok by (auto simp: vmas_ok_def vma_ok_def)
  moreover have "before a y" if "y \<in> set post" for y using that ok by (auto simp: vmas_ok_def sorted_wrt_append)
  ultimately have ins: "vmlist_insert ?u ((pre @ [l]) @ post) = (pre @ [l]) @ ?u # post"
    using mid l u by (intro vmlist_insert_mid) (fastforce simp: before_def)+
  show "map_insert env mp x t = Ret () (store_map \<lparr>vmm_id = mp, vmm_list = pre @ l # ?u # post, vmm_proc = pr\<rparr> t)"
    using u holds_map_load [OF ht] vma ins by (simp add: map_insert_def on_map_def vmmap_insert_def vma_ok_def)
  show "distinct (map vma_id (pre @ [l, ?u] @ post))" using ok l u new by (auto simp: vmas_ok_def)
qed

lemma remove_middle:
  assumes r: "removing env lo hi pd mp pr pre a post s" and c: "lo > vma_start a" "hi < vma_end a"
    and ob: "vma_obj a = Some ob" and m: "mmobjs s ob = Some m" "0 < mmo_refcount m"
    and x: "vmarea_slab env (vmareas s) = Some x" "vmareas s x = None"
    and f: "\<not> has_flag (vma_flags a) (MAP_PRIVATE (cfg env))" "has_flag (vma_flags a) (MAP_SHARED (cfg env))"
  shows "\<exists>s1. remove_areas env mp lo hi (vma_id a # rest) s = remove_areas env mp lo hi rest s1
    \<and> area_removed lo hi pd mp pr pre a post s s1"
proof -
  note d = removingD [OF r]
  let ?ol = "vma_olink (slab_contents env x)"
  let ?b = "upper_part a x hi ?ol" and ?t = "split_state a x lo hi ?ol ob m s"
  let ?b' = "?b\<lparr>vma_vmmap := Some mp\<rparr>" and ?a = "a\<lparr>vma_end := lo\<rparr>"
  have new: "vma_id y \<noteq> x" if "y \<in> set (pre @ a # post)" for y using that d(1) x(2) by (auto simp: holds_map_def)
  then have new_ids: "x \<notin> vma_id ` set (pre @ a # post)" by blast
  have "holds_map (s\<lparr>vmareas := (vmareas s)(vma_id a \<mapsto> ?a)\<rparr>) mp (pre @ ?a # post) pr"
    by (rule holds_map_upd [OF d(1,7)]) simp
  then have ht: "holds_map ?t mp (pre @ ?a # post) pr" using new by (auto simp: holds_map_def split_state_def)
  let ?m = "\<lparr>vmm_id = mp, vmm_list = pre @ ?a # ?b' # post, vmm_proc = pr\<rparr>"
  have mi: "map_insert env mp x ?t = Ret () (store_map ?m ?t)" and ids: "distinct (map vma_id (pre @ [?a, ?b'] @ post))"
    using new_ids by (intro map_insert_split [OF d(2) ht _ _ _ c(1) d(5) c(2)]; simp add: split_state_def upper_part_def)+
  let ?e = "PT_UNMAP_RANGE pd (PN_TO_ADDR lo) (PN_TO_ADDR hi)"
  let ?s = "hw ?e (store_map ?m ?t)"
  have rt: "runs ?t pd" using d(3) by (simp add: split_state_def)
  have "remove_inside env mp lo hi (vma_id a) s = Ret (Inr ()) ?s"
    using rt mi by (simp add: remove_inside_shared [OF d(6) x f ob m] pt_unmap_range_eq [where pd = pd])
  then have run: "remove_areas env mp lo hi (vma_id a # rest) s = remove_areas env mp lo hi rest ?s"
    using d(6) c by simp
  have "holds_map (store_map ?m ?t) mp (pre @ [?a, ?b'] @ post) pr" using store_map_holds [of ?m ?t] ids by simp
  moreover have "cut lo hi a [?a, ?b']" using c d(5) by (intro cut_inside) (simp_all add: upper_part_def)
  moreover have "keeps_objects a s ?s"
    using keeps_objects_ref [OF m(1) ob]
    by (subst keeps_objects_cong [of _ "s\<lparr>mmobjs := (mmobjs s)(ob \<mapsto> m\<lparr>mmo_refcount := mmo_refcount m + 1\<rparr>)\<rparr>"])
      (simp_all add: split_state_def store_map_def hw_def)
  moreover have "unmaps pd [?e] a lo hi" by (auto simp: unmaps_def covers_def)
  moreover have "\<not> (vma_end a \<le> lo \<or> hi \<le> vma_start a)" using c d(5) by auto
  moreover have "hwlog ?t = hwlog s" by (simp add: split_state_def)
  ultimately have "area_removed lo hi pd mp pr pre a post s ?s" unfolding area_removed_def
    using rt ids c by (intro conjI exI [of _ "[?a, ?b']"] exI [of _ "[?e]"]) simp_all
  then show ?thesis using run by blast
qed

text \<open>
  \<open>removable env lo hi k s a\<close>: what removing the range takes of an area. An area inside the range is disposable; an area that
  the range splits is shared, its object is in use, and there is memory for the second half.
\<close>

definition removable :: "kenv \<Rightarrow> u32 \<Rightarrow> u32 \<Rightarrow> nat \<Rightarrow> kstate \<Rightarrow> vmarea \<Rightarrow> bool" where
  "removable env lo hi k s a \<longleftrightarrow> (lo \<le> vma_start a \<and> vma_end a \<le> hi \<longrightarrow> disposable env k s a)
     \<and> (vma_start a < lo \<and> hi < vma_end a \<longrightarrow> \<not> has_flag (vma_flags a) (MAP_PRIVATE (cfg env))
          \<and> has_flag (vma_flags a) (MAP_SHARED (cfg env)) \<and> vmarea_slab env (vmareas s) \<noteq> None
          \<and> (\<exists>ob m. vma_obj a = Some ob \<and> mmobjs s ob = Some m \<and> 0 < mmo_refcount m))"

lemma remove_one:
  assumes r: "removing env lo hi pd mp pr pre a post s" and fresh: "allocs_fresh env" and rm: "removable env lo hi (Suc k) s a"
  shows "\<exists>s1. remove_areas env mp lo hi (vma_id a # rest) s = remove_areas env mp lo hi rest s1
    \<and> area_removed lo hi pd mp pr pre a post s s1"
proof -
  consider (out) "vma_end a \<le> lo \<or> hi \<le> vma_start a" | (mid) "lo > vma_start a" "hi < vma_end a"
    | (last) "lo > vma_start a" "lo < vma_end a" "hi \<ge> vma_end a" | (first) "lo \<le> vma_start a" "hi > vma_start a" "hi < vma_end a"
    | (all) "lo \<le> vma_start a" "hi \<ge> vma_end a" by force
  then show ?thesis
  proof cases
    case out
    show ?thesis using remove_outside [OF r out] by blast
  next
    case mid
    then obtain x ob m where x: "vmarea_slab env (vmareas s) = Some x" and ob: "vma_obj a = Some ob" "mmobjs s ob = Some m" "0 < mmo_refcount m"
      and f: "\<not> has_flag (vma_flags a) (MAP_PRIVATE (cfg env))" "has_flag (vma_flags a) (MAP_SHARED (cfg env))"
      using rm unfolding removable_def by blast
    have "vmareas s x = None" using fresh x by (simp add: allocs_fresh_def)
    then show ?thesis by (intro remove_middle [OF r mid ob x _ f])
  next
    case last
    show ?thesis by (rule remove_end [OF r last])
  next
    case first
    show ?thesis by (rule remove_start [OF r first])
  next
    case all
    then show ?thesis using rm by (intro remove_all [OF r all, where k = k]) (simp add: removable_def)
  qed
qed

section \<open>The loop\<close>

text \<open>\<open>own_shadows lo hi s vs\<close>: no two areas in the range hold the last reference to the same object.\<close>

definition own_shadows :: "u32 \<Rightarrow> u32 \<Rightarrow> kstate \<Rightarrow> vmarea list \<Rightarrow> bool" where
  "own_shadows lo hi s vs \<longleftrightarrow> (\<forall>a b ob. a \<in> set vs \<and> b \<in> set vs \<and> lo \<le> vma_start a \<and> vma_end a \<le> hi \<and> lo \<le> vma_start b \<and> vma_end b \<le> hi
     \<and> vma_obj a = Some ob \<and> vma_obj b = Some ob \<and> last_use 0 s ob \<longrightarrow> a = b)"

lemma last_use_0: "last_use k s ob \<Longrightarrow> last_use 0 s ob"
  by (induction k) (auto intro: last_use_less)

lemma disposable_next:
  assumes d: "disposable env (Suc k) s b" and kp: "keeps_objects a s s1" and ne: "vma_id b \<noteq> vma_id a"
    and own: "\<And>ob. vma_obj a = Some ob \<Longrightarrow> vma_obj b = Some ob \<Longrightarrow> \<not> last_use 0 s ob"
  shows "disposable env k s1 b"
  using d kp ne own last_use_0 [of "Suc k" s] unfolding disposable_def keeps_objects_def by metis

lemma removable_next:
  assumes rm: "removable env lo hi (Suc k) s b" and ok: "vmas_ok c (pre @ a # vs)" and b: "b \<in> set vs" and lh: "lo < hi"
    and own: "own_shadows lo hi s (a # vs)" and ar: "area_removed lo hi pd mp pr pre' a post s s1"
  shows "removable env lo hi k s1 b"
proof -
  have ne: "vma_id b \<noteq> vma_id a" "b \<noteq> a" "before a b" "vma_start b < vma_end b"
    using ok b by (auto simp: vmas_ok_def sorted_wrt_append vma_ok_def image_iff)
  have kp: "keeps_objects a s s1" and out: "vma_end a \<le> lo \<or> hi \<le> vma_start a \<longrightarrow> s1 = s"
    and same: "lo \<le> vma_start a \<and> vma_end a \<le> hi \<or> vma_start a < lo \<and> hi < vma_end a \<or> mmobjs s1 = mmobjs s \<and> vnodes s1 = vnodes s"
    using ar by (auto simp: area_removed_def)
  have "disposable env k s1 b" if c: "lo \<le> vma_start b" "vma_end b \<le> hi"
  proof -
    have d: "disposable env (Suc k) s b" using rm c by (simp add: removable_def)
    have "\<not> hi < vma_end a" using c ne(3,4) by (auto simp: before_def)
    then consider "lo \<le> vma_start a" "vma_end a \<le> hi" | "mmobjs s1 = mmobjs s" "vnodes s1 = vnodes s" using same by auto
    then show ?thesis
    proof cases
      case 1
      then show ?thesis using c ne(2) own b by (intro disposable_next [OF d kp ne(1)]) (auto simp: own_shadows_def)
    next
      case 2
      have "spare k s1 ob = spare k s ob" for ob by (rule spare_cong [OF 2])
      with d show ?thesis using spare_less [of k s] 2(1) by (auto simp: disposable_def last_use_def linked_cong [OF 2(1)])
    qed
  qed
  moreover have "s1 = s" if "vma_start b < lo" using out ne(3) that by (auto simp: before_def)
  ultimately show ?thesis using rm by (auto simp: removable_def)
qed

lemma own_shadows_next:
  assumes own: "own_shadows lo hi s (a # vs)" and rm: "\<forall>b\<in>set vs. removable env lo hi (Suc (length vs)) s b" and kp: "keeps_objects a s s1"
  shows "own_shadows lo hi s1 vs"
  unfolding own_shadows_def
proof (intro allI impI; elim conjE)
  fix b c ob
  assume bc: "b \<in> set vs" "c \<in> set vs" and r: "lo \<le> vma_start b" "vma_end b \<le> hi" "lo \<le> vma_start c" "vma_end c \<le> hi"
    and ob: "vma_obj b = Some ob" "vma_obj c = Some ob" and l: "last_use 0 s1 ob"
  have "disposable env (Suc (length vs)) s b" using rm bc(1) r by (simp add: removable_def)
  then consider "spare (Suc (length vs)) s ob" | "last_use (Suc (length vs)) s ob" using ob by (auto simp: disposable_def)
  then show "b = c"
  proof cases
    case 1
    then have "spare (length vs) s1 ob" using kp by (simp add: keeps_objects_def)
    moreover have "0 < length vs" using bc(1) by (rule length_pos_if_in_set)
    ultimately show ?thesis using last_not_spare [OF l] by (metis gr0_implies_Suc)
  next
    case 2
    then show ?thesis using own bc r ob last_use_0 by (auto simp: own_shadows_def)
  qed
qed

lemma unmaps_more: "unmaps pd es a lo hi \<Longrightarrow> set es \<subseteq> set es' \<Longrightarrow> unmaps pd es' a lo hi"
  unfolding unmaps_def by blast

lemma remove_areas_correct:
  assumes "holds_map s mp (pre @ vs) pr" and "vmas_ok (cfg env) (pre @ vs)" and "runs s pd"
    and "\<forall>a\<in>set vs. removable env lo hi (length vs) s a" and "own_shadows lo hi s vs"
    and "1 < chain_fuel env" and "lo < hi" and "allocs_fresh env"
  shows "\<exists>s' vs' es. remove_areas env mp lo hi (map vma_id vs) s = Ret (Inr ()) s' \<and> holds_map s' mp (pre @ vs') pr
    \<and> vmas_ok (cfg env) (pre @ vs') \<and> (\<forall>v. view vs' v = (if lo \<le> v \<and> v < hi then None else view vs v))
    \<and> hwlog s' = hwlog s @ es \<and> (\<forall>a\<in>set vs. unmaps pd es a lo hi)"
  using assms(1-5)
proof (induction vs arbitrary: pre s)
  case Nil
  then show ?case by (intro exI [of _ s] exI [of _ "[]"]) simp
next
  case (Cons a vs)
  have r: "removing env lo hi pd mp pr pre a vs s" using Cons.prems assms(6,7) by (simp add: removing_def)
  obtain s1 where run: "remove_areas env mp lo hi (vma_id a # map vma_id vs) s = remove_areas env mp lo hi (map vma_id vs) s1"
    and a: "area_removed lo hi pd mp pr pre a vs s s1"
    using remove_one [OF r assms(8), of "length vs" "map vma_id vs"] Cons.prems(4) by auto
  obtain cs es where cs: "holds_map s1 mp (pre @ cs @ vs) pr" "cut lo hi a cs" "distinct (map vma_id (pre @ cs @ vs))"
    and es: "hwlog s1 = hwlog s @ es" "unmaps pd es a lo hi"
    using a unfolding area_removed_def by blast
  have rm: "\<forall>b\<in>set vs. removable env lo hi (Suc (length vs)) s b" using Cons.prems(4) by simp
  have s1: "runs s1 pd" "\<forall>b\<in>set vs. removable env lo hi (length vs) s1 b" "own_shadows lo hi s1 vs"
    using a rm removable_next [OF _ Cons.prems(2) _ assms(7) Cons.prems(5) a] own_shadows_next [OF Cons.prems(5) rm]
    by (auto simp: area_removed_def)
  have "vmas_ok (cfg env) (pre @ cs @ vs)" by (rule vmas_ok_cut [OF Cons.prems(2) cs(2,3)])
  with Cons.IH [of s1 "pre @ cs"] cs(1) s1
  obtain s' vs' es' where s': "remove_areas env mp lo hi (map vma_id vs) s1 = Ret (Inr ()) s'" "holds_map s' mp (pre @ cs @ vs') pr"
    "vmas_ok (cfg env) (pre @ cs @ vs')" "\<forall>v. view vs' v = (if lo \<le> v \<and> v < hi then None else view vs v)"
    "hwlog s' = hwlog s1 @ es'" "\<forall>a\<in>set vs. unmaps pd es' a lo hi" by auto
  have "view (cs @ vs') v = (if lo \<le> v \<and> v < hi then None else view (a # vs) v)" for v
    using cs(2) s'(4) by (simp add: view_append cut_def view_Cons)
  moreover have "\<forall>b\<in>set (a # vs). unmaps pd (es @ es') b lo hi" using es(2) s'(6) by (auto intro: unmaps_more)
  ultimately show ?case using run s' es
    by (intro exI [of _ s'] exI [of _ "cs @ vs'"] exI [of _ "es @ es'"]) simp
qed

lemma vmmap_remove_view:
  assumes map: "holds_map s mp vs pr" "vmas_ok (cfg env) vs" and run: "runs s pd"
    and areas: "\<forall>a\<in>set vs. removable env lo (lo + n) (length vs) s a" "own_shadows lo (lo + n) s vs"
    and env: "1 < chain_fuel env" "allocs_fresh env" and range: "0 < n" "unat lo + unat n < 2 ^ 32"
  shows "\<exists>s' vs' es. vmmap_remove env mp lo n s = Ret (Inr ()) s' \<and> holds_map s' mp vs' pr \<and> vmas_ok (cfg env) vs'
    \<and> view vs' = (\<lambda>v. if lo \<le> v \<and> v < lo + n then None else view vs v) \<and> hwlog s' = hwlog s @ es
    \<and> (\<forall>v. lo \<le> v \<and> v < lo + n \<and> view vs v \<noteq> None \<longrightarrow>
         (\<exists>x y. PT_UNMAP_RANGE pd (PN_TO_ADDR x) (PN_TO_ADDR y) \<in> set es \<and> x \<le> v \<and> v < y))"
proof -
  have "unat (lo + n) = unat lo + unat n" using range(2) by (simp add: unat_word_ariths)
  then have lh: "lo < lo + n" using range(1) by (simp add: word_less_nat_alt)
  obtain s' vs' es where s': "remove_areas env mp lo (lo + n) (map vma_id vs) s = Ret (Inr ()) s'" "holds_map s' mp vs' pr"
    "vmas_ok (cfg env) vs'" "\<forall>v. view vs' v = (if lo \<le> v \<and> v < lo + n then None else view vs v)"
    "hwlog s' = hwlog s @ es" "\<forall>a\<in>set vs. unmaps pd es a lo (lo + n)"
    using remove_areas_correct [of s mp "[]" vs pr env pd lo "lo + n"] assms lh by auto
  have "vmmap_remove env mp lo n s = Ret (Inr ()) s'"
    using map(1) s'(1) by (simp add: vmmap_remove_def holds_map_def)
  moreover have "\<exists>x y. PT_UNMAP_RANGE pd (PN_TO_ADDR x) (PN_TO_ADDR y) \<in> set es \<and> x \<le> v \<and> v < y"
    if "lo \<le> v" "v < lo + n" "view vs v \<noteq> None" for v
    using that s'(6) by (auto simp: unmaps_def view_eq_None)
  ultimately show ?thesis using s' by (intro exI [of _ s'] exI [of _ vs'] exI [of _ es]) auto
qed


text \<open>An address space with a shared area of sixteen pages on an anonymous object with references to spare.\<close>

definition wide_area :: vmarea where "wide_area = example_area\<lparr>vma_end := 0x410\<rparr>"

definition wide_space :: kstate where
  "wide_space = example_space\<lparr>vmareas := [1 \<mapsto> wide_area], mmobjs := [1 \<mapsto> example_anon\<lparr>mmo_refcount := 3\<rparr>]\<rparr>"

lemmas wide_space_simps = wide_space_def wide_area_def example_space_def example_area_def kstate0_def example_proc_def example_anon_def


section \<open>Splitting a private area\<close>

definition new_shadow :: mmobj where
  "new_shadow = \<lparr>mmo_ops = shadow_mmobj_ops, mmo_refcount = 1, mmo_nrespages = 0, mmo_respages = [],
     mmo_un_f = mmo_bottom_obj None, mmo_shadowed = None\<rparr>"

lemma remove_skip:
  assumes "\<forall>b\<in>set pre. vmareas s (vma_id b) = Some b \<and> vma_start b < vma_end b \<and> vma_end b \<le> lo" and "lo < hi"
  shows "remove_areas env mp lo hi (map vma_id pre @ rest) s = remove_areas env mp lo hi rest s"
  using assms by (induction pre) auto

lemma remove_skip_above:
  assumes "\<forall>b\<in>set post. vmareas s (vma_id b) = Some b \<and> vma_start b < vma_end b \<and> hi \<le> vma_start b" and "lo < hi"
  shows "remove_areas env mp lo hi (map vma_id post) s = Ret (Inr ()) s"
  using assms by (induction post) auto

text \<open>The two halves of a private area that the range splits, each with a new shadow object over the old one.\<close>

definition lower_half :: "vmarea \<Rightarrow> u32 \<Rightarrow> ptr \<Rightarrow> ptr \<Rightarrow> vmarea" where
  "lower_half a lo sh b = a\<lparr>vma_end := lo, vma_obj := Some sh, vma_olink := Some b\<rparr>"

definition upper_half :: "vmarea \<Rightarrow> ptr \<Rightarrow> u32 \<Rightarrow> ptr \<Rightarrow> ptr \<Rightarrow> vmarea" where
  "upper_half a x hi sh b = (upper_part a x hi (Some b))\<lparr>vma_obj := Some sh\<rparr>"

definition shadow_of :: "ptr \<Rightarrow> ptr \<Rightarrow> mmobj" where
  "shadow_of ob b = new_shadow\<lparr>mmo_shadowed := Some ob, mmo_un_f := mmo_bottom_obj (Some b)\<rparr>"

lemma upper_half_fields:
  "n\<lparr>vma_id := x, vma_start := hi, vma_end := vma_end a, vma_off := vma_off a + hi - vma_start a, vma_prot := vma_prot a,
     vma_flags := vma_flags a, vma_vmmap := None, vma_obj := Some sh, vma_olink := Some b\<rparr> = upper_half a x hi sh b"
  by (cases n, cases a) (simp add: upper_half_def upper_part_def)

text \<open>The state before the second half is inserted into the address space.\<close>

definition split_private_state ::
  "vmarea \<Rightarrow> ptr \<Rightarrow> u32 \<Rightarrow> u32 \<Rightarrow> ptr \<Rightarrow> ptr \<Rightarrow> ptr \<Rightarrow> mmobj \<Rightarrow> ptr \<Rightarrow> mmobj \<Rightarrow> ptr list \<Rightarrow> kstate \<Rightarrow> kstate" where
  "split_private_state a x lo hi sh1 sh2 ob m b mb vs s =
     s\<lparr>vmareas := (vmareas s)(vma_id a \<mapsto> lower_half a lo sh1 b, x \<mapsto> upper_half a x hi sh2 b),
       mmobjs := (mmobjs s)(sh1 \<mapsto> shadow_of ob b, sh2 \<mapsto> shadow_of ob b, b \<mapsto> mb\<lparr>mmo_un_f := mmo_vmas_relinked vs\<rparr>,
         ob \<mapsto> m\<lparr>mmo_refcount := mmo_refcount m + 1\<rparr>)\<rparr>"

lemma remove_inside_private:
  assumes a: "vmareas s (vma_id a) = Some a" and x: "vmarea_slab env (vmareas s) = Some x" "vmareas s x = None"
    and priv: "has_flag (vma_flags a) (MAP_PRIVATE (cfg env))"
    and sh: "mmobj_slab env (mmobjs s) = Some sh1" "mmobj_slab env ((mmobjs s)(sh1 \<mapsto> new_shadow)) = Some sh2"
    and new: "mmobjs s sh1 = None" "mmobjs s sh2 = None" "sh2 \<noteq> sh1"
    and ob: "vma_obj a = Some ob" "mmobjs s ob = Some m" "mmo_un_f m = mmo_bottom_obj (Some b)" "0 < mmo_refcount m"
    and b: "mmobjs s b = Some mb" "mmo_un_f mb = mmo_vmas (front @ vma_id a # behind)" "vma_id a \<notin> set front \<union> set behind" "x \<notin> set front"
  shows "remove_inside env mp lo hi (vma_id a) s =
    bindK (map_insert env mp x (split_private_state a x lo hi sh1 sh2 ob m b mb (front @ [vma_id a, x]) s)) (\<lambda>_ s.
    bindK (pt_unmap_range lo hi s) (\<lambda>_ s. Ret (Inr ()) s))"
proof -
  have ne: "vma_id a \<noteq> x" using a x(2) by auto
  have d: "ob \<noteq> sh1" "ob \<noteq> sh2" "b \<noteq> sh1" "b \<noteq> sh2" "ob \<noteq> b" using ob b new by auto
  have tw: "x \<notin> insert (vma_id a) (set front)" using b(4) ne by simp
  note tw = relink_twice [OF b(3) tw]
  show ?thesis
    using a x priv ne sh new ob b d tw
    by (simp add: remove_inside_def split_private_def vmarea_alloc_def vma_upd_def Let_def shadow_create_def new_shadow_def [symmetric]
        mmobj_bottom_obj_def olink_insert_def mmo_ref_eq split_private_state_def upper_half_fields shadow_of_def lower_half_def fun_upd_twist [OF ne])
qed

lemma half_fields:
  "vma_id (lower_half a lo sh b) = vma_id a" "vma_start (lower_half a lo sh b) = vma_start a" "vma_end (lower_half a lo sh b) = lo"
  "vma_id (upper_half a x hi sh b) = x" "vma_start (upper_half a x hi sh b) = hi" "vma_end (upper_half a x hi sh b) = vma_end a"
  "vma_vmmap (upper_half a x hi sh b) = None"
  by (simp_all add: lower_half_def upper_half_def upper_part_def)

text \<open>The two halves map what the area mapped outside the range, with their own objects.\<close>

lemma view_halves:
  assumes "vma_start a < lo" and "lo < hi" and "hi < vma_end a"
  shows "view [lower_half a lo sh1 b, (upper_half a x hi sh2 b)\<lparr>vma_vmmap := q\<rparr>] v =
    (if covers a v \<and> \<not> (lo \<le> v \<and> v < hi)
     then Some (vma_prot a, vma_flags a, Some (if v < lo then sh1 else sh2), vma_off a + (v - vma_start a)) else None)"
  using assms by (auto simp: view_Cons covers_def page_of_def lower_half_def upper_half_def upper_part_def)

lemma view_split:
  assumes ok: "vmas_ok c (pre @ a # post)" and mid: "vma_start a < lo" "lo < hi" "hi < vma_end a"
  shows "view (pre @ [lower_half a lo sh1 b, (upper_half a x hi sh2 b)\<lparr>vma_vmmap := q\<rparr>] @ post) v = (if lo \<le> v \<and> v < hi then None
      else if covers a v then Some (vma_prot a, vma_flags a, Some (if v < lo then sh1 else sh2), vma_off a + (v - vma_start a))
      else view (pre @ a # post) v)"
proof -
  have "distinct (map vma_id (pre @ a # post))" using ok by (simp add: vmas_ok_def)
  then have no: "view pre v = None" "view post v = None" if "covers a v"
    using that covers_unique [OF ok, of _ a v] unfolding view_eq_None by (fastforce simp: image_iff)+
  show ?thesis using no mid view_halves [OF mid, where ?sh1.0 = sh1 and ?sh2.0 = sh2 and b = b and x = x and q = q and v = v]
    by (cases "covers a v") (auto simp: view_append view_Cons [of a] covers_def split: option.split simp del: append.simps)
qed

lemma vmas_ok_halves:
  assumes ok: "vmas_ok c (pre @ a # post)" and mid: "vma_start a < lo" "lo < hi" "hi < vma_end a"
    and ids: "distinct (map vma_id (pre @ [lower_half a lo sh1 b, (upper_half a x hi sh2 b)\<lparr>vma_vmmap := q\<rparr>] @ post))"
  shows "vmas_ok c (pre @ [lower_half a lo sh1 b, (upper_half a x hi sh2 b)\<lparr>vma_vmmap := q\<rparr>] @ post)"
proof -
  let ?u = "(upper_half a x hi sh2 b)\<lparr>vma_vmmap := q\<rparr>" and ?l = "lower_half a lo sh1 b"
  have "before y ?l" "before y ?u" if "y \<in> set pre" for y
    using ok mid that by (auto simp: vmas_ok_def sorted_wrt_append before_def half_fields)
  moreover have "before ?l y" "before ?u y" if "y \<in> set post" for y
    using ok mid that by (auto simp: vmas_ok_def sorted_wrt_append before_def half_fields)
  moreover have "before ?l ?u" "vma_ok c ?l" "vma_ok c ?u" using ok mid by (auto simp: vmas_ok_def vma_ok_def before_def half_fields)
  ultimately show ?thesis using ok ids by (auto simp: vmas_ok_def sorted_wrt_append)
qed

text \<open>
  C37: removing pages from the middle of a private area. \<open>vmmap_remove\<close> succeeds and the pages are unmapped, with a new shadow
  object under each of the two halves; but the link of the area, which is in the list of the bottom object already, is
  inserted there once more. The areas that came behind it in that list are not reached any more, so that
  \<open>pframe_remove_from_pts\<close>, which goes through the areas reached, leaves their page table entries standing when a page of the
  object is cleaned or freed.
\<close>

theorem remove_private_middle_drops_areas:
  assumes map: "holds_map s mp (pre @ a # post) pr" "vmas_ok (cfg env) (pre @ a # post)" and run: "runs s pd"
    and mid: "vma_start a < lo" "lo < lo + n" "lo + n < vma_end a" and priv: "has_flag (vma_flags a) (MAP_PRIVATE (cfg env))"
    and x: "vmarea_slab env (vmareas s) = Some x"
    and sh: "mmobj_slab env (mmobjs s) = Some sh1" "mmobj_slab env ((mmobjs s)(sh1 \<mapsto> new_shadow)) = Some sh2" "allocs_fresh env"
    and ob: "vma_obj a = Some ob" "mmobjs s ob = Some m" "mmo_un_f m = mmo_bottom_obj (Some b)" "0 < mmo_refcount m"
    and linked: "areas_of s ob = Some (front @ vma_id a # behind)" "mmobjs s b = Some mb" "mmo_un_f mb = mmo_vmas (front @ vma_id a # behind)"
      "distinct (front @ vma_id a # behind)" "\<forall>v\<in>set (front @ vma_id a # behind). vmareas s v \<noteq> None"
  shows "\<exists>s' vs'. vmmap_remove env mp lo n s = Ret (Inr ()) s' \<and> holds_map s' mp vs' pr \<and> vmas_ok (cfg env) vs'
    \<and> (\<forall>v. view vs' v = (if lo \<le> v \<and> v < lo + n then None
         else if covers a v then Some (vma_prot a, vma_flags a, Some (if v < lo then sh1 else sh2), vma_off a + (v - vma_start a))
         else view (pre @ a # post) v))
    \<and> areas_of s' ob = Some (front @ [vma_id a, x]) \<and> (\<forall>v\<in>set behind. v \<notin> set (front @ [vma_id a, x]))"
proof -
  let ?hi = "lo + n"
  have d: "vmareas s (vma_id a) = Some a" "vma_start a < vma_end a" using map by (auto simp: holds_map_def vmas_ok_def vma_ok_def)
  have x0: "vmareas s x = None" using sh(3) x by (simp add: allocs_fresh_def)
  have new: "mmobjs s sh1 = None" "((mmobjs s)(sh1 \<mapsto> new_shadow)) sh2 = None" using sh unfolding allocs_fresh_def by blast+
  then have sh2: "mmobjs s sh2 = None" "sh2 \<noteq> sh1" by (auto split: if_splits)
  have l: "vma_id a \<notin> set front \<union> set behind" "x \<notin> set front" "x \<notin> set behind" using linked(4) bspec [OF linked(5), of x] x0 by auto
  let ?t = "split_private_state a x lo ?hi sh1 sh2 ob m b mb (front @ [vma_id a, x]) s"
  let ?l = "lower_half a lo sh1 b" and ?u = "(upper_half a x ?hi sh2 b)\<lparr>vma_vmmap := Some mp\<rparr>"
  let ?m = "\<lparr>vmm_id = mp, vmm_list = pre @ ?l # ?u # post, vmm_proc = pr\<rparr>"
  have nx: "vma_id y \<noteq> x" if "y \<in> set (pre @ a # post)" for y using that map(1) x0 by (auto simp: holds_map_def)
  then have nx_ids: "x \<notin> vma_id ` set (pre @ a # post)" by blast
  have ids: "distinct (map vma_id (pre @ a # post))" using map(2) by (simp add: vmas_ok_def)
  have "holds_map (s\<lparr>vmareas := (vmareas s)(vma_id a \<mapsto> ?l)\<rparr>) mp (pre @ ?l # post) pr"
    by (rule holds_map_upd [OF map(1) ids]) (simp add: half_fields)
  then have ht: "holds_map ?t mp (pre @ ?l # post) pr" using nx by (auto simp: holds_map_def split_private_state_def half_fields)
  have mi: "map_insert env mp x ?t = Ret () (store_map ?m ?t)" and ids': "distinct (map vma_id (pre @ [?l, ?u] @ post))"
    using nx_ids by (intro map_insert_split [OF map(2) ht _ _ _ mid]; simp add: split_private_state_def half_fields)+
  let ?s = "hw (PT_UNMAP_RANGE pd (PN_TO_ADDR lo) (PN_TO_ADDR ?hi)) (store_map ?m ?t)"
  have rt: "runs (store_map ?m ?t) pd" using run by (simp add: split_private_state_def)
  have "remove_inside env mp lo ?hi (vma_id a) s = Ret (Inr ()) ?s"
    using mi by (simp add: remove_inside_private [OF d(1) x x0 priv sh(1,2) new(1) sh2 ob linked(2,3) l(1,2)] pt_unmap_range_eq [OF rt])
  then have "remove_areas env mp lo ?hi (vma_id a # map vma_id post) s = remove_areas env mp lo ?hi (map vma_id post) ?s"
    using d(1) mid by simp
  moreover have hs: "holds_map ?s mp (pre @ [?l, ?u] @ post) pr" using store_map_holds [of ?m ?t] ids' by simp
  then have "\<forall>y\<in>set post. vmareas ?s (vma_id y) = Some y" by (simp add: holds_map_def)
  then have "remove_areas env mp lo ?hi (map vma_id post) ?s = Ret (Inr ()) ?s"
    using map(2) mid(2,3) by (intro remove_skip_above) (auto simp: vmas_ok_def vma_ok_def sorted_wrt_append before_def)
  moreover have "\<forall>y\<in>set pre. vmareas s (vma_id y) = Some y \<and> vma_start y < vma_end y \<and> vma_end y \<le> lo"
    using map mid(1) by (auto simp: holds_map_def vmas_ok_def vma_ok_def sorted_wrt_append before_def)
  ultimately have "vmmap_remove env mp lo n s = Ret (Inr ()) ?s"
    using map(1) remove_skip [of pre s lo ?hi env mp "vma_id a # map vma_id post"] mid(2)
    by (simp add: vmmap_remove_def holds_map_def)
  moreover have "areas_of ?s ob = Some (front @ [vma_id a, x])"
    using ob linked(2,3) by (auto simp: areas_of_def split_private_state_def store_map_def hw_def)
  ultimately show ?thesis
    using hs vmas_ok_halves [OF map(2) mid ids'] view_split [OF map(2) mid] linked(4) l(3)
    by (intro exI [of _ ?s] exI [of _ "pre @ [?l, ?u] @ post"]) (auto simp del: append.simps)
qed

definition private_area :: vmarea where "private_area = wide_area\<lparr>vma_flags := 2, vma_obj := Some 2, vma_olink := Some 1\<rparr>"

text \<open>A private area whose anonymous object another process maps too, with an area behind it in the list.\<close>

definition private_space :: kstate where
  "private_space = wide_space\<lparr>vmareas := [1 \<mapsto> private_area, 5 \<mapsto> private_area\<lparr>vma_id := 5, vma_vmmap := Some 7\<rparr>],
     mmobjs := [1 \<mapsto> example_anon\<lparr>mmo_un_f := mmo_vmas [1, 5]\<rparr>, 2 \<mapsto> example_shadow]\<rparr>"

theorem remove_private_middle_drops_areas_witness:
  "\<exists>s'. vmmap_remove example_env 1 0x404 4 private_space = Ret (Inr ()) s'
    \<and> areas_of private_space 2 = Some [1, 5] \<and> areas_of s' 2 = Some [1, 2] \<and> 5 \<notin> set [1, 2 :: ptr]"
proof -
  have sel: "cfg example_env = example_cfg" by (simp add: example_env_def)
  note simps = private_space_def private_area_def wide_space_simps example_shadow_def
  have h: "holds_map private_space 1 ([] @ private_area # []) (Some 1)" by (simp add: holds_map_def simps)
  have v: "vmas_ok (cfg example_env) ([] @ private_area # [])"
    by (simp add: sel vmas_ok_def vma_ok_def private_area_def wide_area_def example_area_def)
  have r: "runs private_space 1" by (simp add: runs_def simps)
  have m: "vma_start private_area < 0x404" "0x404 < 0x404 + (4 :: u32)" "0x404 + 4 < vma_end private_area"
    by (simp_all add: private_area_def wide_area_def example_area_def)
  have p: "has_flag (vma_flags private_area) (MAP_PRIVATE (cfg example_env))" by (simp add: private_area_def has_flag_def sel example_cfg_def)
  have x: "vmarea_slab example_env (vmareas private_space) = Some 2" "mmobj_slab example_env (mmobjs private_space) = Some 3"
    "mmobj_slab example_env ((mmobjs private_space)(3 \<mapsto> new_shadow)) = Some 4"
    by (simp_all add: example_env_sel first_free_def simps)
  have o: "vma_obj private_area = Some 2" "mmobjs private_space 2 = Some example_shadow" "mmo_un_f example_shadow = mmo_bottom_obj (Some 1)"
    "0 < mmo_refcount example_shadow" by (simp_all add: simps)
  have l: "areas_of private_space 2 = Some ([] @ vma_id private_area # [5])"
    "mmobjs private_space 1 = Some (example_anon\<lparr>mmo_un_f := mmo_vmas [1, 5]\<rparr>)"
    "mmo_un_f (example_anon\<lparr>mmo_un_f := mmo_vmas [1, 5]\<rparr>) = mmo_vmas ([] @ vma_id private_area # [5])"
    "distinct ([] @ vma_id private_area # [5])" "\<forall>v\<in>set ([] @ vma_id private_area # [5]). vmareas private_space v \<noteq> None"
    by (simp_all add: areas_of_def simps)
  from remove_private_middle_drops_areas [OF h v r m p x example_env_fresh o l] show ?thesis using l(1)
    by (auto simp: private_area_def wide_area_def example_area_def)
qed

section \<open>Removing a page from the page tables\<close>

text \<open>
  The page \<open>n\<close> of an object, by the boundaries of an area as the code tests it and by the pages of the area.
\<close>

lemma area_page_iff:
  assumes "vma_start a < vma_end a" and "unat (vma_off a) + (unat (vma_end a) - unat (vma_start a)) < 2 ^ 32"
  shows "vma_off a \<le> n \<and> n < vma_off a + (vma_end a - vma_start a) \<longleftrightarrow> (\<exists>v. covers a v \<and> vma_off a + (v - vma_start a) = n)"
    and "covers a v \<Longrightarrow> vma_off a + (v - vma_start a) = n \<Longrightarrow> vma_start a + n - vma_off a = v"
proof -
  have len: "unat (vma_end a - vma_start a) = unat (vma_end a) - unat (vma_start a)"
    using assms(1) by (intro unat_diff_ge) (simp add: word_less_nat_alt)
  then have top: "unat (vma_off a + (vma_end a - vma_start a)) = unat (vma_off a) + (unat (vma_end a) - unat (vma_start a))"
    using assms(2) by (simp add: unat_add_small)
  show "covers a v \<Longrightarrow> vma_off a + (v - vma_start a) = n \<Longrightarrow> vma_start a + n - vma_off a = v" by (auto simp: algebra_simps)
  show "vma_off a \<le> n \<and> n < vma_off a + (vma_end a - vma_start a) \<longleftrightarrow> (\<exists>v. covers a v \<and> vma_off a + (v - vma_start a) = n)"
  proof
    assume n: "vma_off a \<le> n \<and> n < vma_off a + (vma_end a - vma_start a)"
    then have d: "unat (n - vma_off a) = unat n - unat (vma_off a)" by (intro unat_diff_ge) (simp add: word_le_nat_alt)
    have "unat n < unat (vma_off a) + (unat (vma_end a) - unat (vma_start a))" using n top by (simp add: word_less_nat_alt)
    then have "unat (vma_start a) + unat (n - vma_off a) < unat (vma_end a)"
      using d n assms(1) by (simp add: word_le_nat_alt word_less_nat_alt)
    moreover have "unat (vma_end a) < 2 ^ 32" using unsigned_less [of "vma_end a", where ?'a = nat] by simp
    ultimately have "covers a (vma_start a + (n - vma_off a))" by (simp add: covers_unat unat_add_small)
    then show "\<exists>v. covers a v \<and> vma_off a + (v - vma_start a) = n" by (intro exI [of _ "vma_start a + (n - vma_off a)"]) simp
  next
    assume "\<exists>v. covers a v \<and> vma_off a + (v - vma_start a) = n"
    then obtain v where v: "covers a v" "n = vma_off a + (v - vma_start a)" by blast
    then have d: "unat (v - vma_start a) = unat v - unat (vma_start a)" by (intro unat_diff_ge) (simp add: covers_unat)
    then have "unat n = unat (vma_off a) + (unat v - unat (vma_start a))"
      using v(1) assms(2) unfolding v(2) by (subst unat_add_small) (auto simp: covers_unat)
    then show "vma_off a \<le> n \<and> n < vma_off a + (vma_end a - vma_start a)"
      using v(1) top unfolding covers_unat word_le_nat_alt word_less_nat_alt by (intro conjI; linarith)
  qed
qed

lemma view_area:
  assumes "vmas_ok c xs" and "a \<in> set xs" and "covers a v"
  shows "view xs v = Some (page_of a v)"
proof -
  obtain b where b: "find (\<lambda>a. covers a v) xs = Some b" using assms(2,3) by (cases "find (\<lambda>a. covers a v) xs") (auto simp: find_None_iff)
  then have "b \<in> set xs" "covers b v" by (auto simp: find_Some_iff)
  then show ?thesis using covers_unique [OF assms(1,2) _ assms(3)] b by (simp add: view_def)
qed

lemma view_SomeE:
  assumes "view xs v = Some r"
  obtains a where "a \<in> set xs" "covers a v" "r = page_of a v"
  using assms that nth_mem by (fastforce simp: view_def find_Some_iff)

text \<open>
  \<open>maps_page s b q v n\<close>: at page \<open>v\<close> of its address space the process \<open>q\<close> has the page \<open>n\<close> of an object whose chain ends in \<open>b\<close>.
\<close>

definition maps_page :: "kstate \<Rightarrow> ptr \<Rightarrow> ptr \<Rightarrow> u32 \<Rightarrow> u32 \<Rightarrow> bool" where
  "maps_page s b q v n \<longleftrightarrow> (\<exists>mp as prot fl ob. holds_map s mp as (Some q) \<and> view as v = Some (prot, fl, Some ob, n)
     \<and> mmobj_bottom_obj ob s = Ret b s)"

text \<open>
  \<open>in_space env s b v\<close>: the area \<open>v\<close> is one of a well-formed address space, over an object whose chain ends in \<open>b\<close>;
  \<open>links_all\<close>: the list \<open>vs\<close> has such areas only, and all of those that a process has.
\<close>

definition in_space :: "kenv \<Rightarrow> kstate \<Rightarrow> ptr \<Rightarrow> ptr \<Rightarrow> bool" where
  "in_space env s b v \<longleftrightarrow> (\<exists>a mp as pq ob. vmareas s v = Some a \<and> vma_vmmap a = Some mp \<and> holds_map s mp as pq \<and> a \<in> set as
     \<and> vmas_ok (cfg env) as \<and> (\<forall>q. pq = Some q \<longrightarrow> procs s q \<noteq> None) \<and> vma_obj a = Some ob \<and> mmobj_bottom_obj ob s = Ret b s
     \<and> unat (vma_off a) + (unat (vma_end a) - unat (vma_start a)) < 2 ^ 32)"

definition links_all :: "kenv \<Rightarrow> kstate \<Rightarrow> ptr \<Rightarrow> ptr list \<Rightarrow> bool" where
  "links_all env s b vs \<longleftrightarrow> (\<forall>v\<in>set vs. in_space env s b v)
     \<and> (\<forall>mp as q a ob. holds_map s mp as (Some q) \<and> a \<in> set as \<and> vma_obj a = Some ob \<and> mmobj_bottom_obj ob s = Ret b s
          \<longrightarrow> vma_id a \<in> set vs \<and> vma_vmmap a = Some mp)"

lemma in_space_area_ok: "in_space env s b v \<Longrightarrow> area_ok s v"
  by (auto simp: in_space_def area_ok_def holds_map_def split: option.split)

lemma mapped_at_maps:
  assumes "in_space env s b v" and "e \<in> set (mapped_at s n v)"
  obtains q pr w where "procs s q = Some pr" "maps_page s b q w n" "e = PT_UNMAP (p_pagedir pr) (PN_TO_ADDR w)"
proof -
  obtain a mp as pq ob where a: "vmareas s v = Some a" "vma_vmmap a = Some mp" "holds_map s mp as pq" "a \<in> set as"
    "vmas_ok (cfg env) as" "vma_obj a = Some ob" "mmobj_bottom_obj ob s = Ret b s"
    "unat (vma_off a) + (unat (vma_end a) - unat (vma_start a)) < 2 ^ 32" using assms(1) unfolding in_space_def by blast
  have lt: "vma_start a < vma_end a" using a(4,5) by (auto simp: vmas_ok_def vma_ok_def)
  obtain q pr where q: "vma_off a \<le> n \<and> n < vma_off a + (vma_end a - vma_start a)" "pq = Some q" "procs s q = Some pr"
    "e = PT_UNMAP (p_pagedir pr) (PN_TO_ADDR (vma_start a + n - vma_off a))"
    using assms(2) a(1-3) by (cases rule: mapped_at_cases [of s n v]) (auto simp: holds_map_def)
  obtain w where w: "covers a w" "vma_off a + (w - vma_start a) = n" using area_page_iff(1) [OF lt a(8)] q(1) by blast
  have "view as w = Some (vma_prot a, vma_flags a, Some ob, n)" using view_area [OF a(5,4) w(1)] w(2) a(6) by (simp add: page_of_def)
  then have "maps_page s b q w n" unfolding maps_page_def using a(3,7) q(2) by blast
  then show thesis using that q(3,4) area_page_iff(2) [OF lt a(8) w] by simp
qed

lemma maps_mapped_at:
  assumes all: "links_all env s b vs" and m: "maps_page s b q v n" and pr: "procs s q = Some pr"
  shows "\<exists>x\<in>set vs. PT_UNMAP (p_pagedir pr) (PN_TO_ADDR v) \<in> set (mapped_at s n x)"
proof -
  obtain mp as prot fl ob where h: "holds_map s mp as (Some q)" "view as v = Some (prot, fl, Some ob, n)" "mmobj_bottom_obj ob s = Ret b s"
    using m unfolding maps_page_def by blast
  obtain a where a: "a \<in> set as" "covers a v" "(prot, fl, Some ob, n) = page_of a v" using view_SomeE [OF h(2)] by blast
  have o: "vma_obj a = Some ob" "vma_off a + (v - vma_start a) = n" using a(3) by (auto simp: page_of_def)
  have l: "vma_id a \<in> set vs" "vma_vmmap a = Some mp" using all h(1,3) a(1) o(1) unfolding links_all_def by blast+
  have s: "vmareas s (vma_id a) = Some a" using h(1) a(1) by (simp add: holds_map_def)
  have "in_space env s b (vma_id a)" using all l(1) by (simp add: links_all_def)
  then have ok: "unat (vma_off a) + (unat (vma_end a) - unat (vma_start a)) < 2 ^ 32" using s by (auto simp: in_space_def)
  have lt: "vma_start a < vma_end a" using a(2) by (auto simp: covers_def)
  have "vma_off a \<le> n \<and> n < vma_off a + (vma_end a - vma_start a)" using area_page_iff(1) [OF lt ok] a(2) o(2) by blast
  then have "mapped_at s n (vma_id a) = [PT_UNMAP (p_pagedir pr) (PN_TO_ADDR (vma_start a + n - vma_off a))]"
    using s l(2) h(1) pr by (simp add: mapped_at_def holds_map_def)
  then show ?thesis using l(1) area_page_iff(2) [OF lt ok a(2) o(2)] by (intro bexI [of _ "vma_id a"]) simp_all
qed

text \<open>
  C30: removing a page frame from the page tables. When the list of the bottom object has exactly the areas over chains that end
  in it, and no offset of them overflows, \<open>pframe_remove_from_pts\<close> unmaps the virtual page \<open>v\<close> in the page directory of a
  process exactly when the page view of that process has the page of the frame there, through whatever object of a chain
  over the same bottom object; and it does nothing else.
\<close>

theorem pframe_remove_from_pts_unmaps_view:
  assumes f: "pframes s p = Some f" "pf_obj f = Some ob" and vs: "areas_of s ob = Some vs"
    and bottom: "mmobj_bottom_obj ob s = Ret b s" and all: "links_all env s b vs"
  shows "\<exists>evs. pframe_remove_from_pts p s = Ret () (s\<lparr>hwlog := hwlog s @ evs\<rparr>)
    \<and> set evs = {PT_UNMAP (p_pagedir pr) (PN_TO_ADDR v) | q pr v. procs s q = Some pr \<and> maps_page s b q v (pf_pagenum f)}"
    (is "\<exists>evs. _ \<and> set evs = ?S")
proof -
  let ?evs = "concat (map (mapped_at s (pf_pagenum f)) vs)"
  have sp: "in_space env s b v" if "v \<in> set vs" for v using all that by (simp add: links_all_def)
  then have "pframe_remove_from_pts p s = Ret () (s\<lparr>hwlog := hwlog s @ ?evs\<rparr>)"
    using remove_from_pts_eq [OF f vs] in_space_area_ok by blast
  moreover have "set ?evs = ?S"
  proof (intro equalityI subsetI)
    fix e assume "e \<in> set ?evs"
    then obtain v where "v \<in> set vs" "e \<in> set (mapped_at s (pf_pagenum f) v)" by auto
    then show "e \<in> ?S" using mapped_at_maps [OF sp] by blast
  next
    fix e assume "e \<in> ?S"
    then show "e \<in> set ?evs" using maps_mapped_at [OF all] by auto
  qed
  ultimately show ?thesis by blast
qed

text \<open>A page of an anonymous object, which the area of process 1 maps at page \<open>0x407\<close>.\<close>

definition pt_area :: vmarea where "pt_area = (example_vma 2 0x400 0x410)\<lparr>vma_vmmap := Some 1, vma_obj := Some 1, vma_olink := Some 1\<rparr>"

definition pt_space :: kstate where
  "pt_space = example_s1\<lparr>mmobjs := (mmobjs example_s1)(1 \<mapsto> example_anon\<lparr>mmo_un_f := mmo_vmas [2]\<rparr>),
     vmareas := [2 \<mapsto> pt_area], vmmaps := [1 \<mapsto> \<lparr>vmn_list = [2], vmn_proc = Some 1\<rparr>], procs := [1 \<mapsto> example_proc]\<rparr>"

lemma pt_space_map: "holds_map pt_space mp as pq \<longleftrightarrow> mp = 1 \<and> as = [pt_area] \<and> pq = Some 1"
  by (auto simp: holds_map_def pt_space_def pt_area_def example_vma_def split: if_splits)

theorem pframe_remove_from_pts_unmaps_view_witness:
  "\<exists>evs. pframe_remove_from_pts 1 pt_space = Ret () (pt_space\<lparr>hwlog := hwlog pt_space @ evs\<rparr>)
    \<and> PT_UNMAP (p_pagedir example_proc) (PN_TO_ADDR 0x407) \<in> set evs"
proof -
  have f: "pframes pt_space 1 = Some (fresh_frame 1 7 0x1000)" "pf_obj (fresh_frame 1 7 0x1000) = Some 1" "areas_of pt_space 1 = Some [2]"
    by (simp_all add: pt_space_def example_s1_def areas_of_def)
  have b: "mmobj_bottom_obj 1 pt_space = Ret 1 pt_space" by (simp add: mmobj_bottom_obj_def pt_space_def)
  have "cfg example_env = example_cfg" by (simp add: example_env_def)
  then have v: "vmas_ok (cfg example_env) [pt_area]"
    by (simp add: vmas_ok_def vma_ok_def pt_area_def example_vma_def)
  have p: "vmareas pt_space 2 = Some pt_area" "procs pt_space 1 = Some example_proc" by (simp_all add: pt_space_def)
  have a: "vma_vmmap pt_area = Some 1" "vma_obj pt_area = Some 1"
    "unat (vma_off pt_area) + (unat (vma_end pt_area) - unat (vma_start pt_area)) < 2 ^ 32"
    by (simp_all add: pt_area_def example_vma_def)
  have i: "vma_id pt_area = 2" by (simp add: pt_area_def example_vma_def)
  have h: "holds_map pt_space 1 [pt_area] (Some 1)" "pt_area \<in> set [pt_area]" "\<forall>q. Some 1 = Some q \<longrightarrow> procs pt_space q \<noteq> None"
    using p(2) by (simp_all add: pt_space_map)
  have "in_space example_env pt_space 1 2" unfolding in_space_def using p(1) a(1) h(1,2) v h(3) a(2) b a(3) by blast
  then have "links_all example_env pt_space 1 [2]" unfolding links_all_def pt_space_map using a(1) i by auto
  from pframe_remove_from_pts_unmaps_view [OF f b this]
  obtain evs where e: "pframe_remove_from_pts 1 pt_space = Ret () (pt_space\<lparr>hwlog := hwlog pt_space @ evs\<rparr>)"
    "set evs = {PT_UNMAP (p_pagedir pr) (PN_TO_ADDR v) | q pr v. procs pt_space q = Some pr \<and> maps_page pt_space 1 q v 7}" by auto
  have "maps_page pt_space 1 1 0x407 7" unfolding maps_page_def pt_space_map
    by (intro exI [of _ "1 :: ptr"] exI [of _ "[pt_area]"]) (simp add: view_Cons covers_def page_of_def pt_area_def example_vma_def b [unfolded One_nat_def])
  then show ?thesis using e p(2) by blast
qed

end
