(* ===== verification/Mmap.thy ===== *)
theory Mmap
  imports Access Vfs Unmap
begin

text \<open>
  The system calls that change an address space: \<open>do_mmap\<close> and \<open>do_munmap\<close>
  (\<open>src/kernel/vm/mmap.c\<close>) and \<open>do_brk\<close> (\<open>src/kernel/vm/brk.c\<close>). \<open>MAP_FAILED\<close> is \<open>-1\<close>.
\<close>

section \<open>mmap and munmap\<close>

text \<open>The checks of \<open>do_mmap\<close> on the file, and the file itself when it passes them.\<close>

definition mmap_file :: "kenv \<Rightarrow> u32 \<Rightarrow> u32 \<Rightarrow> int \<Rightarrow> (errno + ptr) kop" where
  "mmap_file env prot flags fd s =
     (let c = cfg env in
      bindK (fget env fd s) (\<lambda>r s.
        case r of
          None \<Rightarrow> Ret (Inl EMINUS1) s
        | Some file \<Rightarrow>
            bindK (deref (files s) file s) (\<lambda>f s.
              if has_flag flags (MAP_PRIVATE c) \<and> f_mode f AND FMODE_READ c \<noteq> FMODE_READ c
                \<or> has_flag flags (MAP_SHARED c) \<and> has_flag prot (PROT_WRITE c) \<and> f_mode f AND FMODE_WRITE c \<noteq> FMODE_WRITE c
                \<or> has_flag prot (PROT_WRITE c) \<and> f_mode f = FMODE_APPEND c
              then bindK (fput env file s) (\<lambda>_ s. Ret (Inl EMINUS1) s)
              else bindK (file_vnode file s) (\<lambda>(_, _, v) s.
                if vn_busy v then bindK (fput env file s) (\<lambda>_ s. Ret (Inl EMINUS1) s)
                else Ret (Inr file) s))))"

text \<open>\<open>do_mmap\<close> returns the address that it stores through \<open>ret\<close>.\<close>

definition do_mmap :: "kenv \<Rightarrow> u32 \<Rightarrow> u32 \<Rightarrow> u32 \<Rightarrow> u32 \<Rightarrow> int \<Rightarrow> u32 \<Rightarrow> (errno + u32) kop" where
  "do_mmap env addr len prot flags fd off s =
     (let c = cfg env; anon = has_flag flags (MAP_ANON c) in
      if has_flag flags (MAP_FIXED c) \<and> (addr < USER_MEM_LOW c \<or> addr \<ge> USER_MEM_HIGH c) then Ret (Inl EMINUS1) s
      else if \<not> PAGE_ALIGNED addr \<or> \<not> PAGE_ALIGNED off then Ret (Inl EMINUS1) s
      else if len \<le> 0 \<or> len \<ge> USER_MEM_HIGH c - USER_MEM_LOW c then Ret (Inl EMINUS1) s
      else if \<not> (has_flag flags (MAP_PRIVATE c) \<or> has_flag flags (MAP_SHARED c)) then Ret (Inl EMINUS1) s
      else if bad_fd env fd \<and> \<not> anon then Ret (Inl EMINUS1) s
      else bindK (if anon then Ret (Inr None) s
                  else bindK (mmap_file env prot flags fd s) (\<lambda>r s.
                         case r of Inl e \<Rightarrow> Ret (Inl e) s | Inr file \<Rightarrow> Ret (Inr (Some file)) s)) (\<lambda>r s.
        case r of
          Inl e \<Rightarrow> Ret (Inl e) s
        | Inr file \<Rightarrow>
            bindK (cur_proc s) (\<lambda>(_, p) s.
            case p_vmmap p of
              None \<Rightarrow> Stop KASSERT_failed
            | Some mp \<Rightarrow>
                let lopage = ADDR_TO_PN addr; hipage = ADDR_TO_PN (addr + len - 1) + 1; npages = hipage - lopage in
                bindK (case file of
                         None \<Rightarrow> Ret None s
                       | Some f \<Rightarrow> bindK (deref (files s) f s) (\<lambda>fl s. Ret (f_vnode fl) s)) (\<lambda>vn s.
                bindK (vmmap_map env mp vn lopage npages prot flags off VMMAP_DIR_HILO s) (\<lambda>retval s.
                  case retval of
                    Inl _ \<Rightarrow>
                      bindK (case file of Some f \<Rightarrow> fput env f s | None \<Rightarrow> Ret () s) (\<lambda>_ s. Ret (Inl EMINUS1) s)
                  | Inr (_, vma) \<Rightarrow>
                      bindK (deref (vmareas s) vma s) (\<lambda>a s.
                        let ret = PN_TO_ADDR (vma_start a); s = hw (TLB_FLUSH_RANGE ret npages) s in
                        bindK (case file of Some f \<Rightarrow> fput env f s | None \<Rightarrow> Ret () s) (\<lambda>_ s.
                          Ret (Inr ret) s)))))))"

definition do_munmap :: "kenv \<Rightarrow> u32 \<Rightarrow> u32 \<Rightarrow> (errno + unit) kop" where
  "do_munmap env addr len s =
     (let c = cfg env in
      if addr < USER_MEM_LOW c \<or> addr \<ge> USER_MEM_HIGH c then Ret (Inl EINVAL) s
      else if \<not> PAGE_ALIGNED addr then Ret (Inl EINVAL) s
      else if len \<le> 0 \<or> len \<ge> USER_MEM_HIGH c - USER_MEM_LOW c then Ret (Inl EINVAL) s
      else bindK (cur_proc s) (\<lambda>(_, p) s.
        case p_vmmap p of
          None \<Rightarrow> Stop BAD_POINTER
        | Some mp \<Rightarrow>
            let lopage = ADDR_TO_PN addr; hipage = ADDR_TO_PN (addr + len - 1) + 1; npages = hipage - lopage in
            bindK (vmmap_remove env mp lopage npages s) (\<lambda>retval s.
              case retval of
                Inl e \<Rightarrow> Ret (Inl e) s
              | Inr _ \<Rightarrow> Ret (Inr ()) (hw (TLB_FLUSH_RANGE addr npages) s))))"

section \<open>brk\<close>

text \<open>
  The area after \<open>prev_vma\<close> in the list. The link of the last area points back to the head of the
  list, which is the address space itself and no area: reading its \<open>vma_start\<close> reads the memory in
  front of the address space, and None stands for that.
\<close>

fun next_in_list :: "ptr \<Rightarrow> vmarea list \<Rightarrow> vmarea option" where
  "next_in_list v (a # b # rest) = (if vma_id a = v then Some b else next_in_list v (b # rest))"
| "next_in_list v _ = None"

definition set_brk :: "ptr \<Rightarrow> u32 \<Rightarrow> (errno + u32) kop" where
  "set_brk p addr s = bindK (proc_upd p (\<lambda>pr. pr\<lparr>p_brk := addr\<rparr>) s) (\<lambda>_ s. Ret (Inr addr) s)"

definition do_brk :: "kenv \<Rightarrow> u32 option \<Rightarrow> (errno + u32) kop" where
  "do_brk env addr s =
     bindK (cur_proc s) (\<lambda>(p, pr) s.
       case addr of
         None \<Rightarrow> Ret (Inr (p_brk pr)) s
       | Some a \<Rightarrow>
           (case p_vmmap pr of
              None \<Rightarrow> Stop KASSERT_failed
            | Some mp \<Rightarrow>
                let c = cfg env;
                    start_brk_vfn = ADDR_TO_PN (p_start_brk pr - 1);
                    prev_brk_vfn = ADDR_TO_PN (p_brk pr - 1);
                    target_brk_vfn = ADDR_TO_PN (a - 1) in
                bindK (load_map mp s) (\<lambda>m s.
                  let start_vma = vmmap_lookup m start_brk_vfn; prev_vma = vmmap_lookup m prev_brk_vfn in
                  case prev_vma of
                    None \<Rightarrow> Stop BAD_POINTER
                  | Some prev \<Rightarrow>
                      (case next_in_list (vma_id prev) (vmm_list m) of
                         None \<Rightarrow> Stop BAD_POINTER
                       | Some next_vma \<Rightarrow>
                           let next_addr = PN_TO_ADDR (vma_start next_vma);
                               upper = (if next_addr < USER_MEM_HIGH c then next_addr else USER_MEM_HIGH c) in
                           if a < p_start_brk pr \<or> a > upper then Ret (Inl ENOMEM) s
                           else if target_brk_vfn = prev_brk_vfn then set_brk p a s
                           else if target_brk_vfn > prev_brk_vfn
                           then if map_option vma_id start_vma = Some (vma_id prev)
                                then bindK (vmmap_map env mp None (start_brk_vfn + 1) (target_brk_vfn - start_brk_vfn)
                                        (PROT_WRITE c OR PROT_READ c) (MAP_PRIVATE c OR MAP_FIXED c) 0 VMMAP_DIR_LOHI s) (\<lambda>r s.
                                       case r of Inl _ \<Rightarrow> Stop PANIC | Inr _ \<Rightarrow> set_brk p a s)
                                else bindK (vma_upd (vma_id prev) (\<lambda>v. v\<lparr>vma_end := target_brk_vfn + 1\<rparr>) s) (\<lambda>_ s.
                                       set_brk p a s)
                           else bindK (vmmap_remove env mp (target_brk_vfn + 1) (prev_brk_vfn - target_brk_vfn) s) (\<lambda>_ s.
                                  set_brk p a s)))))"

section \<open>What munmap does\<close>

lemma page_span:
  fixes addr len :: u32
  assumes "0 < len" and "unat addr + unat len \<le> 2 ^ 32"
  defines "lo \<equiv> ADDR_TO_PN addr" and "hi \<equiv> ADDR_TO_PN (addr + len - 1) + 1"
  shows "unat hi = (unat addr + unat len - 1) div 4096 + 1" "unat lo < unat hi" "unat lo + unat (hi - lo) < 2 ^ 32" "lo + (hi - lo) = hi"
    "0 < hi - lo"
proof -
  have l: "unat (ADDR_TO_PN (addr + len - 1)) = (unat addr + unat len - 1) div 4096"
    by (simp add: unat_ADDR_TO_PN unat_last [OF assms(1,2)])
  have "unat (ADDR_TO_PN (addr + len - 1)) < 2 ^ 20" by (rule unat_ADDR_TO_PN_less)
  then show hi: "unat hi = (unat addr + unat len - 1) div 4096 + 1"
    unfolding hi_def using l by (simp add: unat_word_ariths)
  have "0 < unat len" using assms(1) by (simp add: word_less_nat_alt)
  then have "unat addr div 4096 \<le> (unat addr + unat len - 1) div 4096" by (intro div_le_mono) simp
  then show lt: "unat lo < unat hi" using hi by (simp add: lo_def unat_ADDR_TO_PN)
  then have d: "unat (hi - lo) = unat hi - unat lo" by (intro unat_diff_ge) simp
  have "unat hi < 2 ^ 32" using unsigned_less [of hi, where ?'a = nat] by simp
  then show "unat lo + unat (hi - lo) < 2 ^ 32" using d lt by simp
  show "lo + (hi - lo) = hi" by simp
  show "0 < hi - lo" using d lt by (simp add: word_less_nat_alt)
qed

text \<open>
  \<open>do_munmap\<close> with valid arguments unmaps every byte of the range. Afterwards no address of the range is mapped, every page
  that no address of the range is on stays mapped as it was, the areas stay ordered and disjoint, and the last thing it does
  is to flush the range from the translation buffer.
\<close>

theorem do_munmap_unmaps:
  assumes cur: "curproc s = Some p" "procs s p = Some pr" "p_vmmap pr = Some mp"
    and map: "holds_map s mp vs q" "vmas_ok (cfg env) vs"
      "\<forall>a\<in>set vs. removable env (ADDR_TO_PN addr) (ADDR_TO_PN (addr + len - 1) + 1) (length vs) s a"
      "own_shadows (ADDR_TO_PN addr) (ADDR_TO_PN (addr + len - 1) + 1) s vs"
    and env: "1 < chain_fuel env" "allocs_fresh env"
    and args: "USER_MEM_LOW (cfg env) \<le> addr" "addr < USER_MEM_HIGH (cfg env)" "PAGE_ALIGNED addr"
      "0 < len" "len < USER_MEM_HIGH (cfg env) - USER_MEM_LOW (cfg env)" "unat addr + unat len \<le> 2 ^ 32"
  shows "\<exists>s' vs'. do_munmap env addr len s = Ret (Inr ()) s' \<and> holds_map s' mp vs' q \<and> vmas_ok (cfg env) vs'
    \<and> (\<forall>b. unat addr \<le> unat b \<and> unat b < unat addr + unat len \<longrightarrow> view vs' (ADDR_TO_PN b) = None)
    \<and> (\<forall>v. v < ADDR_TO_PN addr \<or> ADDR_TO_PN (addr + len - 1) < v \<longrightarrow> view vs' v = view vs v)
    \<and> last (hwlog s') = TLB_FLUSH_RANGE addr (ADDR_TO_PN (addr + len - 1) + 1 - ADDR_TO_PN addr)"
proof -
  let ?lo = "ADDR_TO_PN addr" and ?hi = "ADDR_TO_PN (addr + len - 1) + 1"
  note span = page_span [OF args(4,6)]
  have run: "runs s (p_pagedir pr)" using cur by (auto simp: runs_def)
  have rm: "\<forall>a\<in>set vs. removable env ?lo (?lo + (?hi - ?lo)) (length vs) s a" "own_shadows ?lo (?lo + (?hi - ?lo)) s vs"
    unfolding span(4) by (rule map(3,4))+
  obtain s1 vs' where s1: "vmmap_remove env mp ?lo (?hi - ?lo) s = Ret (Inr ()) s1" "holds_map s1 mp vs' q" "vmas_ok (cfg env) vs'"
    "view vs' = (\<lambda>v. if ?lo \<le> v \<and> v < ?hi then None else view vs v)"
    using vmmap_remove_view [OF map(1,2) run rm env span(5,3)] unfolding span(4) by blast
  let ?s = "hw (TLB_FLUSH_RANGE addr (?hi - ?lo)) s1"
  have "do_munmap env addr len s = Ret (Inr ()) ?s"
    using cur args s1(1) by (simp add: do_munmap_def cur_proc_def Let_def not_less not_le)
  moreover have "view vs' (ADDR_TO_PN b) = None" if "unat addr \<le> unat b" "unat b < unat addr + unat len" for b
  proof -
    have "unat (ADDR_TO_PN b) < unat ?hi" using that(2) span(1) by (simp add: unat_ADDR_TO_PN div_le_mono less_Suc_eq_le)
    moreover have "unat ?lo \<le> unat (ADDR_TO_PN b)" using that(1) by (simp add: unat_ADDR_TO_PN div_le_mono)
    ultimately show ?thesis unfolding s1(4) by (simp add: word_le_nat_alt word_less_nat_alt)
  qed
  moreover have "view vs' v = view vs v" if "v < ?lo \<or> ADDR_TO_PN (addr + len - 1) < v" for v
  proof -
    have "\<not> (?lo \<le> v \<and> v < ?hi)" using that span(1) unat_last [OF args(4,6)]
      by (auto simp: word_le_nat_alt word_less_nat_alt unat_ADDR_TO_PN)
    then show ?thesis unfolding s1(4) by (rule if_not_P)
  qed
  ultimately show ?thesis using s1(2,3) by (intro exI [of _ ?s] exI [of _ vs']) simp
qed

theorem do_munmap_unmaps_witness:
  "\<exists>s' vs'. do_munmap example_env 0x404000 0x3001 wide_space = Ret (Inr ()) s' \<and> holds_map s' 1 vs' (Some 1)
    \<and> view vs' (ADDR_TO_PN 0x407000) = None \<and> view vs' 0x408 = view [wide_area] 0x408
    \<and> last (hwlog s') = TLB_FLUSH_RANGE 0x404000 4"
proof -
  have sel: "cfg example_env = example_cfg" "1 < chain_fuel example_env" "vmarea_slab example_env = first_free"
    by (simp_all add: example_env_def)
  have pn: "ADDR_TO_PN 0x404000 = 0x404" "ADDR_TO_PN (0x404000 + 0x3001 - 1) = 0x407" by (simp_all add: ADDR_TO_PN_def)
  have h: "holds_map wide_space 1 [wide_area] (Some 1)" by (simp add: holds_map_def wide_space_simps)
  have v: "vmas_ok (cfg example_env) [wide_area]" by (simp add: sel vmas_ok_def vma_ok_def wide_area_def example_area_def)
  have l: "\<forall>a\<in>set [wide_area]. removable example_env (ADDR_TO_PN 0x404000) (ADDR_TO_PN (0x404000 + 0x3001 - 1) + 1)
      (length [wide_area]) wide_space a"
    unfolding pn by (simp add: removable_def sel has_flag_def example_cfg_def first_free_def wide_space_simps)
  have sp: "own_shadows (ADDR_TO_PN 0x404000) (ADDR_TO_PN (0x404000 + 0x3001 - 1) + 1) wide_space [wide_area]"
    by (simp add: own_shadows_def)
  have cur: "curproc wide_space = Some 1" "procs wide_space 1 = Some example_proc" "p_vmmap example_proc = Some 1"
    by (simp_all add: wide_space_simps)
  from do_munmap_unmaps [OF cur h v l sp sel(2) example_env_fresh]
  obtain s' vs' where s': "do_munmap example_env 0x404000 0x3001 wide_space = Ret (Inr ()) s'" "holds_map s' 1 vs' (Some 1)"
    and un: "\<forall>b. unat (0x404000 :: u32) \<le> unat b \<and> unat b < unat (0x404000 :: u32) + unat (0x3001 :: u32) \<longrightarrow> view vs' (ADDR_TO_PN b) = None"
    and kept: "\<forall>v. v < ADDR_TO_PN 0x404000 \<or> ADDR_TO_PN (0x404000 + 0x3001 - 1) < v \<longrightarrow> view vs' v = view [wide_area] v"
    and last: "last (hwlog s') = TLB_FLUSH_RANGE 0x404000 (ADDR_TO_PN (0x404000 + 0x3001 - 1) + 1 - ADDR_TO_PN 0x404000)"
    by (auto simp: sel example_cfg_def PAGE_ALIGNED_def PAGE_OFFSET_def)
  have "view vs' (ADDR_TO_PN 0x407000) = None" by (rule mp [OF spec [OF un]]) simp
  moreover have "view vs' 0x408 = view [wide_area] 0x408" by (rule mp [OF spec [OF kept]]) (simp add: ADDR_TO_PN_def)
  ultimately show ?thesis using s' last unfolding pn by (intro exI [of _ s'] exI [of _ vs']) simp
qed

end
