(* ===== verification/Proc.thy ===== *)
theory Proc
  imports Mmap
begin

text \<open>
  Kernel threads and processes: \<open>src/kernel/proc/kthread.c\<close> and \<open>src/kernel/proc/proc.c\<close>, and the
  start and end of the pageout daemon (\<open>src/kernel/mm/pframe.c\<close>). Memory from the slab allocators
  holds what \<open>slab_proc\<close> and \<open>slab_kthread\<close> say in the fields that the code does not set. The links
  \<open>kt_plink\<close>, \<open>p_child_link\<close> and \<open>p_list_link\<close> are the positions in \<open>p_threads\<close>, \<open>p_children\<close> and
  \<open>all_procs\<close>. A thread that exits leaves by \<open>sched_switch\<close>: the context switch does not come back.
\<close>

section \<open>Threads\<close>

definition kthread_create :: "kenv \<Rightarrow> ptr \<Rightarrow> nat \<Rightarrow> u32 \<Rightarrow> u32 \<Rightarrow> ptr kop" where
  "kthread_create env p func arg1 arg2 s =
     (case kthread_slab env s of
        None \<Rightarrow> Stop BAD_POINTER
      | Some newThr \<Rightarrow>
          let kstack = stack_alloc env s;
              s = s\<lparr>threads := (threads s)(newThr \<mapsto> (slab_kthread env newThr)\<lparr>kt_kstack := kstack, kt_retval := 0,
                    kt_errno := 0, kt_proc := Some p, kt_cancelled := False, kt_wchan := None,
                    kt_state := KT_NO_STATE, kt_qlink := None\<rparr>)\<rparr>
          in bindK (proc_upd p (\<lambda>pr. pr\<lparr>p_threads := p_threads pr @ [newThr]\<rparr>) s) (\<lambda>_ s.
             bindK (deref (procs s) p s) (\<lambda>pr s.
             bindK (thr_update newThr (\<lambda>t. t\<lparr>kt_ctx := context_setup env func arg1 arg2 kstack (p_pagedir pr)\<rparr>) s) (\<lambda>_ s.
               Ret newThr s))))"

text \<open>Unlinking \<open>kt_plink\<close> takes the thread from the list of its process.\<close>

definition kthread_destroy :: "ptr \<Rightarrow> unit kop" where
  "kthread_destroy t s =
     bindK (deref (threads s) t s) (\<lambda>th s.
       case kt_kstack th of
         None \<Rightarrow> Stop KASSERT_failed
       | Some kstack \<Rightarrow>
           let s = hw (PAGE_FREE_N kstack) s;
               s = s\<lparr>procs := (\<lambda>p. map_option (\<lambda>pr. pr\<lparr>p_threads := remove1 t (p_threads pr)\<rparr>) (procs s p))\<rparr>
           in Ret () (s\<lparr>threads := (threads s)(t := None)\<rparr>))"

section \<open>The end of a process\<close>

primrec close_files :: "kenv \<Rightarrow> nat list \<Rightarrow> unit kop" where
  "close_files env [] s = Ret () s"
| "close_files env (fd # fds) s =
     bindK (cur_proc s) (\<lambda>(_, pr) s.
     bindK (if p_files pr ! fd \<noteq> None then bindK (do_close env (int fd) s) (\<lambda>_ s. Ret () s) else Ret () s) (\<lambda>_ s.
       close_files env fds s))"

primrec reparent :: "ptr \<Rightarrow> ptr \<Rightarrow> ptr list \<Rightarrow> unit kop" where
  "reparent cur init [] s = Ret () s"
| "reparent cur init (child # rest) s =
     bindK (proc_upd child (\<lambda>pr. pr\<lparr>p_pproc := Some init\<rparr>) s) (\<lambda>_ s.
     bindK (proc_upd cur (\<lambda>pr. pr\<lparr>p_children := remove1 child (p_children pr)\<rparr>) s) (\<lambda>_ s.
     bindK (proc_upd init (\<lambda>pr. pr\<lparr>p_children := p_children pr @ [child]\<rparr>) s) (\<lambda>_ s.
       reparent cur init rest s)))"

definition proc_cleanup :: "kenv \<Rightarrow> u32 \<Rightarrow> unit kop" where
  "proc_cleanup env status s =
     (case proc_initproc s of
        None \<Rightarrow> Stop KASSERT_failed
      | Some init \<Rightarrow>
          bindK (cur_proc s) (\<lambda>(p, pr) s.
          bindK (kassert (1 \<le> p_pid pr) s) (\<lambda>_ s.
          bindK (kassert (p_pproc pr \<noteq> None) s) (\<lambda>_ s.
          bindK (close_files env [0..<NFILES (cfg env)] s) (\<lambda>_ s.
          bindK (cur_proc s) (\<lambda>(p, pr) s.
          bindK (case p_cwd pr of
                   None \<Rightarrow> Ret () s
                 | Some cwd \<Rightarrow>
                     bindK (vnode_put env cwd s) (\<lambda>_ s. proc_upd p (\<lambda>pr. pr\<lparr>p_cwd := None\<rparr>) s)) (\<lambda>_ s.
          bindK (case p_vmmap pr of None \<Rightarrow> Ret () s | Some mp \<Rightarrow> vmmap_destroy env mp s) (\<lambda>_ s.
          bindK (cur_proc s) (\<lambda>(p, pr) s.
            case p_pproc pr of
              None \<Rightarrow> Stop KASSERT_failed
            | Some parent \<Rightarrow>
                bindK (if \<not> sched_queue_empty (PWAITQ parent) s
                       then bindK (sched_wakeup_on (PWAITQ parent) s) (\<lambda>_ s. Ret () s) else Ret () s) (\<lambda>_ s.
                bindK (if p \<noteq> init then reparent p init (p_children pr) s else Ret () s) (\<lambda>_ s.
                  proc_upd p (\<lambda>pr. pr\<lparr>p_status := status, p_state := PROC_DEAD\<rparr>) s)))))))))))"

definition proc_thread_exited :: "kenv \<Rightarrow> u32 \<Rightarrow> unit kop" where
  "proc_thread_exited env retval s = bindK (proc_cleanup env retval s) (\<lambda>_ s. sched_switch (senv env) s)"

definition kthread_exit :: "kenv \<Rightarrow> u32 \<Rightarrow> unit kop" where
  "kthread_exit env retval s =
     (case curthr s of
        None \<Rightarrow> Stop BAD_POINTER
      | Some t \<Rightarrow>
          bindK (deref (threads s) t s) (\<lambda>th s.
          bindK (kassert (kt_wchan th = None) s) (\<lambda>_ s.
          bindK (kassert (kt_qlink th = None) s) (\<lambda>_ s.
          bindK (kassert (kt_proc th = curproc s) s) (\<lambda>_ s.
          bindK (thr_update t (\<lambda>th. th\<lparr>kt_retval := retval, kt_state := KT_EXITED\<rparr>) s) (\<lambda>_ s.
            proc_thread_exited env retval s))))))"

definition kthread_cancel :: "kenv \<Rightarrow> ptr \<Rightarrow> u32 \<Rightarrow> unit kop" where
  "kthread_cancel env kthr retval s =
     (if Some kthr = curthr s then kthread_exit env retval s
      else bindK (thr_update kthr (\<lambda>t. t\<lparr>kt_cancelled := True, kt_retval := retval\<rparr>) s) (\<lambda>_ s.
           bindK (deref (threads s) kthr s) (\<lambda>t s.
             if kt_state t = KT_SLEEP_CANCELLABLE then sched_cancel kthr s else Ret () s)))"

primrec cancel_threads :: "kenv \<Rightarrow> u32 \<Rightarrow> ptr list \<Rightarrow> unit kop" where
  "cancel_threads env status [] s = Ret () s"
| "cancel_threads env status (t # ts) s =
     bindK (kthread_cancel env t status s) (\<lambda>_ s. cancel_threads env status ts s)"

definition do_exit :: "kenv \<Rightarrow> u32 \<Rightarrow> unit kop" where
  "do_exit env status s =
     bindK (cur_proc s) (\<lambda>(_, pr) s.
     bindK (cancel_threads env status (filter (\<lambda>t. Some t \<noteq> curthr s) (p_threads pr)) s) (\<lambda>_ s.
       kthread_exit env status s))"

definition proc_kill :: "kenv \<Rightarrow> ptr \<Rightarrow> u32 \<Rightarrow> unit kop" where
  "proc_kill env p status s =
     (if Some p \<noteq> curproc s
      then bindK (deref (procs s) p s) (\<lambda>pr s. cancel_threads env status (p_threads pr) s)
      else do_exit env status s)"

text \<open>The parent of a process, which the test of \<open>proc_kill_all\<close> follows without a check.\<close>

definition parent_pid :: "ptr \<Rightarrow> int kop" where
  "parent_pid p s =
     bindK (deref (procs s) p s) (\<lambda>pr s.
       case p_pproc pr of
         None \<Rightarrow> Stop BAD_POINTER
       | Some q \<Rightarrow> bindK (deref (procs s) q s) (\<lambda>pq s. Ret (p_pid pq) s))"

primrec kill_procs :: "kenv \<Rightarrow> ptr list \<Rightarrow> unit kop" where
  "kill_procs env [] s = Ret () s"
| "kill_procs env (p # ps) s =
     bindK (deref (procs s) p s) (\<lambda>pr s.
     bindK (if Some p \<noteq> curproc s \<and> p_pid pr \<noteq> PID_IDLE (cfg env)
            then bindK (parent_pid p s) (\<lambda>ppid s.
                   if ppid \<noteq> PID_IDLE (cfg env) then proc_kill env p (p_status pr) s else Ret () s)
            else Ret () s) (\<lambda>_ s.
       kill_procs env ps s))"

definition proc_kill_all :: "kenv \<Rightarrow> unit kop" where
  "proc_kill_all env s =
     bindK (kill_procs env (all_procs s) s) (\<lambda>_ s.
     bindK (cur_proc s) (\<lambda>(p, pr) s.
     bindK (parent_pid p s) (\<lambda>ppid s.
       if ppid \<noteq> PID_IDLE (cfg env) then proc_kill env p (p_status pr) s else Ret () s)))"

section \<open>The beginning of a process\<close>

text \<open>
  The search of \<open>_proc_getid\<close>: every number is tried at most once before the search is back at
  \<open>next_pid\<close>, so \<open>PROC_MAX_COUNT\<close> turns are enough.
\<close>

primrec pid_used :: "int \<Rightarrow> ptr list \<Rightarrow> bool kop" where
  "pid_used pid [] s = Ret False s"
| "pid_used pid (p # ps) s =
     bindK (deref (procs s) p s) (\<lambda>pr s. if p_pid pr = pid then Ret True s else pid_used pid ps s)"

interpretation pid_scan: heap_scan procs "\<lambda>pr. p_pid pr = pid" "\<lambda>_ _. True" False "pid_used pid"
  by unfold_locales simp_all

primrec getid_loop :: "nat \<Rightarrow> kenv \<Rightarrow> int \<Rightarrow> int kop" where
  "getid_loop 0 env pid s = Stop OUT_OF_FUEL"
| "getid_loop (Suc n) env pid s =
     bindK (pid_used pid (all_procs s) s) (\<lambda>used s.
       if used
       then let pid = (pid + 1) mod int (PROC_MAX_COUNT (cfg env)) in
            if pid = next_pid s then Ret (-1) s else getid_loop n env pid s
       else Ret pid (s\<lparr>next_pid := (pid + 1) mod int (PROC_MAX_COUNT (cfg env))\<rparr>))"

definition proc_getid :: "kenv \<Rightarrow> int kop" where
  "proc_getid env s = getid_loop (PROC_MAX_COUNT (cfg env)) env (next_pid s) s"

definition proc_create :: "kenv \<Rightarrow> string \<Rightarrow> ptr option kop" where
  "proc_create env name s =
     (let c = cfg env in
      case proc_slab env (procs s) of
        None \<Rightarrow> Stop BAD_POINTER
      | Some newProc \<Rightarrow>
          bindK (proc_getid env s) (\<lambda>pid s.
          bindK (kassert (PID_IDLE c \<noteq> pid \<or> all_procs s = []) s) (\<lambda>_ s.
          bindK (if PID_INIT c \<noteq> pid then Ret () s
                 else bindK (cur_proc s) (\<lambda>(_, cur) s. kassert (PID_IDLE c = p_pid cur) s)) (\<lambda>_ s.
            let s = (if pid = PID_INIT c then s\<lparr>proc_initproc := Some newProc\<rparr> else s);
                s = s\<lparr>procs := (procs s)(newProc \<mapsto> (slab_proc env newProc)\<lparr>p_pid := pid,
                       p_comm := take (PROC_NAME_LEN c) name, p_threads := [], p_children := [],
                       p_pproc := (if pid \<noteq> PID_IDLE c then curproc s else None), p_status := 0,
                       p_state := PROC_RUNNING, p_pagedir := pt_create_pagedir env s,
                       p_files := replicate (NFILES c) None\<rparr>)\<rparr>;
                s = sched_queue_init (PWAITQ newProc) s;
                s = s\<lparr>all_procs := all_procs s @ [newProc]\<rparr>
            in bindK (if pid \<noteq> PID_IDLE c
                      then bindK (cur_proc s) (\<lambda>(cur, _) s.
                             proc_upd cur (\<lambda>pr. pr\<lparr>p_children := p_children pr @ [newProc]\<rparr>) s)
                      else Ret () s) (\<lambda>_ s.
               bindK (if pid = PID_IDLE c then Ret (vfs_root_vn s) s
                      else bindK (cur_proc s) (\<lambda>(_, cur) s. Ret (p_cwd cur) s)) (\<lambda>cwd s.
               bindK (proc_upd newProc (\<lambda>pr. pr\<lparr>p_cwd := cwd\<rparr>) s) (\<lambda>_ s.
               bindK (case cwd of
                        None \<Rightarrow> Ret () s
                      | Some v \<Rightarrow> if pid \<noteq> PID_IDLE c \<and> pid \<noteq> PID_INIT c then vref v s else Ret () s) (\<lambda>_ s.
               bindK (vmmap_create env s) (\<lambda>r s.
                 case r of
                   None \<Rightarrow> Ret None (s\<lparr>procs := (procs s)(newProc := None)\<rparr>)
                 | Some mp \<Rightarrow>
                     bindK (proc_upd newProc (\<lambda>pr. pr\<lparr>p_vmmap := Some mp\<rparr>) s) (\<lambda>_ s.
                     bindK (deref (vmmaps s) mp s) (\<lambda>m s.
                       Ret (Some newProc) (s\<lparr>vmmaps := (vmmaps s)(mp \<mapsto> m\<lparr>vmn_proc := Some newProc\<rparr>)\<rparr>)))))))))))) "

primrec find_proc :: "int \<Rightarrow> ptr list \<Rightarrow> ptr option kop" where
  "find_proc pid [] s = Ret None s"
| "find_proc pid (p # ps) s =
     bindK (deref (procs s) p s) (\<lambda>pr s. if p_pid pr = pid then Ret (Some p) s else find_proc pid ps s)"

interpretation proc_scan: heap_scan procs "\<lambda>pr. p_pid pr = pid" "\<lambda>p _. Some p" None "find_proc pid"
  by unfold_locales simp_all

definition proc_lookup :: "int \<Rightarrow> ptr option kop" where
  "proc_lookup pid s = find_proc pid (all_procs s) s"

section \<open>Waiting for a child\<close>

primrec destroy_threads :: "ptr list \<Rightarrow> unit kop" where
  "destroy_threads [] s = Ret () s"
| "destroy_threads (t # ts) s =
     bindK (deref (threads s) t s) (\<lambda>th s.
     bindK (kassert (kt_state th = KT_EXITED) s) (\<lambda>_ s.
     bindK (kthread_destroy t s) (\<lambda>_ s.
       destroy_threads ts s)))"

definition dispose_child :: "ptr \<Rightarrow> ptr \<Rightarrow> (int \<times> u32) kop" where
  "dispose_child cur child s =
     bindK (deref (procs s) child s) (\<lambda>ch s.
     bindK (destroy_threads (p_threads ch) s) (\<lambda>_ s.
     bindK (proc_upd cur (\<lambda>pr. pr\<lparr>p_children := remove1 child (p_children pr)\<rparr>) s) (\<lambda>_ s.
       let s = s\<lparr>all_procs := remove1 child (all_procs s)\<rparr> in
       bindK (kassert (p_pagedir ch \<noteq> NULL) s) (\<lambda>_ s.
         let s = hw (PT_DESTROY_PAGEDIR (p_pagedir ch)) s
         in Ret (p_pid ch, p_status ch) (s\<lparr>procs := (procs s)(child := None)\<rparr>)))))"

text \<open>The first child that has exited, with the given number unless that is \<open>-1\<close>.\<close>

primrec find_dead :: "int \<Rightarrow> ptr list \<Rightarrow> ptr option kop" where
  "find_dead pid [] s = Ret None s"
| "find_dead pid (c # cs) s =
     bindK (deref (procs s) c s) (\<lambda>pr s.
       if (pid = -1 \<or> p_pid pr = pid) \<and> p_state pr = PROC_DEAD then Ret (Some c) s else find_dead pid cs s)"

interpretation dead_scan: heap_scan procs "\<lambda>pr. (pid = -1 \<or> p_pid pr = pid) \<and> p_state pr = PROC_DEAD"
  "\<lambda>p _. Some p" None "find_dead pid"
  by unfold_locales simp_all

primrec wait_loop :: "nat \<Rightarrow> kenv \<Rightarrow> int \<Rightarrow> (errno + (int \<times> u32)) kop" where
  "wait_loop 0 env pid s = Stop OUT_OF_FUEL"
| "wait_loop (Suc n) env pid s =
     bindK (cur_proc s) (\<lambda>(cur, pr) s.
     bindK (find_dead pid (p_children pr) s) (\<lambda>r s.
       case r of
         Some child \<Rightarrow> bindK (dispose_child cur child s) (\<lambda>x s. Ret (Inr x) s)
       | None \<Rightarrow> bindK (sched_sleep_on (senv env) (PWAITQ cur) s) (\<lambda>_ s. wait_loop n env pid s)))"

definition do_waitpid :: "nat \<Rightarrow> kenv \<Rightarrow> int \<Rightarrow> int \<Rightarrow> (errno + (int \<times> u32)) kop" where
  "do_waitpid n env pid options s =
     bindK (kassert (pid = -1 \<or> pid > 0) s) (\<lambda>_ s.
     bindK (kassert (options = 0) s) (\<lambda>_ s.
     bindK (cur_proc s) (\<lambda>(cur, pr) s.
       if p_children pr = [] then Ret (Inl ECHILD) s
       else if pid = -1 then wait_loop n env pid s
       else bindK (find_proc pid (p_children pr) s) (\<lambda>r s.
              if r = None then Ret (Inl ECHILD) s else wait_loop n env pid s))))"

section \<open>The pageout daemon\<close>

definition pageoutd_init :: "kenv \<Rightarrow> nat \<Rightarrow> (ptr \<times> ptr) kop" where
  "pageoutd_init env run s =
     bindK (cur_proc (sched_queue_init PAGEOUTDQ s)) (\<lambda>(_, pr) s.
     bindK (kassert (PID_IDLE (cfg env) = p_pid pr) s) (\<lambda>_ s.
     bindK (proc_create env ''pageoutd'' s) (\<lambda>r s.
       case r of
         None \<Rightarrow> Stop KASSERT_failed
       | Some pageoutd \<Rightarrow>
           bindK (kthread_create env pageoutd run 0 0 s) (\<lambda>thr s.
           bindK (sched_make_runnable thr s) (\<lambda>_ s.
             Ret (pageoutd, thr) s)))))"

definition pageoutd_exit :: "kenv \<Rightarrow> ptr option \<Rightarrow> unit kop" where
  "pageoutd_exit env pageoutd_thr s =
     (case pageoutd_thr of
        None \<Rightarrow> Stop KASSERT_failed
      | Some t \<Rightarrow> kthread_cancel env t 0 s)"

primrec shutdown_pages :: "kenv \<Rightarrow> ptr list \<Rightarrow> unit kop" where
  "shutdown_pages env [] s = Ret () s"
| "shutdown_pages env (pf # pfs) s =
     bindK (deref (pframes s) pf s) (\<lambda>f s.
     bindK (kassert (\<not> pf_dirty f) s) (\<lambda>_ s.
     bindK (kassert (\<not> pf_busy f) s) (\<lambda>_ s.
     bindK (kassert (\<not> pframe_is_pinned f) s) (\<lambda>_ s.
     bindK (pframe_free (mmo_put (chain_fuel env) env) pf s) (\<lambda>_ s.
       shutdown_pages env pfs s)))))"

definition pframe_shutdown :: "nat \<Rightarrow> kenv \<Rightarrow> ptr \<Rightarrow> ptr option \<Rightarrow> unit kop" where
  "pframe_shutdown n env pageoutd pageoutd_thr s =
     bindK (cur_proc s) (\<lambda>(_, pr) s.
     bindK (kassert (PID_IDLE (cfg env) = p_pid pr) s) (\<lambda>_ s.
     bindK (pageoutd_exit env pageoutd_thr s) (\<lambda>_ s.
     bindK (deref (procs s) pageoutd s) (\<lambda>pd s.
     bindK (do_waitpid n env (-1) 0 s) (\<lambda>child s.
     bindK (kassert (case child of Inr (pid, _) \<Rightarrow> p_pid pd = pid | Inl e \<Rightarrow> False) s) (\<lambda>_ s.
     bindK (kassert (npinned s = 0) s) (\<lambda>_ s.
     bindK (pframe_clean_all n env s) (\<lambda>_ s.
       shutdown_pages env (alloc_list s) s))))))))"

section \<open>Process numbers\<close>

text \<open>The numbers in use.\<close>

definition pids :: "kstate \<Rightarrow> int set" where
  "pids s = {p_pid pr |p pr. p \<in> set (all_procs s) \<and> procs s p = Some pr}"

definition procs_listed :: "kstate \<Rightarrow> bool" where
  "procs_listed s \<longleftrightarrow> (\<forall>p\<in>set (all_procs s). procs s p \<noteq> None)"

lemma pid_used_eq: "procs_listed s \<Longrightarrow> pid_used pid (all_procs s) s = Ret (pid \<in> pids s) s"
proof -
  assume l: "procs_listed s"
  have "(find (\<lambda>p. p_pid (the (procs s p)) = pid) (all_procs s) \<noteq> None) = (pid \<in> pids s)"
    using l unfolding pids_def procs_listed_def by (force simp: find_None_iff)
  then show ?thesis using l pid_scan.scan_find [of "all_procs s" s pid] unfolding procs_listed_def
    by (auto split: option.splits)
qed

lemma mod_shift_eq:
  fixes a :: int
  assumes "0 \<le> a" "a < int m" "0 < k" "k \<le> m"
  shows "(a + int k) mod int m = a \<longleftrightarrow> k = m"
proof
  assume "(a + int k) mod int m = a"
  then have "(a + int k) mod int m = a mod int m" using assms by simp
  then have "int m dvd int k" by (simp add: mod_eq_dvd_iff)
  then show "k = m" using assms by (simp add: dvd_imp_le le_antisym)
qed (use assms in simp)

lemma getid_loop_spec:
  assumes l: "procs_listed s" and m: "m = PROC_MAX_COUNT (cfg env)" and a: "0 \<le> next_pid s" "next_pid s < int m"
    and n: "n + k = m" "0 < n" and used: "\<forall>i<k. (next_pid s + int i) mod int m \<in> pids s"
  shows "(getid_loop n env ((next_pid s + int k) mod int m) s = Ret (-1) s
      \<and> (\<forall>i<m. (next_pid s + int i) mod int m \<in> pids s))
    \<or> (\<exists>j<m. (next_pid s + int j) mod int m \<notin> pids s \<and> (\<forall>i<j. (next_pid s + int i) mod int m \<in> pids s)
      \<and> getid_loop n env ((next_pid s + int k) mod int m) s = Ret ((next_pid s + int j) mod int m)
          (s\<lparr>next_pid := (next_pid s + int j + 1) mod int m\<rparr>))"
  using n used
proof (induction n arbitrary: k)
  case (Suc n)
  let ?pid = "(next_pid s + int k) mod int m"
  note eq = pid_used_eq [OF l, of ?pid]
  show ?case
  proof (cases "?pid \<in> pids s")
    case False
    have "(?pid + 1) mod int m = (next_pid s + int k + 1) mod int m" by (simp add: mod_simps)
    moreover have "k < m" using Suc.prems(1) by simp
    ultimately show ?thesis using False eq Suc.prems(3) by (intro disjI2 exI [of _ k]) (simp add: m)
  next
    case True
    have nx: "(?pid + 1) mod int m = (next_pid s + int (Suc k)) mod int m" by (simp add: mod_simps ac_simps)
    have u: "\<forall>i<Suc k. (next_pid s + int i) mod int m \<in> pids s" using Suc.prems(3) True by (auto simp: less_Suc_eq)
    show ?thesis
    proof (cases "n = 0")
      case True': True
      then have sk: "Suc k = m" using Suc.prems(1) by simp
      then have "(next_pid s + int (Suc k)) mod int m = next_pid s"
        by (intro mod_shift_eq [OF a, THEN iffD2]) simp_all
      then have "getid_loop (Suc n) env ?pid s = Ret (-1) s" using True eq nx m by (simp del: of_nat_Suc)
      then show ?thesis using u unfolding sk by blast
    next
      case False
      then have "(next_pid s + int (Suc k)) mod int m \<noteq> next_pid s"
        using mod_shift_eq [OF a, of "Suc k"] Suc.prems(1) by simp
      then have "getid_loop (Suc n) env ?pid s = getid_loop n env ((next_pid s + int (Suc k)) mod int m) s"
        using True eq nx m by (simp del: of_nat_Suc)
      then show ?thesis using Suc.IH [of "Suc k"] Suc.prems(1) False u by simp
    qed
  qed
qed simp

lemma proc_getid_cases:
  assumes l: "procs_listed s" and a: "0 \<le> next_pid s" "next_pid s < int (PROC_MAX_COUNT (cfg env))"
  shows "(proc_getid env s = Ret (-1) s \<and> {0..<int (PROC_MAX_COUNT (cfg env))} \<subseteq> pids s)
    \<or> (\<exists>j<PROC_MAX_COUNT (cfg env). \<exists>pid. pid = (next_pid s + int j) mod int (PROC_MAX_COUNT (cfg env)) \<and> pid \<notin> pids s
      \<and> (\<forall>i<j. (next_pid s + int i) mod int (PROC_MAX_COUNT (cfg env)) \<in> pids s)
      \<and> proc_getid env s = Ret pid (s\<lparr>next_pid := (pid + 1) mod int (PROC_MAX_COUNT (cfg env))\<rparr>))"
proof -
  define m where "m = PROC_MAX_COUNT (cfg env)"
  have m: "0 < m" using a unfolding m_def by linarith
  have g: "proc_getid env s = getid_loop m env ((next_pid s + int 0) mod int m) s"
    using a by (simp add: proc_getid_def m_def)
  have all: "{0..<int m} \<subseteq> pids s" if u: "\<forall>i<m. (next_pid s + int i) mod int m \<in> pids s"
  proof
    fix x assume x: "x \<in> {0..<int m}"
    define i where "i = nat ((x - next_pid s) mod int m)"
    have i: "int i = (x - next_pid s) mod int m" using m by (simp add: i_def)
    then have "i < m" using m by (metis of_nat_0_less_iff of_nat_less_iff pos_mod_bound)
    moreover have "(next_pid s + int i) mod int m = x" unfolding i using x by (simp add: mod_simps)
    ultimately show "x \<in> pids s" using u by metis
  qed
  have "(next_pid s + int j + 1) mod int m = ((next_pid s + int j) mod int m + 1) mod int m" for j
    by (simp add: mod_simps)
  then show ?thesis using getid_loop_spec [OF l m_def a [folded m_def], of m 0] m all
    unfolding g m_def [symmetric] by auto
qed

text \<open>
  C32: \<open>_proc_getid\<close> always returns. It gives the first number in cyclic order from \<open>next_pid\<close> on that
  no process has, and moves \<open>next_pid\<close> behind it; it gives \<open>-1\<close>, which its caller does not check, exactly when
  all \<open>PROC_MAX_COUNT\<close> numbers are in use.
\<close>

theorem proc_getid_correct:
  assumes l: "procs_listed s" and a: "0 \<le> next_pid s" "next_pid s < int (PROC_MAX_COUNT (cfg env))"
  shows "(proc_getid env s = Ret (-1) s \<and> {0..<int (PROC_MAX_COUNT (cfg env))} \<subseteq> pids s)
    \<or> (\<exists>j<PROC_MAX_COUNT (cfg env). \<exists>pid. pid = (next_pid s + int j) mod int (PROC_MAX_COUNT (cfg env)) \<and> pid \<notin> pids s
      \<and> (\<forall>i<j. (next_pid s + int i) mod int (PROC_MAX_COUNT (cfg env)) \<in> pids s)
      \<and> proc_getid env s = Ret pid (s\<lparr>next_pid := (pid + 1) mod int (PROC_MAX_COUNT (cfg env))\<rparr>))"
  by (rule proc_getid_cases [OF assms])

definition example_procs :: kstate where
  "example_procs = (kstate0 (\<lambda>_. None))\<lparr>procs := [1 \<mapsto> example_proc, 2 \<mapsto> example_proc\<lparr>p_pid := 2\<rparr>],
     all_procs := [1, 2], next_pid := 1\<rparr>"

theorem proc_getid_correct_witness:
  "procs_listed example_procs \<and> (proc_getid example_env example_procs = Ret (-1) example_procs
      \<and> {0..<int (PROC_MAX_COUNT (cfg example_env))} \<subseteq> pids example_procs
    \<or> (\<exists>j<PROC_MAX_COUNT (cfg example_env). \<exists>pid. pid = (next_pid example_procs + int j) mod int (PROC_MAX_COUNT (cfg example_env))
      \<and> pid \<notin> pids example_procs
      \<and> proc_getid example_env example_procs
          = Ret pid (example_procs\<lparr>next_pid := (pid + 1) mod int (PROC_MAX_COUNT (cfg example_env))\<rparr>)))"
proof -
  have "procs_listed example_procs" "0 \<le> next_pid example_procs"
    "next_pid example_procs < int (PROC_MAX_COUNT (cfg example_env))"
    by (simp_all add: procs_listed_def example_procs_def example_env_def example_cfg_def)
  from this(1) proc_getid_correct [OF this] show ?thesis by blast
qed

section \<open>Reaping a child\<close>

text \<open>A thread that has exited and still has its stack, which the parent is to free.\<close>

definition exited_with :: "kstate \<Rightarrow> ptr \<Rightarrow> u32 \<Rightarrow> bool" where
  "exited_with s t stack \<longleftrightarrow> (\<exists>th. threads s t = Some th \<and> kt_state th = KT_EXITED \<and> kt_kstack th = Some stack)"

definition without_threads :: "ptr list \<Rightarrow> (ptr \<rightharpoonup> proc) \<Rightarrow> ptr \<rightharpoonup> proc" where
  "without_threads ts h = (\<lambda>p. map_option (\<lambda>pr. pr\<lparr>p_threads := fold remove1 ts (p_threads pr)\<rparr>) (h p))"

lemma destroy_threads_eq:
  assumes "distinct ts" and "list_all2 (exited_with s) ts stacks"
  shows "destroy_threads ts s = Ret () (s\<lparr>threads := (\<lambda>t. if t \<in> set ts then None else threads s t),
    procs := without_threads ts (procs s), hwlog := hwlog s @ map PAGE_FREE_N stacks\<rparr>)"
  using assms
proof (induction ts arbitrary: s stacks)
  case Nil
  then show ?case by (simp add: without_threads_def option.map_ident)
next
  case (Cons t ts)
  from Cons.prems(2) obtain st sts where sts: "stacks = st # sts" "exited_with s t st" "list_all2 (exited_with s) ts sts"
    by (auto simp: list_all2_Cons1)
  from sts(2) obtain th where th: "threads s t = Some th" "kt_state th = KT_EXITED" "kt_kstack th = Some st"
    by (auto simp: exited_with_def)
  let ?s = "s\<lparr>threads := (threads s)(t := None), procs := without_threads [t] (procs s), hwlog := hwlog s @ [PAGE_FREE_N st]\<rparr>"
  have "list_all2 (exited_with ?s) ts sts"
    by (rule list.rel_mono_strong [OF sts(3)]) (use Cons.prems(1) in \<open>auto simp: exited_with_def\<close>)
  then have "destroy_threads ts ?s = Ret () (?s\<lparr>threads := (\<lambda>x. if x \<in> set ts then None else threads ?s x),
    procs := without_threads ts (procs ?s), hwlog := hwlog ?s @ map PAGE_FREE_N sts\<rparr>)"
    using Cons.prems(1) by (intro Cons.IH) auto
  moreover have "kthread_destroy t s = Ret () ?s"
    using th by (simp add: kthread_destroy_def hw_def without_threads_def)
  ultimately have "destroy_threads (t # ts) s = Ret () (?s\<lparr>threads := (\<lambda>x. if x \<in> set ts then None else threads ?s x),
    procs := without_threads ts (procs ?s), hwlog := hwlog ?s @ map PAGE_FREE_N sts\<rparr>)"
    using th by simp
  also have "\<dots> = Ret () (s\<lparr>threads := (\<lambda>x. if x \<in> set (t # ts) then None else threads s x),
    procs := without_threads (t # ts) (procs s), hwlog := hwlog s @ map PAGE_FREE_N stacks\<rparr>)"
    by (simp add: sts(1) fun_eq_iff without_threads_def option.map_comp o_def)
  finally show ?case .
qed


lemma fold_remove1_disjoint: "set ts \<inter> set xs = {} \<Longrightarrow> fold remove1 ts xs = xs"
  by (induction ts) (auto simp: remove1_idem)

lemma without_threads_other:
  "procs s q = Some pq \<Longrightarrow> set ts \<inter> set (p_threads pq) = {} \<Longrightarrow> without_threads ts (procs s) q = Some pq"
  by (simp add: without_threads_def fold_remove1_disjoint)

text \<open>
  \<open>zombie s c ch stacks\<close>: the process \<open>c\<close> has exited and still has its page directory; its threads have exited
  too, and no other process lists them.
\<close>

definition zombie :: "kstate \<Rightarrow> ptr \<Rightarrow> proc \<Rightarrow> u32 list \<Rightarrow> bool" where
  "zombie s c ch stacks \<longleftrightarrow> procs s c = Some ch \<and> p_state ch = PROC_DEAD \<and> p_pagedir ch \<noteq> NULL \<and> distinct (p_threads ch)
     \<and> list_all2 (exited_with s) (p_threads ch) stacks
     \<and> (\<forall>q pq. q \<noteq> c \<and> procs s q = Some pq \<longrightarrow> set (p_threads ch) \<inter> set (p_threads pq) = {})"

lemma dispose_child_eq:
  assumes z: "zombie s c ch stacks" and cur: "procs s cur = Some pr" "cur \<noteq> c"
  shows "dispose_child cur c s = Ret (p_pid ch, p_status ch)
    (s\<lparr>threads := (\<lambda>t. if t \<in> set (p_threads ch) then None else threads s t),
       procs := (procs s)(c := None, cur \<mapsto> pr\<lparr>p_children := remove1 c (p_children pr)\<rparr>),
       all_procs := remove1 c (all_procs s),
       hwlog := hwlog s @ map PAGE_FREE_N stacks @ [PT_DESTROY_PAGEDIR (p_pagedir ch)]\<rparr>)"
proof -
  have d: "destroy_threads (p_threads ch) s = Ret () (s\<lparr>threads := (\<lambda>t. if t \<in> set (p_threads ch) then None else threads s t),
    procs := without_threads (p_threads ch) (procs s), hwlog := hwlog s @ map PAGE_FREE_N stacks\<rparr>)"
    using z by (intro destroy_threads_eq) (auto simp: zombie_def)
  have o: "without_threads (p_threads ch) (procs s) q = procs s q" if "q \<noteq> c" for q
  proof (cases "procs s q")
    case None
    then show ?thesis by (simp add: without_threads_def)
  next
    case (Some pq)
    then have "set (p_threads ch) \<inter> set (p_threads pq) = {}" using z that by (auto simp: zombie_def)
    then show ?thesis using without_threads_other [OF Some] Some by simp
  qed
  have "(without_threads (p_threads ch) (procs s))(cur \<mapsto> pr\<lparr>p_children := remove1 c (p_children pr)\<rparr>, c := None)
      = (procs s)(c := None, cur \<mapsto> pr\<lparr>p_children := remove1 c (p_children pr)\<rparr>)"
    using o cur(2) by (auto simp: fun_eq_iff)
  moreover have "procs s c = Some ch" "p_pagedir ch \<noteq> NULL" using z by (simp_all add: zombie_def)
  ultimately show ?thesis using d o [OF cur(2)] cur(1)
    by (simp add: dispose_child_def proc_upd_def hw_def)
qed

text \<open>
  C18: \<open>do_waitpid\<close> on a process with an exited child that it may reap returns the number and the
  exit status of the first such child, frees its threads with their stacks, its page directory and
  the process itself, and takes it off the list of children and the list of processes. Nothing
  else in the process and thread tables changes.
\<close>

theorem do_waitpid_reaps:
  assumes cur: "curproc s = Some cur" "procs s cur = Some pr" "cur \<noteq> c"
    and ch: "p_children pr = cs @ c # ds" and z: "zombie s c ch stacks"
    and pid: "pid = -1 \<or> pid > 0 \<and> pid = p_pid ch"
    and alive: "\<forall>q\<in>set cs. \<exists>x. procs s q = Some x \<and> \<not> ((pid = -1 \<or> p_pid x = pid) \<and> p_state x = PROC_DEAD)"
  shows "do_waitpid (Suc n) env pid 0 s = Ret (Inr (p_pid ch, p_status ch))
    (s\<lparr>threads := (\<lambda>t. if t \<in> set (p_threads ch) then None else threads s t),
       procs := (procs s)(c := None, cur \<mapsto> pr\<lparr>p_children := remove1 c (p_children pr)\<rparr>),
       all_procs := remove1 c (all_procs s),
       hwlog := hwlog s @ map PAGE_FREE_N stacks @ [PT_DESTROY_PAGEDIR (p_pagedir ch)]\<rparr>)"
proof -
  have c: "procs s c = Some ch" "p_state ch = PROC_DEAD" using z by (simp_all add: zombie_def)
  have cp: "cur_proc s = Ret (cur, pr) s" using cur by (simp add: cur_proc_def)
  have "find_dead pid (p_children pr) s = Ret (Some c) s" unfolding ch
    using alive c pid by (intro dead_scan.scan_hit) auto
  then have w: "wait_loop (Suc n) env pid s = bindK (dispose_child cur c s) (\<lambda>x s. Ret (Inr x) s)"
    using cp by simp
  have "\<exists>p. find_proc pid (p_children pr) s = Ret (Some p) s" if "pid = p_pid ch"
  proof -
    let ?ps = "takeWhile (\<lambda>q. p_pid (the (procs s q)) \<noteq> pid) cs"
    show ?thesis
    proof (cases "\<forall>q\<in>set cs. p_pid (the (procs s q)) \<noteq> pid")
      case True
      then have "find_proc pid (cs @ c # ds) s = Ret (Some c) s"
        using alive c that by (intro proc_scan.scan_hit) fastforce+
      then show ?thesis unfolding ch by blast
    next
      case False
      then obtain ps q qs where q: "cs = ps @ q # qs" "p_pid (the (procs s q)) = pid" "\<forall>r\<in>set ps. p_pid (the (procs s r)) \<noteq> pid"
        using split_list_first_prop [of cs "\<lambda>q. p_pid (the (procs s q)) = pid"] by blast
      then have "find_proc pid (ps @ q # (qs @ c # ds)) s = Ret (Some q) s"
        using alive by (intro proc_scan.scan_hit [where x = "the (procs s q)"]) fastforce+
      then show ?thesis unfolding ch q(1) by simp
    qed
  qed
  then show ?thesis
    using pid cp ch w dispose_child_eq [OF z cur(2,3)] by (auto simp: do_waitpid_def simp del: wait_loop.simps)
qed


text \<open>A process 1 with one exited child, process 2 with thread 3.\<close>

definition example_zombie :: kstate where
  "example_zombie = (kstate0 (\<lambda>_. None))\<lparr>
     threads := [1 \<mapsto> example_thread KT_RUN None, 3 \<mapsto> (example_thread KT_EXITED None)\<lparr>kt_kstack := Some 0xA000\<rparr>],
     procs := [1 \<mapsto> example_proc\<lparr>p_children := [2]\<rparr>,
       2 \<mapsto> example_proc\<lparr>p_pid := 2, p_threads := [3], p_status := 7, p_state := PROC_DEAD, p_pproc := Some 1\<rparr>],
     all_procs := [1, 2]\<rparr>"

theorem do_waitpid_reaps_witness:
  "do_waitpid (Suc 0) example_env (-1) 0 example_zombie = Ret (Inr (2, 7))
    (example_zombie\<lparr>threads := (\<lambda>t. if t \<in> {3} then None else threads example_zombie t),
       procs := (procs example_zombie)(2 := None, 1 \<mapsto> example_proc\<lparr>p_children := []\<rparr>),
       all_procs := remove1 2 (all_procs example_zombie),
       hwlog := hwlog example_zombie @ map PAGE_FREE_N [0xA000] @ [PT_DESTROY_PAGEDIR 1]\<rparr>)"
proof -
  let ?ch = "example_proc\<lparr>p_pid := 2, p_threads := [3], p_status := 7, p_state := PROC_DEAD, p_pproc := Some 1\<rparr>"
  let ?pr = "example_proc\<lparr>p_children := [2]\<rparr>"
  have z: "zombie example_zombie 2 ?ch [0xA000]"
    by (auto simp: zombie_def example_zombie_def exited_with_def example_thread_def example_proc_def split: if_splits)
  have "curproc example_zombie = Some 1" "procs example_zombie 1 = Some ?pr" "p_children ?pr = [] @ 2 # []"
    by (simp_all add: example_zombie_def kstate0_def)
  note w = do_waitpid_reaps [OF this(1,2) _ this(3) z, of "-1" 0 example_env]
  have "(1::ptr) \<noteq> 2" by simp
  from w [OF this] show ?thesis by (simp add: example_proc_def)
qed

section \<open>Reparenting\<close>

definition child_of :: "ptr \<Rightarrow> (ptr \<rightharpoonup> proc) \<Rightarrow> ptr set \<Rightarrow> ptr \<rightharpoonup> proc" where
  "child_of init h C = (\<lambda>p. if p \<in> C then map_option (\<lambda>pr. pr\<lparr>p_pproc := Some init\<rparr>) (h p) else h p)"

text \<open>
  When a process exits, its children become the last children of the init process, in their
  order, and init their parent; the process keeps no child, and nothing else changes.
\<close>

theorem reparent_correct:
  assumes "procs s cur = Some pc" and "procs s init = Some pi" and "cur \<noteq> init" and "p_children pc = cs"
    and "distinct cs" and "cur \<notin> set cs" and "init \<notin> set cs" and "\<forall>p\<in>set cs. procs s p \<noteq> None"
  shows "reparent cur init cs s = Ret () (s\<lparr>procs := (child_of init (procs s) (set cs))
    (cur \<mapsto> pc\<lparr>p_children := []\<rparr>, init \<mapsto> pi\<lparr>p_children := p_children pi @ cs\<rparr>)\<rparr>)"
  using assms
proof (induction cs arbitrary: s pc pi)
  case Nil
  have "pc\<lparr>p_children := []\<rparr> = pc" using Nil.prems(4) by (cases pc) simp
  moreover have "pi\<lparr>p_children := p_children pi @ []\<rparr> = pi" by (cases pi) simp
  ultimately have e: "(child_of init (procs s) (set []))(cur \<mapsto> pc\<lparr>p_children := []\<rparr>,
      init \<mapsto> pi\<lparr>p_children := p_children pi @ []\<rparr>) = procs s"
    using Nil.prems(1-3) by (auto simp: fun_eq_iff child_of_def)
  show ?case unfolding e by simp
next
  case (Cons c cs)
  obtain pch where c: "procs s c = Some pch" using Cons.prems(8) by auto
  have ne: "c \<noteq> cur" "c \<noteq> init" using Cons.prems(6,7) by auto
  let ?pc = "pc\<lparr>p_children := cs\<rparr>" and ?pi = "pi\<lparr>p_children := p_children pi @ [c]\<rparr>"
  let ?s = "s\<lparr>procs := (procs s)(c \<mapsto> pch\<lparr>p_pproc := Some init\<rparr>, cur \<mapsto> ?pc, init \<mapsto> ?pi)\<rparr>"
  have ov: "?s\<lparr>procs := h\<rparr> = s\<lparr>procs := h\<rparr>" for h by simp
  have "reparent cur init (c # cs) s = reparent cur init cs ?s"
    using c ne Cons.prems(1-4) by (simp add: proc_upd_def)
  also have "\<dots> = Ret () (?s\<lparr>procs := (child_of init (procs ?s) (set cs))
    (cur \<mapsto> ?pc\<lparr>p_children := []\<rparr>, init \<mapsto> ?pi\<lparr>p_children := p_children ?pi @ cs\<rparr>)\<rparr>)"
    using Cons.prems ne by (intro Cons.IH) auto
  also have "(child_of init (procs ?s) (set cs))(cur \<mapsto> ?pc\<lparr>p_children := []\<rparr>, init \<mapsto> ?pi\<lparr>p_children := p_children ?pi @ cs\<rparr>)
    = (child_of init (procs s) (set (c # cs)))(cur \<mapsto> pc\<lparr>p_children := []\<rparr>, init \<mapsto> pi\<lparr>p_children := p_children pi @ c # cs\<rparr>)"
    using Cons.prems(5-7) c by (auto simp: fun_eq_iff child_of_def)
  finally show ?case unfolding ov .
qed

definition example_family :: kstate where
  "example_family = (kstate0 (\<lambda>_. None))\<lparr>procs := [1 \<mapsto> example_proc, 2 \<mapsto> example_proc\<lparr>p_children := [3]\<rparr>, 3 \<mapsto> example_proc]\<rparr>"

theorem reparent_correct_witness:
  "reparent 2 1 [3] example_family = Ret () (example_family\<lparr>procs := (child_of 1 (procs example_family) (set [3]))
    (2 \<mapsto> example_proc\<lparr>p_children := []\<rparr>, 1 \<mapsto> example_proc\<lparr>p_children := [3]\<rparr>)\<rparr>)"
  using reparent_correct [of example_family 2 "example_proc\<lparr>p_children := [3]\<rparr>" 1 example_proc "[3]"]
  by (simp add: example_family_def example_proc_def)

section \<open>Creating a process\<close>

text \<open>
  The table of processes: every entry is a process, no process is listed twice, and no two have the same number.
\<close>

definition proc_table :: "kstate \<Rightarrow> bool" where
  "proc_table s \<longleftrightarrow> distinct (all_procs s) \<and> procs_listed s
     \<and> (\<forall>p\<in>set (all_procs s). \<forall>q\<in>set (all_procs s). p_pid (the (procs s p)) = p_pid (the (procs s q)) \<longrightarrow> p = q)"

lemma proc_getid_free:
  assumes "procs_listed s" and "0 \<le> next_pid s" "next_pid s < int (PROC_MAX_COUNT (cfg env))"
    and "\<not> {0..<int (PROC_MAX_COUNT (cfg env))} \<subseteq> pids s"
  obtains pid where "pid \<notin> pids s" "proc_getid env s = Ret pid (s\<lparr>next_pid := (pid + 1) mod int (PROC_MAX_COUNT (cfg env))\<rparr>)"
  using proc_getid_cases [OF assms(1-3)] assms(4) by blast

lemma pids_image: "procs_listed s \<Longrightarrow> pids s = (\<lambda>p. p_pid (the (procs s p))) ` set (all_procs s)"
  unfolding pids_def procs_listed_def by force

text \<open>The table after a process \<open>pr\<close> with a new number was added at the end, and the current process given a child.\<close>

lemma proc_table_add:
  assumes t: "proc_table s" and np: "procs s np = None" and cur: "procs s cur = Some cp" and new: "p_pid pr \<notin> pids s"
    and s': "all_procs s' = all_procs s @ [np]" "procs s' = (procs s)(cur \<mapsto> cp\<lparr>p_children := l\<rparr>, np \<mapsto> pr)"
  shows "proc_table s'" "pids s' = insert (p_pid pr) (pids s)"
proof -
  have n: "np \<notin> set (all_procs s)" "np \<noteq> cur" using t np cur by (auto simp: proc_table_def procs_listed_def)
  have old: "procs s' p = (if p = np then Some pr else if p = cur then Some (cp\<lparr>p_children := l\<rparr>) else procs s p)" for p
    using n by (simp add: s'(2))
  have pid: "p_pid (the (procs s' p)) = p_pid (the (procs s p))" "procs s' p \<noteq> None" if "p \<in> set (all_procs s)" for p
  proof -
    have "p \<noteq> np" "procs s p \<noteq> None" using that n(1) t unfolding proc_table_def procs_listed_def by blast+
    then show "p_pid (the (procs s' p)) = p_pid (the (procs s p))" "procs s' p \<noteq> None" using cur by (simp_all add: old)
  qed
  have np': "procs s' np = Some pr" by (simp add: old)
  have l: "procs_listed s" "procs_listed s'" using t pid(2) np' by (auto simp: proc_table_def procs_listed_def s'(1))
  show "pids s' = insert (p_pid pr) (pids s)" using pid(1) np' by (auto simp: pids_image [OF l(1)] pids_image [OF l(2)] s'(1))
  have "p_pid (the (procs s' p)) \<noteq> p_pid pr" if "p \<in> set (all_procs s)" for p
    using pid(1) [OF that] that new unfolding pids_image [OF l(1)] by force
  then show "proc_table s'" using t n(1) pid(1) np' l(2) unfolding proc_table_def s'(1) by force
qed

text \<open>
  C16: \<open>proc_create\<close> keeps the table of processes well formed. In a running system with a number to spare it makes a process
  with a number that no other process has, whose parent is the current process and which is the last of its
  children, with the parent's working directory, an empty address space of its own, and no open files, threads or children.
\<close>

theorem proc_create_keeps_table:
  assumes t: "proc_table s" and "0 \<le> next_pid s" "next_pid s < int (PROC_MAX_COUNT (cfg env))"
    and room: "\<not> {0..<int (PROC_MAX_COUNT (cfg env))} \<subseteq> pids s"
    and np: "proc_slab env (procs s) = Some np" "procs s np = None"
    and cur: "curproc s = Some cur" "procs s cur = Some cp"
    and first: "PID_IDLE (cfg env) \<in> pids s" "PID_INIT (cfg env) \<in> pids s"
    and cwd: "p_cwd cp = Some v" "mmobjs s v = Some m" "0 < mmo_refcount m"
    and mp: "vmmap_slab env (vmmaps s) = Some mp"
  shows "\<exists>pr s'. proc_create env name s = Ret (Some np) s' \<and> proc_table s' \<and> p_pid pr \<notin> pids s \<and> pids s' = insert (p_pid pr) (pids s)
    \<and> procs s' = (procs s)(cur \<mapsto> cp\<lparr>p_children := p_children cp @ [np]\<rparr>, np \<mapsto> pr)
    \<and> p_pproc pr = Some cur \<and> p_cwd pr = Some v \<and> p_state pr = PROC_RUNNING \<and> p_threads pr = [] \<and> p_children pr = []
    \<and> p_files pr = replicate (NFILES (cfg env)) None \<and> p_vmmap pr = Some mp
    \<and> vmmaps s' mp = Some \<lparr>vmn_list = [], vmn_proc = Some np\<rparr>"
proof -
  obtain pid where pid: "pid \<notin> pids s"
    "proc_getid env s = Ret pid (s\<lparr>next_pid := (pid + 1) mod int (PROC_MAX_COUNT (cfg env))\<rparr>)"
    using proc_getid_free [OF _ assms(2-4)] t by (auto simp: proc_table_def)
  have ne: "PID_IDLE (cfg env) \<noteq> pid" "PID_INIT (cfg env) \<noteq> pid" "np \<noteq> cur" using pid(1) first np cur by auto
  define pr where "pr = (slab_proc env np)\<lparr>p_pid := pid, p_comm := take (PROC_NAME_LEN (cfg env)) name, p_threads := [], p_children := [],
    p_pproc := Some cur, p_status := 0, p_state := PROC_RUNNING,
    p_pagedir := pt_create_pagedir env (s\<lparr>next_pid := (pid + 1) mod int (PROC_MAX_COUNT (cfg env))\<rparr>),
    p_files := replicate (NFILES (cfg env)) None, p_cwd := Some v, p_vmmap := Some mp\<rparr>"
  obtain s' where r: "proc_create env name s = Ret (Some np) s'" and s': "all_procs s' = all_procs s @ [np]"
    "procs s' = (procs s)(cur \<mapsto> cp\<lparr>p_children := p_children cp @ [np]\<rparr>, np \<mapsto> pr)" "vmmaps s' mp = Some \<lparr>vmn_list = [], vmn_proc = Some np\<rparr>"
    using assms pid ne
    by (simp add: proc_create_def Let_def cur_proc_def proc_upd_def vref_def vmmap_create_def sched_queue_init_def pr_def fun_upd_twist)
  have p: "p_pid pr = pid" by (simp add: pr_def)
  show ?thesis
    using r s' p pid(1) proc_table_add [OF t np(2) cur(2) _ s'(1,2)]
    by (intro exI [of _ pr] exI [of _ s']) (simp add: pr_def)
qed

text \<open>The idle process and the init process, which runs, in a directory.\<close>

definition two_procs :: kstate where
  "two_procs = (kstate0 [5 \<mapsto> example_anon\<lparr>mmo_ops := vnode_mmobj_ops\<rparr>])\<lparr>curproc := Some 2, all_procs := [1, 2], next_pid := 2,
     procs := [1 \<mapsto> example_proc\<lparr>p_pid := 0\<rparr>, 2 \<mapsto> example_proc\<lparr>p_cwd := Some 5\<rparr>]\<rparr>"

theorem proc_create_keeps_table_witness:
  "\<exists>pr s'. proc_create example_env ''child'' two_procs = Ret (Some 3) s' \<and> proc_table s' \<and> procs s' 3 = Some pr
    \<and> p_pproc pr = Some 2 \<and> p_cwd pr = Some 5 \<and> p_pid pr \<notin> {0, 1}"
proof -
  have c: "PROC_MAX_COUNT (cfg example_env) = 8" "PID_IDLE (cfg example_env) = 0" "PID_INIT (cfg example_env) = 1"
    "proc_slab example_env = first_free" "vmmap_slab example_env = first_free"
    by (simp_all add: example_env_def example_cfg_def)
  have t: "proc_table two_procs" by (simp add: proc_table_def procs_listed_def two_procs_def example_proc_def)
  then have l: "procs_listed two_procs" by (simp add: proc_table_def)
  have p: "pids two_procs = {0, 1}" unfolding pids_image [OF l] by (auto simp: two_procs_def example_proc_def)
  have "(2::int) \<in> {0..<8}" "(2::int) \<notin> {0, 1}" by simp_all
  then have room: "\<not> {0..<int (PROC_MAX_COUNT (cfg example_env))} \<subseteq> pids two_procs" unfolding p c of_nat_numeral by blast
  have "\<exists>pr s'. proc_create example_env ''child'' two_procs = Ret (Some 3) s' \<and> proc_table s' \<and> p_pid pr \<notin> pids two_procs
    \<and> procs s' = (procs two_procs)(2 \<mapsto> (example_proc\<lparr>p_cwd := Some 5\<rparr>)\<lparr>p_children := [] @ [3]\<rparr>, 3 \<mapsto> pr) \<and> p_pproc pr = Some 2 \<and> p_cwd pr = Some 5"
    using proc_create_keeps_table [OF t _ _ room, of 3 2 "example_proc\<lparr>p_cwd := Some 5\<rparr>" 5 "example_anon\<lparr>mmo_ops := vnode_mmobj_ops\<rparr>" 1 "''child''"]
    unfolding c p by (simp add: two_procs_def kstate0_def example_proc_def first_free_def example_anon_def) blast
  then show ?thesis unfolding p by fastforce
qed

end
