(* ===== verification/Fork.thy ===== *)
theory Fork
  imports Proc
begin

text \<open>
  \<open>src/kernel/proc/fork.c\<close>, \<open>kthread_clone\<close> of \<open>src/kernel/proc/kthread.c\<close> and the page fault handler
  of \<open>src/kernel/vm/pagefault.c\<close>: the operations that set up and use copy on write.
\<close>

section \<open>Cloning a thread\<close>

definition kthread_clone :: "kenv \<Rightarrow> ptr \<Rightarrow> ptr kop" where
  "kthread_clone env thr s =
     bindK (deref (threads s) thr s) (\<lambda>t s.
     bindK (kassert (kt_state t = KT_RUN) s) (\<lambda>_ s.
       case kthread_slab env s of
         None \<Rightarrow> Stop BAD_POINTER
       | Some newThr \<Rightarrow>
           Ret newThr (s\<lparr>threads := (threads s)(newThr \<mapsto> (slab_kthread env newThr)\<lparr>kt_kstack := stack_alloc env s,
             kt_retval := kt_retval t, kt_errno := kt_errno t, kt_proc := None, kt_cancelled := kt_cancelled t,
             kt_wchan := None, kt_state := kt_state t, kt_qlink := None\<rparr>)\<rparr>)))"

section \<open>Fork\<close>

definition fork_setup_stack :: "kenv \<Rightarrow> u32 \<Rightarrow> u32 \<Rightarrow> u32 kop" where
  "fork_setup_stack env regs kstack s =
     (let c = cfg env; esp = kstack + DEFAULT_STACK_SIZE c - (SIZEOF_REGS c + 12);
          s = store32 (esp + 4) (esp + 8) s
      in Ret esp (memcpy (esp + 8) regs (SIZEOF_REGS c) s))"

text \<open>
  A new shadow object over the object of an area, with the bottom of the chain, which the links
  of the areas go to; None when there is no memory.
\<close>

definition shadow_over :: "kenv \<Rightarrow> vmarea \<Rightarrow> (ptr \<times> ptr) option kop" where
  "shadow_over env old_vma s =
     bindK (shadow_create env s) (\<lambda>r s.
       case r of
         None \<Rightarrow> Ret None s
       | Some shadow \<Rightarrow>
           bindK (mmo_upd shadow (\<lambda>m. m\<lparr>mmo_shadowed := vma_obj old_vma\<rparr>) s) (\<lambda>_ s.
             case vma_obj old_vma of
               None \<Rightarrow> Stop BAD_POINTER
             | Some ob \<Rightarrow>
                 bindK (mmobj_bottom_obj ob s) (\<lambda>b s.
                 bindK (mmo_upd shadow (\<lambda>m. m\<lparr>mmo_un_f := mmo_bottom_obj (Some b)\<rparr>) s) (\<lambda>_ s.
                   Ret (Some (shadow, b)) s))))"

text \<open>The areas of the child: a shadow object over the parent's object, or the shared object itself.\<close>

primrec fork_child :: "kenv \<Rightarrow> ptr \<Rightarrow> ptr list \<Rightarrow> ptr list \<Rightarrow> (errno + unit) kop" where
  "fork_child env new_map [] olds s = Ret (Inr ()) s"
| "fork_child env new_map (new_vma # news) olds s =
     (case olds of
        [] \<Rightarrow> Stop BAD_POINTER
      | old_vma # olds' \<Rightarrow>
          bindK (deref (vmareas s) new_vma s) (\<lambda>n s.
          bindK (deref (vmareas s) old_vma s) (\<lambda>a s.
          bindK (if has_flag (vma_flags n) (MAP_PRIVATE (cfg env))
                 then bindK (shadow_over env a s) (\<lambda>r s.
                        case r of
                          None \<Rightarrow> bindK (vmmap_destroy env new_map s) (\<lambda>_ s. Ret (Inl EMINUS1) s)
                        | Some (shadow, b) \<Rightarrow>
                            bindK (olink_insert b new_vma s) (\<lambda>_ s.
                            bindK (vma_upd new_vma (\<lambda>n. n\<lparr>vma_obj := Some shadow\<rparr>) s) (\<lambda>_ s.
                              Ret (Inr ()) s)))
                 else if has_flag (vma_flags n) (MAP_SHARED (cfg env))
                 then bindK (vma_upd new_vma (\<lambda>n. n\<lparr>vma_obj := vma_obj a\<rparr>) s) (\<lambda>_ s. Ret (Inr ()) s)
                 else Ret (Inr ()) s) (\<lambda>r s.
            case r of
              Inl e \<Rightarrow> Ret (Inl e) s
            | Inr _ \<Rightarrow>
                (case vma_obj a of
                   None \<Rightarrow> Stop BAD_POINTER
                 | Some ob \<Rightarrow> bindK (mmo_ref ob s) (\<lambda>_ s. fork_child env new_map news olds' s))))))"

text \<open>The areas of the parent: a new shadow object over the old one for each private area.\<close>

primrec fork_parent :: "kenv \<Rightarrow> ptr \<Rightarrow> ptr list \<Rightarrow> (errno + unit) kop" where
  "fork_parent env new_map [] s = Ret (Inr ()) s"
| "fork_parent env new_map (old_vma # olds) s =
     bindK (deref (vmareas s) old_vma s) (\<lambda>a s.
       if has_flag (vma_flags a) (MAP_PRIVATE (cfg env))
       then bindK (shadow_over env a s) (\<lambda>r s.
              case r of
                None \<Rightarrow> bindK (vmmap_destroy env new_map s) (\<lambda>_ s. Ret (Inl EMINUS1) s)
              | Some (shadow, _) \<Rightarrow>
                  bindK (vma_upd old_vma (\<lambda>a. a\<lparr>vma_obj := Some shadow\<rparr>) s) (\<lambda>_ s.
                    fork_parent env new_map olds s))
       else fork_parent env new_map olds s)"

primrec copy_files :: "kenv \<Rightarrow> ptr \<Rightarrow> nat list \<Rightarrow> unit kop" where
  "copy_files env new_proc [] s = Ret () s"
| "copy_files env new_proc (i # is) s =
     bindK (cur_proc s) (\<lambda>(_, pr) s.
       case p_files pr ! i of
         None \<Rightarrow> copy_files env new_proc is s
       | Some f \<Rightarrow>
           bindK (proc_upd new_proc (\<lambda>pr. pr\<lparr>p_files := (p_files pr)[i := Some f]\<rparr>) s) (\<lambda>_ s.
           bindK (fref env f s) (\<lambda>_ s.
             copy_files env new_proc is s)))"

text \<open>The second half of \<open>do_fork\<close>: the new process and its thread.\<close>

definition fork_process :: "kenv \<Rightarrow> u32 \<Rightarrow> ptr \<Rightarrow> int kop" where
  "fork_process env regs new_map s =
     (let c = cfg env in
      bindK (proc_create env ''forked_process'' s) (\<lambda>r s.
        case r of
          None \<Rightarrow> Stop BAD_POINTER
        | Some new_proc \<Rightarrow>
            bindK (deref (procs s) new_proc s) (\<lambda>np s.
            bindK (kassert (p_state np = PROC_RUNNING) s) (\<lambda>_ s.
            bindK (kassert (p_pagedir np \<noteq> NULL) s) (\<lambda>_ s.
            bindK (case p_vmmap np of None \<Rightarrow> Stop KASSERT_failed | Some mp \<Rightarrow> vmmap_destroy env mp s) (\<lambda>_ s.
            bindK (proc_upd new_proc (\<lambda>pr. pr\<lparr>p_vmmap := Some new_map\<rparr>) s) (\<lambda>_ s.
            bindK (deref (vmmaps s) new_map s) (\<lambda>m s.
              let s = s\<lparr>vmmaps := (vmmaps s)(new_map \<mapsto> m\<lparr>vmn_proc := Some new_proc\<rparr>)\<rparr> in
              case curthr s of
                None \<Rightarrow> Stop BAD_POINTER
              | Some cur \<Rightarrow>
                  bindK (kthread_clone env cur s) (\<lambda>new_thr s.
                  bindK (deref (threads s) new_thr s) (\<lambda>nt s.
                    case kt_kstack nt of
                      None \<Rightarrow> Stop KASSERT_failed
                    | Some kstack \<Rightarrow>
                        bindK (thr_update new_thr (\<lambda>t. t\<lparr>kt_proc := Some new_proc\<rparr>) s) (\<lambda>_ s.
                        bindK (proc_upd new_proc (\<lambda>pr. pr\<lparr>p_threads := p_threads pr @ [new_thr]\<rparr>) s) (\<lambda>_ s.
                        bindK (fork_setup_stack env regs kstack (store32 (regs + R_EAX_OFFSET c) 0 s)) (\<lambda>esp s.
                        bindK (deref (threads s) cur s) (\<lambda>ct s.
                        bindK (thr_update new_thr (\<lambda>t. t\<lparr>kt_ctx := \<lparr>c_pdptr = p_pagedir np, c_eip = userland_entry env,
                                 c_esp = esp, c_kstack = kstack, c_kstacksz = c_kstacksz (kt_ctx ct)\<rparr>\<rparr>) s) (\<lambda>_ s.
                        bindK (copy_files env new_proc [0..<NFILES c] s) (\<lambda>_ s.
                        bindK (sched_make_runnable new_thr s) (\<lambda>_ s.
                        bindK (cur_proc s) (\<lambda>(_, cp) s.
                        bindK (proc_upd new_proc (\<lambda>pr. pr\<lparr>p_status := p_status cp, p_brk := p_brk cp,
                                 p_start_brk := p_start_brk cp\<rparr>) s) (\<lambda>_ s.
                          Ret (p_pid np) s)))))))))))))))))))"

definition do_fork :: "kenv \<Rightarrow> u32 option \<Rightarrow> (errno + int) kop" where
  "do_fork env regs s =
     (case regs of
        None \<Rightarrow> Stop KASSERT_failed
      | Some regs \<Rightarrow>
          (case curproc s of
             None \<Rightarrow> Stop KASSERT_failed
           | Some _ \<Rightarrow>
               bindK (cur_proc s) (\<lambda>(_, pr) s.
               bindK (kassert (p_state pr = PROC_RUNNING) s) (\<lambda>_ s.
                 case p_vmmap pr of
                   None \<Rightarrow> Stop BAD_POINTER
                 | Some old_map \<Rightarrow>
                     bindK (vmmap_clone env old_map s) (\<lambda>r s.
                       case r of
                         None \<Rightarrow> Stop BAD_POINTER
                       | Some new_map \<Rightarrow>
                           bindK (deref (vmmaps s) new_map s) (\<lambda>nm s.
                           bindK (deref (vmmaps s) old_map s) (\<lambda>om s.
                           bindK (fork_child env new_map (vmn_list nm) (vmn_list om) s) (\<lambda>r s.
                             case r of
                               Inl e \<Rightarrow> Ret (Inl e) s
                             | Inr _ \<Rightarrow>
                                 bindK (fork_parent env new_map (vmn_list om) s) (\<lambda>r s.
                                   case r of
                                     Inl e \<Rightarrow> Ret (Inl e) s
                                   | Inr _ \<Rightarrow>
                                       let s = hw (PT_UNMAP_RANGE (p_pagedir pr) (USER_MEM_LOW (cfg env))
                                                 (USER_MEM_HIGH (cfg env))) s;
                                           s = hw TLB_FLUSH_ALL s
                                       in bindK (fork_process env regs new_map s) (\<lambda>pid s.
                                            Ret (Inr pid) s))))))))))"

section \<open>Page faults\<close>

definition kill_current :: "kenv \<Rightarrow> unit kop" where
  "kill_current env s =
     bindK (cur_proc s) (\<lambda>(p, _) s. proc_kill env p (of_nat (errno_num (cfg env) EFAULT)) s)"

definition fault_allowed :: "kconfig \<Rightarrow> u32 \<Rightarrow> vmarea \<Rightarrow> bool" where
  "fault_allowed c cause vma \<longleftrightarrow>
     \<not> (if vma_prot vma AND PROT_READ c = 0 then True
        else if cause AND FAULT_WRITE c \<noteq> 0 \<and> vma_prot vma AND PROT_WRITE c = 0 then True
        else if cause AND FAULT_RESERVED c \<noteq> 0 then True
        else cause AND FAULT_EXEC c \<noteq> 0 \<and> vma_prot vma AND PROT_EXEC c = 0)"

text \<open>
  When the process was killed the code goes on only if the switch to another thread comes back.
\<close>

definition handle_pagefault :: "kenv \<Rightarrow> u32 \<Rightarrow> u32 \<Rightarrow> unit kop" where
  "handle_pagefault env vaddr cause s =
     (let c = cfg env; vfn = ADDR_TO_PN vaddr in
      bindK (cur_proc s) (\<lambda>(_, pr) s.
        case p_vmmap pr of
          None \<Rightarrow> Stop KASSERT_failed
        | Some mp \<Rightarrow>
            bindK (load_map mp s) (\<lambda>m s.
              case vmmap_lookup m vfn of
                None \<Rightarrow> bindK (kill_current env s) (\<lambda>_ s. Stop BAD_POINTER)
              | Some vma \<Rightarrow>
                  bindK (if fault_allowed c cause vma then Ret () s else kill_current env s) (\<lambda>_ s.
                  let pagenum = vma_off vma + (vfn - vma_start vma);
                      forwrite = has_flag cause (FAULT_WRITE c) in
                  case vma_obj vma of
                    None \<Rightarrow> Stop BAD_POINTER
                  | Some ob \<Rightarrow>
                      bindK (mmo_lookuppage (chain_fuel env) env ob pagenum forwrite s) (\<lambda>ret s.
                        case ret of
                          Inl _ \<Rightarrow> kill_current env s
                        | Inr pf \<Rightarrow>
                            bindK (cur_proc s) (\<lambda>(_, pr) s.
                            bindK (deref (pframes s) pf s) (\<lambda>f s.
                              Ret () (hw (PT_MAP (p_pagedir pr) (PAGE_ALIGN_DOWN vaddr)
                                (pt_virt_to_phys env (pf_addr f)) forwrite forwrite) s))))))))"

section \<open>Faults on copy-on-write areas\<close>

text \<open>
  \<open>faulting s vaddr pr vma\<close>: the current process \<open>pr\<close> has an address space whose area \<open>vma\<close> has the page
  of \<open>vaddr\<close>.
\<close>

definition faulting :: "kstate \<Rightarrow> u32 \<Rightarrow> proc \<Rightarrow> vmarea \<Rightarrow> bool" where
  "faulting s vaddr pr vma \<longleftrightarrow> (\<exists>p mp m. curproc s = Some p \<and> procs s p = Some pr \<and> p_vmmap pr = Some mp
     \<and> load_map mp s = Ret m s \<and> vmmap_lookup m (ADDR_TO_PN vaddr) = Some vma)"

definition fault_page :: "u32 \<Rightarrow> vmarea \<Rightarrow> u32" where
  "fault_page vaddr vma = vma_off vma + (ADDR_TO_PN vaddr - vma_start vma)"

lemma handle_pagefault_found:
  assumes "faulting s vaddr pr vma" and "fault_allowed (cfg env) cause vma" and "vma_obj vma = Some ob"
    and "mmo_lookuppage (chain_fuel env) env ob (fault_page vaddr vma) (has_flag cause (FAULT_WRITE (cfg env))) s = Ret (Inr pf) s'"
    and "same_space s s'" and "pframes s' pf = Some f"
  shows "handle_pagefault env vaddr cause s = Ret () (hw (PT_MAP (p_pagedir pr) (PAGE_ALIGN_DOWN vaddr)
    (pt_virt_to_phys env (pf_addr f)) (has_flag cause (FAULT_WRITE (cfg env))) (has_flag cause (FAULT_WRITE (cfg env)))) s')"
proof -
  obtain p mp m where c: "curproc s = Some p" "procs s p = Some pr" "p_vmmap pr = Some mp"
    "load_map mp s = Ret m s" "vmmap_lookup m (ADDR_TO_PN vaddr) = Some vma"
    using assms(1) by (auto simp: faulting_def)
  have "cur_proc s' = Ret (p, pr) s'" using c(1,2) assms(5) by (simp add: cur_proc_def same_space_def)
  then show ?thesis using c assms(2-4,6)
    by (simp add: handle_pagefault_def cur_proc_def Let_def fault_page_def del: mmo_lookuppage.simps)
qed

text \<open>
  \<open>reads s obs n b\<close>: reading page \<open>n\<close> through the chain of objects \<open>obs\<close> gives the bytes \<open>b\<close>.
\<close>

definition reads :: "kstate \<Rightarrow> ptr list \<Rightarrow> u32 \<Rightarrow> (u32 \<Rightarrow> u8) \<Rightarrow> bool" where
  "reads s obs n b \<longleftrightarrow> (\<exists>q g. resolves s obs n q \<and> pframes s q = Some g \<and> page_bytes s (pf_addr g) = b)"

lemma reads_kept:
  assumes "frames_kept s s'" and "reads s obs n b" and "ob \<notin> set obs" and "pframes s p = None"
    and "pframes s' = (pframes s)(p \<mapsto> f)" and "pf_obj f = Some ob" and "mmobjs s' = (mmobjs s)(ob \<mapsto> m)"
  shows "reads s' obs n b"
  using assms resolves_other [OF _ assms(3-7)] unfolding reads_def frames_kept_def by blast

lemma resolves_cong: "pframes s' = pframes s \<Longrightarrow> mmobjs s' = mmobjs s \<Longrightarrow> resolves s' obs n q = resolves s obs n q"
  by (induction s obs n q rule: resolves.induct) (simp_all add: holds_page_def)

lemma hw_reads [simp]:
  "reads (hw e s) obs n b = reads s obs n b" "holds_page (hw e s) = holds_page s" "hwlog (hw e s) = hwlog s @ [e]"
  by (simp_all add: reads_def hw_def resolves_cong [of "s\<lparr>hwlog := h\<rparr>" s for h] page_bytes_def holds_page_def fun_eq_iff)

text \<open>
  C2: a write fault on a private area gives the process a page of its own. The handler maps, for writing, a
  new frame of the area's shadow object with the contents the page had; every other chain of objects, that
  of a parent or a child that shares the objects below in particular, still reads the same bytes for every page.
\<close>

theorem write_fault_copies:
  assumes wf: "pages_wf env s" and fresh: "allocs_fresh env" and room: "page_room env s p a"
    and vma: "faulting s vaddr pr vma" "fault_allowed (cfg env) cause vma" "vma_obj vma = Some ob"
    and wr: "has_flag cause (FAULT_WRITE (cfg env))"
    and ob: "mmobjs s ob = Some m" "mmo_ops m = shadow_mmobj_ops" "0 < mmo_refcount m"
    and r: "resolves s (ob # sh # obs) (fault_page vaddr vma) q" "distinct (ob # sh # obs)" "length obs < chain_fuel env"
    and ok: "lookup_ok s (sh # obs) (fault_page vaddr vma)" and g: "pframes s q = Some g" "\<not> pf_busy g"
    and fuel: "5 \<le> chain_fuel env"
  shows "\<exists>s'. handle_pagefault env vaddr cause s = Ret () s'
    \<and> hwlog s' = hwlog s @ [PT_MAP (p_pagedir pr) (PAGE_ALIGN_DOWN vaddr) (pt_virt_to_phys env a) True True]
    \<and> reads s' [ob] (fault_page vaddr vma) (page_bytes s (pf_addr g)) \<and> holds_page s' p ob (fault_page vaddr vma)
    \<and> (\<forall>obs' n b. ob \<notin> set obs' \<and> reads s obs' n b \<longrightarrow> reads s' obs' n b)"
proof -
  let ?n = "fault_page vaddr vma"
  obtain s' where s': "mmo_lookuppage (chain_fuel env) env ob ?n True s = Ret (Inr p) s'"
    "holds_page s' p ob ?n" "page_bytes s' a = page_bytes s (pf_addr g)" "frames_kept s s'"
    "pframes s' = (pframes s)(p \<mapsto> unbusy_pinned ob ?n a)" "same_space s s'" "mmobjs s' = (mmobjs s)(ob \<mapsto> held_one_more p m)"
    using shadow_write_lookup [OF wf fresh room ob r ok g fuel] by blast
  have new: "pframes s p = None" by (rule allocs_freshD(1) [OF fresh room])
  let ?s = "hw (PT_MAP (p_pagedir pr) (PAGE_ALIGN_DOWN vaddr) (pt_virt_to_phys env a) True True) s'"
  have "handle_pagefault env vaddr cause s = Ret () ?s"
    using handle_pagefault_found [OF vma, of p s' "unbusy_pinned ob ?n a"] s' wr by simp
  moreover have "reads s' [ob] ?n (page_bytes s (pf_addr g))" using s'(2,3,5) by (auto simp: reads_def)
  moreover have "reads s' obs' n b" if "ob \<notin> set obs'" "reads s obs' n b" for obs' n b
    by (rule reads_kept [OF s'(4) that(2,1) new s'(5) _ s'(7)]) simp
  moreover have "hwlog s' = hwlog s" using s'(6) by (simp add: same_space_def)
  ultimately show ?thesis using s'(2) by (intro exI [of _ ?s]) simp
qed

text \<open>The objects of the copy-on-write example, with the shadow object mapped at the pages from \<open>0x400\<close> on.\<close>

definition cow_area :: vmarea where
  "cow_area = \<lparr>vma_id = 1, vma_start = 0x400, vma_end = 0x410, vma_off = 0, vma_prot = 3, vma_flags = 2,
     vma_vmmap = Some 1, vma_obj = Some 2, vma_olink = None\<rparr>"

definition cow_space :: kstate where
  "cow_space = example_t1\<lparr>procs := [1 \<mapsto> example_proc], vmmaps := [1 \<mapsto> \<lparr>vmn_list = [1], vmn_proc = Some 1\<rparr>],
     vmareas := [1 \<mapsto> cow_area]\<rparr>"

lemma cow_space_sel [simp]:
  "pframes cow_space = pframes example_t1" "mmobjs cow_space = mmobjs example_t1" "kmem cow_space = kmem example_t1"
  "vnodes cow_space = vnodes example_t1" "pages_out cow_space = pages_out example_t1"
  by (simp_all add: cow_space_def)

lemma cow_space_wf: "pages_wf example_env cow_space"
proof -
  have l: "lists_wf cow_space = lists_wf example_t1" by (rule lists_wf_cong) (simp_all add: cow_space_def)
  have h: "hash_wf example_env cow_space = hash_wf example_env example_t1" by (rule hash_wf_cong) (simp_all add: cow_space_def)
  have o: "objs_wf cow_space = objs_wf example_t1" by (rule objs_wf_cong) (simp_all add: cow_space_def)
  have a: "addrs_wf cow_space = addrs_wf example_t1" by (rule addrs_wf_cong) (simp_all add: cow_space_def)
  show ?thesis using example_t1_wf unfolding pages_wf_def l h o a .
qed

lemma cow_faulting: "faulting cow_space 0x407123 example_proc cow_area"
  by (simp add: faulting_def cow_space_def example_t1_simps load_map_def example_proc_def vmmap_lookup_def cow_area_def
      ADDR_TO_PN_def)

lemma cow_resolves: "resolves cow_space [2, 1] 7 1" "lookup_ok cow_space [1] 7" "lookup_ok cow_space [2, 1] 7"
  by (simp_all add: lookup_ok_def holds_page_def example_t1_simps)

lemma cow_fault_page: "fault_page 0x407123 cow_area = 7"
  by (simp add: fault_page_def cow_area_def ADDR_TO_PN_def)

theorem write_fault_copies_witness:
  "\<exists>s'. handle_pagefault example_env 0x407123 2 cow_space = Ret () s'
    \<and> hwlog s' = [PT_MAP 1 0x407000 0x2000 True True]
    \<and> reads s' [2] 7 (page_bytes cow_space 0x1000) \<and> holds_page s' 2 2 7 \<and> reads s' [1] 7 (page_bytes cow_space 0x1000)"
proof -
  have room: "page_room example_env cow_space 2 0x2000"
    by (simp add: page_room_def pageoutd_needed_def cow_space_def example_t1_simps example_env_def first_free_def)
  have g: "pframes cow_space 1 = Some (fresh_frame 1 7 0x1000)" by (simp add: example_t1_simps)
  have "reads cow_space [1] 7 (page_bytes cow_space 0x1000)" unfolding reads_def
    by (rule exI [of _ 1], rule exI [of _ "fresh_frame 1 7 0x1000"]) (use g in \<open>simp add: holds_page_def\<close>)
  moreover have "fault_allowed (cfg example_env) 2 cow_area"
    by (simp add: fault_allowed_def cow_area_def example_env_def example_cfg_def)
  ultimately show ?thesis
    using write_fault_copies [OF cow_space_wf example_env_fresh room cow_faulting, of 2 2 example_shadow 1 "[]" 1
      "fresh_frame 1 7 0x1000", unfolded cow_fault_page, OF _ _ _ _ _ _ cow_resolves(1) _ _ cow_resolves(2)] g
    by (force simp: cow_area_def example_t1_simps example_env_def example_cfg_def has_flag_def example_proc_def cow_space_def
        PAGE_ALIGN_DOWN_def PN_TO_ADDR_def ADDR_TO_PN_def)
qed

text \<open>
  C21: a read fault copies nothing. The handler maps, for reading only, the frame of the nearest
  object in the chain that has the page, and changes nothing but the order in which pages were last used.
\<close>

theorem read_fault_shares:
  assumes wf: "pages_wf env s" and vma: "faulting s vaddr pr vma" "fault_allowed (cfg env) cause vma" "vma_obj vma = Some ob"
    and rd: "\<not> has_flag cause (FAULT_WRITE (cfg env))"
    and r: "resolves s (ob # obs) (fault_page vaddr vma) q" and g: "pframes s q = Some g" "\<not> pf_busy g"
    and ok: "lookup_ok s (ob # obs) (fault_page vaddr vma)" and len: "length obs < chain_fuel env" and fuel: "2 \<le> chain_fuel env"
  shows "handle_pagefault env vaddr cause s =
    Ret () (hw (PT_MAP (p_pagedir pr) (PAGE_ALIGN_DOWN vaddr) (pt_virt_to_phys env (pf_addr g)) False False) (touched q s))"
proof -
  obtain k where k: "chain_fuel env = Suc (Suc k)" using le_Suc_ex [OF fuel] by (auto simp: eval_nat_numeral)
  show ?thesis
    using handle_pagefault_found [OF vma, of q "touched q s" g] read_lookup_resolves [OF wf r g ok len, of k] rd g
    unfolding k by simp
qed

theorem read_fault_shares_witness:
  "handle_pagefault example_env 0x407123 0 cow_space = Ret () (hw (PT_MAP 1 0x407000 0x1000 False False) (touched 1 cow_space))"
proof -
  have g: "pframes cow_space 1 = Some (fresh_frame 1 7 0x1000)" by (simp add: example_t1_simps)
  have sel: "cfg example_env = example_cfg" "chain_fuel example_env = 16" "pt_virt_to_phys example_env = id"
    by (simp_all add: example_env_def)
  have "fault_allowed (cfg example_env) 0 cow_area"
    by (simp add: fault_allowed_def cow_area_def example_env_def example_cfg_def)
  then show ?thesis
    using read_fault_shares [OF cow_space_wf cow_faulting, of 0 2 "[1]" 1 "fresh_frame 1 7 0x1000",
      unfolded cow_fault_page, OF _ _ _ cow_resolves(1) g _ cow_resolves(3)]
    by (simp add: cow_area_def sel example_cfg_def has_flag_def example_proc_def
        PAGE_ALIGN_DOWN_def PN_TO_ADDR_def ADDR_TO_PN_def)
qed

section \<open>What fork keeps\<close>

text \<open>
  Inversion of the operations that fork is made of.
\<close>

lemma mmo_upd_eq_Ret [kres_simps]:
  "mmo_upd ob f s = Ret u s' \<longleftrightarrow> (\<exists>m. mmobjs s ob = Some m \<and> s' = s\<lparr>mmobjs := (mmobjs s)(ob \<mapsto> f m)\<rparr>)"
  by (auto simp: mmo_upd_def kres_simps)

lemma mmobj_bottom_obj_eq_Ret [kres_simps]:
  "mmobj_bottom_obj ob s = Ret b s' \<longleftrightarrow> s' = s \<and> (\<exists>m. mmobjs s ob = Some m
     \<and> (mmo_un_f m = mmo_bottom_obj (Some b) \<or> b = ob \<and> (\<forall>b'. mmo_un_f m \<noteq> mmo_bottom_obj b')))"
  by (cases "mmobjs s ob"; cases "mmo_un_f (the (mmobjs s ob))")
    (auto simp: mmobj_bottom_obj_def split: option.splits)

lemma olink_insert_eq_Ret [kres_simps]:
  "olink_insert ob v s = Ret u s' \<longleftrightarrow> (\<exists>m l a. mmobjs s ob = Some m \<and> link_tail v (mmo_un_f m) = Some l \<and> vmareas s v = Some a
     \<and> s' = s\<lparr>mmobjs := (mmobjs s)(ob \<mapsto> m\<lparr>mmo_un_f := l\<rparr>), vmareas := (vmareas s)(v \<mapsto> a\<lparr>vma_olink := Some ob\<rparr>)\<rparr>)"
  by (auto simp: olink_insert_def vma_upd_def kres_simps split: option.splits)

lemma mmo_ref_eq_Ret [kres_simps]:
  "mmo_ref ob s = Ret u s' \<longleftrightarrow> (\<exists>m. mmobjs s ob = Some m \<and> 0 < mmo_refcount m
     \<and> s' = s\<lparr>mmobjs := (mmobjs s)(ob \<mapsto> m\<lparr>mmo_refcount := mmo_refcount m + 1\<rparr>)\<rparr>)"
  by (cases "mmobjs s ob") (auto simp: mmo_ref_eq, simp add: mmo_ref_def)

lemma shadow_create_eq_Ret [kres_simps]:
  "shadow_create env s = Ret r s' \<longleftrightarrow> (case mmobj_slab env (mmobjs s) of
     None \<Rightarrow> r = None \<and> s' = s | Some sh \<Rightarrow> r = Some sh \<and> s' = s\<lparr>mmobjs := (mmobjs s)(sh \<mapsto> new_shadow)\<rparr>)"
  by (auto simp: shadow_create_def new_shadow_def split: option.splits)

text \<open>
  Pages and their contents as before, and every object still there, in the same place of its chain.
\<close>

definition pages_kept :: "kstate \<Rightarrow> kstate \<Rightarrow> bool" where
  "pages_kept s s' \<longleftrightarrow> pframes s' = pframes s \<and> kmem s' = kmem s
     \<and> (\<forall>ob m. mmobjs s ob = Some m \<longrightarrow>
          (\<exists>m'. mmobjs s' ob = Some m' \<and> mmo_shadowed m' = mmo_shadowed m \<and> mmo_ops m' = mmo_ops m))"

lemma pages_keptD:
  "pages_kept s s' \<Longrightarrow> mmobjs s ob = Some m
    \<Longrightarrow> \<exists>m'. mmobjs s' ob = Some m' \<and> mmo_shadowed m' = mmo_shadowed m \<and> mmo_ops m' = mmo_ops m"
  by (simp add: pages_kept_def)

lemma pages_kept_refl [simp]: "pages_kept s s"
  by (simp add: pages_kept_def)

lemma pages_kept_trans:
  assumes "pages_kept s s'" and "pages_kept s' s''"
  shows "pages_kept s s''"
  unfolding pages_kept_def
proof (intro conjI allI impI)
  fix ob m assume "mmobjs s ob = Some m"
  from pages_keptD [OF assms(1) this] pages_keptD [OF assms(2)]
  show "\<exists>m'. mmobjs s'' ob = Some m' \<and> mmo_shadowed m' = mmo_shadowed m \<and> mmo_ops m' = mmo_ops m" by metis
qed (use assms in \<open>simp_all add: pages_kept_def\<close>)

lemma pages_kept_upd:
  assumes "pages_kept s s'" and "mmobjs s' ob = Some m" and "mmo_shadowed m' = mmo_shadowed m" and "mmo_ops m' = mmo_ops m"
  shows "pages_kept s (s'\<lparr>mmobjs := (mmobjs s')(ob \<mapsto> m')\<rparr>)"
  using assms by (fastforce simp: pages_kept_def)

lemma pages_kept_new: "pages_kept s s' \<Longrightarrow> mmobjs s ob = None \<Longrightarrow> pages_kept s (s'\<lparr>mmobjs := (mmobjs s')(ob \<mapsto> m)\<rparr>)"
  by (auto simp: pages_kept_def)

lemma pages_kept_vmareas [simp]: "pages_kept s (s'\<lparr>vmareas := h\<rparr>) = pages_kept s s'"
  by (simp add: pages_kept_def)

lemma pages_kept_fresh: "pages_kept s s' \<Longrightarrow> mmobjs s' ob = None \<Longrightarrow> mmobjs s ob = None"
  by (cases "mmobjs s ob") (auto dest: pages_keptD)

lemma pages_kept_reads:
  assumes "pages_kept s s'" and "reads s obs n b"
  shows "reads s' obs n b"
proof -
  have "resolves s' obs n q" if "resolves s obs n q" for q
    using that assms(1)
  proof (induction s obs n q rule: resolves.induct)
    case (3 s ob sh obs n q)
    then obtain m where "mmobjs s ob = Some m" "mmo_shadowed m = Some sh" by (auto split: option.splits)
    with 3 show ?case using pages_keptD [OF "3.prems"(2)] by (fastforce simp: pages_kept_def holds_page_def)
  qed (simp_all add: pages_kept_def holds_page_def)
  moreover have "page_bytes s' = page_bytes s" using assms(1) by (intro page_bytes_kmem) (simp add: pages_kept_def)
  ultimately show ?thesis using assms unfolding reads_def pages_kept_def by metis
qed

text \<open>\<open>shadows s sh ob\<close>: \<open>sh\<close> is a shadow object over \<open>ob\<close>.\<close>

definition shadows :: "kstate \<Rightarrow> ptr \<Rightarrow> ptr \<Rightarrow> bool" where
  "shadows s sh ob \<longleftrightarrow> (\<exists>m. mmobjs s sh = Some m \<and> mmo_ops m = shadow_mmobj_ops \<and> mmo_shadowed m = Some ob)"

lemma shadows_kept: "pages_kept s s' \<Longrightarrow> shadows s sh ob \<Longrightarrow> shadows s' sh ob"
  unfolding shadows_def by (metis pages_keptD)

text \<open>A new shadow object has no page, so reading through it reads what it shadows.\<close>

lemma new_shadow_reads:
  assumes "objs_wf s" and "pages_kept s s'" and "mmobjs s sh = None" and "shadows s' sh ob" and "reads s (ob # obs) n b"
  shows "reads s' (sh # ob # obs) n b"
proof -
  have "\<not> holds_page s' p sh n" for p
    using frame_owner [OF assms(1), of p] assms(2,3) by (auto simp: holds_page_def pages_kept_def)
  moreover have "reads s' (ob # obs) n b" by (rule pages_kept_reads [OF assms(2,5)])
  ultimately show ?thesis using assms(4) by (auto simp: reads_def shadows_def)
qed

lemma shadow_over_Some:
  assumes "shadow_over env a s = Ret (Some (sh, b)) s'" and "allocs_fresh env"
  obtains ob where "vma_obj a = Some ob" "mmobjs s sh = None" "ob \<noteq> sh"
    "s' = s\<lparr>mmobjs := (mmobjs s)(sh \<mapsto> new_shadow\<lparr>mmo_shadowed := Some ob, mmo_un_f := mmo_bottom_obj (Some b)\<rparr>)\<rparr>"
  using assms by (auto simp: shadow_over_def kres_simps allocs_fresh_def new_shadow_def split: option.splits if_splits)

lemma new_shadow_shadows:
  assumes "s' = s\<lparr>mmobjs := (mmobjs s)(sh \<mapsto> new_shadow\<lparr>mmo_shadowed := Some ob, mmo_un_f := u\<rparr>)\<rparr>" and "mmobjs s sh = None"
  shows "shadows s' sh ob" and "pages_kept s s'"
  using assms by (auto simp: shadows_def new_shadow_def intro: pages_kept_new)

text \<open>One turn of each loop of fork.\<close>

definition inherits :: "kenv \<Rightarrow> kstate \<Rightarrow> kstate \<Rightarrow> ptr \<Rightarrow> vmarea \<Rightarrow> vmarea \<Rightarrow> bool" where
  "inherits env s s' v n a \<longleftrightarrow> (\<exists>ob n'. vma_obj a = Some ob \<and> vmareas s' v = Some n'
     \<and> n' = n\<lparr>vma_olink := vma_olink n', vma_obj := vma_obj n'\<rparr>
     \<and> (if has_flag (vma_flags n) (MAP_PRIVATE (cfg env))
        then vma_olink n' \<noteq> None \<and> (\<exists>sh. vma_obj n' = Some sh \<and> mmobjs s sh = None \<and> shadows s' sh ob)
        else has_flag (vma_flags n) (MAP_SHARED (cfg env)) \<longrightarrow> vma_obj n' = Some ob))"

lemma inherits_later:
  assumes "inherits env s1 s2 v n a" and "pages_kept s s1" and "pages_kept s2 s3" and "vmareas s3 v = vmareas s2 v"
  shows "inherits env s s3 v n a"
  using assms(1) pages_kept_fresh [OF assms(2)] shadows_kept [OF assms(3)] unfolding inherits_def assms(4)
  by (meson)

lemma fork_child_Cons:
  assumes f: "fork_child env mp (v # news) olds s = Ret (Inr ()) s'" and fresh: "allocs_fresh env"
  obtains w olds' n a s1 where "olds = w # olds'" "vmareas s v = Some n" "vmareas s w = Some a"
    "\<forall>u. u \<noteq> v \<longrightarrow> vmareas s1 u = vmareas s u" "pages_kept s s1" "inherits env s s1 v n a"
    "fork_child env mp news olds' s1 = Ret (Inr ()) s'"
proof -
  obtain w olds' where o: "olds = w # olds'" using f by (cases olds) simp_all
  obtain n a ob s2 mo where n: "vmareas s v = Some n" "vmareas s w = Some a" "vma_obj a = Some ob"
    and mo: "mmobjs s2 ob = Some mo"
    and rest: "fork_child env mp news olds' (s2\<lparr>mmobjs := (mmobjs s2)(ob \<mapsto> mo\<lparr>mmo_refcount := mmo_refcount mo + 1\<rparr>)\<rparr>) = Ret (Inr ()) s'"
    and s2: "(if has_flag (vma_flags n) (MAP_PRIVATE (cfg env))
                 then bindK (shadow_over env a s) (\<lambda>r s.
                        case r of
                          None \<Rightarrow> bindK (vmmap_destroy env mp s) (\<lambda>_ s. Ret (Inl EMINUS1) s)
                        | Some (shadow, b) \<Rightarrow>
                            bindK (olink_insert b v s) (\<lambda>_ s.
                            bindK (vma_upd v (\<lambda>n. n\<lparr>vma_obj := Some shadow\<rparr>) s) (\<lambda>_ s.
                              Ret (Inr ()) s)))
                 else if has_flag (vma_flags n) (MAP_SHARED (cfg env))
                 then bindK (vma_upd v (\<lambda>n. n\<lparr>vma_obj := vma_obj a\<rparr>) s) (\<lambda>_ s. Ret (Inr ()) s)
                 else Ret (Inr ()) s) = Ret (Inr ()) s2"
    using f o by (auto simp: kres_simps split: option.splits sum.splits)
  have k: "pages_kept s s2 \<and> inherits env s s2 v n a \<and> (\<forall>u. u \<noteq> v \<longrightarrow> vmareas s2 u = vmareas s u)"
  proof (cases "has_flag (vma_flags n) (MAP_PRIVATE (cfg env))")
    case True
    then obtain sh b s3 m l where s3: "shadow_over env a s = Ret (Some (sh, b)) s3" "mmobjs s3 b = Some m"
      "s2 = s3\<lparr>mmobjs := (mmobjs s3)(b \<mapsto> m\<lparr>mmo_un_f := l\<rparr>),
         vmareas := (vmareas s3)(v \<mapsto> the (vmareas s3 v)\<lparr>vma_olink := Some b, vma_obj := Some sh\<rparr>)\<rparr>"
      using s2 by (auto simp: kres_simps split: option.splits)
    obtain ob' where ob': "vma_obj a = Some ob'" "mmobjs s sh = None" "ob' \<noteq> sh" 
        "s3 = s\<lparr>mmobjs := (mmobjs s)(sh \<mapsto> new_shadow\<lparr>mmo_shadowed := Some ob', mmo_un_f := mmo_bottom_obj (Some b)\<rparr>)\<rparr>"
      using shadow_over_Some [OF s3(1) fresh] by blast
    note k3 = new_shadow_shadows [OF ob'(4,2)]
    have k2: "pages_kept s3 s2" unfolding s3(3) by (simp add: pages_kept_upd [OF _ s3(2)])
    have "vmareas s3 = vmareas s" unfolding ob'(4) by simp
    then have "vmareas s2 = (vmareas s)(v \<mapsto> n\<lparr>vma_olink := Some b, vma_obj := Some sh\<rparr>)" unfolding s3(3) using n(1) by simp
    then show ?thesis
      using True ob'(1,2) shadows_kept [OF k2 k3(1)] pages_kept_trans [OF k3(2) k2] by (auto simp: inherits_def)
  next
    case False
    then show ?thesis using s2 n by (auto simp: inherits_def kres_simps split: if_splits)
  qed
  have "pages_kept s2 (s2\<lparr>mmobjs := (mmobjs s2)(ob \<mapsto> mo\<lparr>mmo_refcount := mmo_refcount mo + 1\<rparr>)\<rparr>)" (is "pages_kept s2 ?s1")
    by (simp add: pages_kept_upd [OF _ mo])
  then have "pages_kept s ?s1" "inherits env s ?s1 v n a"
    using k by (auto intro: pages_kept_trans inherits_later)
  with that [OF o n(1,2) _ _ _ rest] k show thesis by simp
qed


lemma fork_child_all:
  assumes "fork_child env mp news olds s = Ret (Inr ()) s'" and "distinct news" and "set news \<inter> set olds = {}"
    and "allocs_fresh env"
  shows "pages_kept s s' \<and> (\<forall>u. u \<notin> set news \<longrightarrow> vmareas s' u = vmareas s u)
    \<and> (\<forall>(v, w) \<in> set (zip news olds). \<exists>n a. vmareas s v = Some n \<and> vmareas s w = Some a \<and> inherits env s s' v n a)"
  using assms(1-3)
proof (induction news arbitrary: olds s)
  case (Cons v news)
  obtain w olds' n a s1 where o: "olds = w # olds'" and a: "vmareas s v = Some n" "vmareas s w = Some a"
    and s1: "\<forall>u. u \<noteq> v \<longrightarrow> vmareas s1 u = vmareas s u" "pages_kept s s1" "inherits env s s1 v n a"
    and rest: "fork_child env mp news olds' s1 = Ret (Inr ()) s'"
    by (rule fork_child_Cons [OF Cons.prems(1) assms(4)])
  have IH: "pages_kept s1 s'" "\<forall>u. u \<notin> set news \<longrightarrow> vmareas s' u = vmareas s1 u"
    "\<forall>(v, w) \<in> set (zip news olds'). \<exists>n a. vmareas s1 v = Some n \<and> vmareas s1 w = Some a \<and> inherits env s1 s' v n a"
    using Cons.IH [OF rest] Cons.prems(2,3) o by auto
  have "\<exists>n a. vmareas s v' = Some n \<and> vmareas s w' = Some a \<and> inherits env s s' v' n a"
    if "(v', w') \<in> set (zip news olds')" for v' w'
  proof -
    have "v' \<noteq> v" "w' \<noteq> v" using that Cons.prems(2,3) o by (auto dest: set_zip_leftD set_zip_rightD)
    then show ?thesis using IH(3) that s1(1) inherits_later [OF _ s1(2) pages_kept_refl] by fastforce
  qed
  moreover have "inherits env s s' v n a"
    using IH(2) Cons.prems(2) by (intro inherits_later [OF s1(3) pages_kept_refl IH(1)]) simp
  ultimately show ?case using a s1(1,2) IH(1,2) pages_kept_trans o by auto
qed simp

text \<open>The areas of the parent.\<close>

definition covered :: "kenv \<Rightarrow> kstate \<Rightarrow> kstate \<Rightarrow> ptr \<Rightarrow> bool" where
  "covered env s s' w \<longleftrightarrow> (\<exists>a. vmareas s w = Some a
     \<and> (if has_flag (vma_flags a) (MAP_PRIVATE (cfg env))
        then \<exists>sh ob. vma_obj a = Some ob \<and> mmobjs s sh = None \<and> shadows s' sh ob \<and> vmareas s' w = Some (a\<lparr>vma_obj := Some sh\<rparr>)
        else vmareas s' w = Some a))"

lemma covered_later:
  assumes "covered env s1 s2 w" and "pages_kept s s1" and "pages_kept s2 s3" and "vmareas s1 w = vmareas s w"
    and "vmareas s3 w = vmareas s2 w"
  shows "covered env s s3 w"
proof -
  obtain a where "vmareas s1 w = Some a" and "if has_flag (vma_flags a) (MAP_PRIVATE (cfg env))
      then \<exists>sh ob. vma_obj a = Some ob \<and> mmobjs s1 sh = None \<and> shadows s2 sh ob \<and> vmareas s2 w = Some (a\<lparr>vma_obj := Some sh\<rparr>)
      else vmareas s2 w = Some a"
    using assms(1) unfolding covered_def by blast
  then show ?thesis
    unfolding covered_def assms(4) [symmetric] assms(5)
    using pages_kept_fresh [OF assms(2)] shadows_kept [OF assms(3)] by (intro exI [of _ a]) (simp split: if_splits, blast)
qed

lemma fork_parent_Cons:
  assumes f: "fork_parent env mp (w # olds) s = Ret (Inr ()) s'" and fresh: "allocs_fresh env"
  obtains s1 where "\<forall>u. u \<noteq> w \<longrightarrow> vmareas s1 u = vmareas s u" "pages_kept s s1" "covered env s s1 w"
    "fork_parent env mp olds s1 = Ret (Inr ()) s'"
proof -
  obtain a where a: "vmareas s w = Some a" using f by (auto simp: kres_simps)
  show thesis
  proof (cases "has_flag (vma_flags a) (MAP_PRIVATE (cfg env))")
    case True
    then obtain sh b s3 where s3: "shadow_over env a s = Ret (Some (sh, b)) s3"
      and rest: "fork_parent env mp olds (s3\<lparr>vmareas := (vmareas s3)(w \<mapsto> the (vmareas s3 w)\<lparr>vma_obj := Some sh\<rparr>)\<rparr>) = Ret (Inr ()) s'"
      using f a by (auto simp: kres_simps split: option.splits)
    obtain ob where ob: "vma_obj a = Some ob" "mmobjs s sh = None"
        "s3 = s\<lparr>mmobjs := (mmobjs s)(sh \<mapsto> new_shadow\<lparr>mmo_shadowed := Some ob, mmo_un_f := mmo_bottom_obj (Some b)\<rparr>)\<rparr>"
      using shadow_over_Some [OF s3 fresh] by blast
    note k3 = new_shadow_shadows [OF ob(3,2)]
    have v3: "vmareas s3 = vmareas s" unfolding ob(3) by simp
    have "shadows (s3\<lparr>vmareas := h\<rparr>) sh ob" for h using k3(1) by (simp add: shadows_def)
    then show thesis using k3 v3 a ob True
      by (intro that [OF _ _ _ rest]) (auto simp: covered_def)
  next
    case False
    then show thesis using f a by (intro that [of s]) (auto simp: covered_def kres_simps)
  qed
qed

lemma fork_parent_all:
  assumes "fork_parent env mp olds s = Ret (Inr ()) s'" and "distinct olds" and "allocs_fresh env"
  shows "pages_kept s s' \<and> (\<forall>u. u \<notin> set olds \<longrightarrow> vmareas s' u = vmareas s u) \<and> (\<forall>w \<in> set olds. covered env s s' w)"
  using assms(1,2)
proof (induction olds arbitrary: s)
  case (Cons w olds)
  obtain s1 where s1: "\<forall>u. u \<noteq> w \<longrightarrow> vmareas s1 u = vmareas s u" "pages_kept s s1" "covered env s s1 w"
    and rest: "fork_parent env mp olds s1 = Ret (Inr ()) s'"
    by (rule fork_parent_Cons [OF Cons.prems(1) assms(3)])
  have IH: "pages_kept s1 s'" "\<forall>u. u \<notin> set olds \<longrightarrow> vmareas s' u = vmareas s1 u" "\<forall>w \<in> set olds. covered env s1 s' w"
    using Cons.IH [OF rest] Cons.prems(2) by auto
  have "covered env s s' w" using IH(2) Cons.prems(2) by (intro covered_later [OF s1(3) pages_kept_refl IH(1)]) auto
  moreover have "covered env s s' w'" if "w' \<in> set olds" for w'
    using that IH(3) s1(1) Cons.prems(2) by (intro covered_later [OF _ s1(2) pages_kept_refl]) auto
  ultimately show ?case using s1(1,2) IH(1,2) pages_kept_trans by auto
qed simp

lemma fork_areas_shared:
  assumes wf: "pages_wf env s" and fresh: "allocs_fresh env" and d: "distinct news" "distinct olds" "set news \<inter> set olds = {}"
    and child: "fork_child env mp news olds s = Ret (Inr ()) s1" and parent: "fork_parent env mp olds s1 = Ret (Inr ()) s'"
    and area: "(v, w) \<in> set (zip news olds)" "vmareas s v = Some n" "vmareas s w = Some a" "vma_flags n = vma_flags a"
      "has_flag (vma_flags a) (MAP_PRIVATE (cfg env))"
  shows "\<exists>ob pa ch l. vma_obj a = Some ob \<and> pa \<noteq> ch
    \<and> vmareas s' w = Some (a\<lparr>vma_obj := Some pa\<rparr>) \<and> shadows s' pa ob
    \<and> vmareas s' v = Some (n\<lparr>vma_olink := Some l, vma_obj := Some ch\<rparr>) \<and> shadows s' ch ob
    \<and> (\<forall>obs i b. reads s (ob # obs) i b \<longrightarrow> reads s' (pa # ob # obs) i b \<and> reads s' (ch # ob # obs) i b)"
proof -
  have c: "pages_kept s s1" "\<forall>u. u \<notin> set news \<longrightarrow> vmareas s1 u = vmareas s u" "inherits env s s1 v n a"
    using fork_child_all [OF child d(1,3) fresh] area by auto
  have p: "pages_kept s1 s'" "\<forall>u. u \<notin> set olds \<longrightarrow> vmareas s' u = vmareas s1 u" "\<forall>w \<in> set olds. covered env s1 s' w"
    using fork_parent_all [OF parent d(2) fresh] by auto
  have vw: "v \<in> set news" "w \<in> set olds" "v \<notin> set olds" "w \<notin> set news"
    using area(1) d(3) by (auto dest: set_zip_leftD set_zip_rightD)
  obtain ob ch l where ch: "vma_obj a = Some ob" "mmobjs s ch = None" "shadows s1 ch ob"
    "vmareas s1 v = Some (n\<lparr>vma_olink := Some l, vma_obj := Some ch\<rparr>)"
    using c(3) area(4,5) unfolding inherits_def by (metis option.exhaust)
  have "vmareas s1 w = Some a" using c(2) vw(4) area(3) by simp
  then obtain pa where pa: "mmobjs s1 pa = None" "shadows s' pa ob" "vmareas s' w = Some (a\<lparr>vma_obj := Some pa\<rparr>)"
    using p(3) vw(2) area(5) ch(1) by (fastforce simp: covered_def)
  have k: "pages_kept s s'" by (rule pages_kept_trans [OF c(1) p(1)])
  have "pa \<noteq> ch" using ch(3) pa(1) by (auto simp: shadows_def)
  moreover have "reads s' (x # ob # obs) i b" if "reads s (ob # obs) i b" "mmobjs s x = None" "shadows s' x ob" for obs i b x
    by (rule new_shadow_reads [OF pages_wfD(3) [OF wf] k that(2,3,1)])
  ultimately show ?thesis
    using ch pa p(2) vw(3) shadows_kept [OF p(1) ch(3)] pages_kept_fresh [OF c(1) pa(1)]
    by (intro exI [of _ ob] exI [of _ pa] exI [of _ ch] exI [of _ l]) auto
qed

section \<open>Fork succeeds\<close>

text \<open>
  \<open>bottomed h V ob\<close>: \<open>ob\<close> is referenced and its chain ends in a bottom object that links none of the areas \<open>V\<close>;
  \<open>objs_grow v h h'\<close>: objects keep their place, gain references
  and the bottom objects perhaps the area \<open>v\<close>.
\<close>

definition bottomed :: "(ptr \<rightharpoonup> mmobj) \<Rightarrow> ptr set \<Rightarrow> ptr \<Rightarrow> bool" where
  "bottomed h V ob \<longleftrightarrow> (\<exists>m b mb vs. h ob = Some m \<and> 0 < mmo_refcount m \<and> (mmo_un_f m = mmo_bottom_obj (Some b) \<or> b = ob)
     \<and> h b = Some mb \<and> mmo_un_f mb = mmo_vmas vs \<and> set vs \<inter> V = {})"

definition objs_grow :: "ptr \<Rightarrow> (ptr \<rightharpoonup> mmobj) \<Rightarrow> (ptr \<rightharpoonup> mmobj) \<Rightarrow> bool" where
  "objs_grow v h h' \<longleftrightarrow> (\<forall>x m. h x = Some m \<longrightarrow> (\<exists>m'. h' x = Some m' \<and> mmo_refcount m \<le> mmo_refcount m'
     \<and> (mmo_un_f m' = mmo_un_f m \<or> (\<exists>vs. mmo_un_f m = mmo_vmas vs \<and> mmo_un_f m' = mmo_vmas (vs @ [v])))))"

lemma objs_growD:
  "objs_grow v h h' \<Longrightarrow> h x = Some m \<Longrightarrow> \<exists>m'. h' x = Some m' \<and> mmo_refcount m \<le> mmo_refcount m'
     \<and> (mmo_un_f m' = mmo_un_f m \<or> (\<exists>vs. mmo_un_f m = mmo_vmas vs \<and> mmo_un_f m' = mmo_vmas (vs @ [v])))"
  by (simp add: objs_grow_def)

lemma bottomed_grow:
  assumes "bottomed h V ob" and "objs_grow v h h'" and "V' \<subseteq> V - {v}"
  shows "bottomed h' V' ob"
proof -
  obtain m b mb vs where b: "h ob = Some m" "0 < mmo_refcount m" "mmo_un_f m = mmo_bottom_obj (Some b) \<or> b = ob"
    "h b = Some mb" "mmo_un_f mb = mmo_vmas vs" "set vs \<inter> V = {}"
    using assms(1) unfolding bottomed_def by blast
  obtain m' where m': "h' ob = Some m'" "mmo_refcount m \<le> mmo_refcount m'"
    "mmo_un_f m = mmo_bottom_obj (Some b) \<longrightarrow> mmo_un_f m' = mmo_bottom_obj (Some b)"
    using objs_growD [OF assms(2) b(1)] by auto
  obtain mb' vs' where mb': "h' b = Some mb'" "mmo_un_f mb' = mmo_vmas vs'" "set vs' \<subseteq> insert v (set vs)"
    using objs_growD [OF assms(2) b(4)] b(5) by auto
  have "set vs' \<inter> V' = {}" using mb'(3) b(6) assms(3) by blast
  then show ?thesis unfolding bottomed_def using m' mb' b(2,3) by (intro exI [of _ m'] exI [of _ b] exI [of _ mb'] exI [of _ vs']) auto
qed

lemma bottomed_fewer: "bottomed h V ob \<Longrightarrow> V' \<subseteq> V \<Longrightarrow> bottomed h V' ob"
  unfolding bottomed_def by blast

lemma shadow_over_ok:
  assumes "bottomed (mmobjs s) V ob" and "vma_obj a = Some ob" and "mmobj_slab env (mmobjs s) = Some sh" and "mmobjs s sh = None"
  obtains b mb vs where "mmobjs s b = Some mb" "mmo_un_f mb = mmo_vmas vs" "set vs \<inter> V = {}" "b \<noteq> sh"
    "shadow_over env a s = Ret (Some (sh, b))
       (s\<lparr>mmobjs := (mmobjs s)(sh \<mapsto> new_shadow\<lparr>mmo_shadowed := Some ob, mmo_un_f := mmo_bottom_obj (Some b)\<rparr>)\<rparr>)"
proof -
  obtain m b mb vs where b: "mmobjs s ob = Some m" "mmo_un_f m = mmo_bottom_obj (Some b) \<or> b = ob"
    "mmobjs s b = Some mb" "mmo_un_f mb = mmo_vmas vs" "set vs \<inter> V = {}"
    using assms(1) unfolding bottomed_def by blast
  have ne: "ob \<noteq> sh" "b \<noteq> sh" using b(1,3) assms(4) by auto
  have "shadow_over env a s = Ret (Some (sh, b))
       (s\<lparr>mmobjs := (mmobjs s)(sh \<mapsto> new_shadow\<lparr>mmo_shadowed := Some ob, mmo_un_f := mmo_bottom_obj (Some b)\<rparr>)\<rparr>)"
    using assms(2,3) b ne by (auto simp: shadow_over_def shadow_create_def mmobj_bottom_obj_def new_shadow_def)
  then show thesis using that b(3-5) ne(2) by blast
qed

lemma objs_grow_trans_ref:
  assumes "objs_grow v h h'" and "h' ob = Some m"
  shows "objs_grow v h (h'(ob \<mapsto> m\<lparr>mmo_refcount := mmo_refcount m + 1\<rparr>))"
  unfolding objs_grow_def
proof (intro allI impI)
  fix x m0 assume "h x = Some m0"
  from objs_growD [OF assms(1) this] assms(2)
  show "\<exists>m'. (h'(ob \<mapsto> m\<lparr>mmo_refcount := mmo_refcount m + 1\<rparr>)) x = Some m' \<and> mmo_refcount m0 \<le> mmo_refcount m'
     \<and> (mmo_un_f m' = mmo_un_f m0 \<or> (\<exists>vs. mmo_un_f m0 = mmo_vmas vs \<and> mmo_un_f m' = mmo_vmas (vs @ [v])))"
    by (cases "x = ob") auto
qed

lemma objs_grow_refl: "objs_grow v h h"
  by (simp add: objs_grow_def)

lemma objs_grow_link:
  assumes "h sh = None" and "h b = Some mb" and "mmo_un_f mb = mmo_vmas vs"
  shows "objs_grow v h (h(sh \<mapsto> x, b \<mapsto> mb\<lparr>mmo_un_f := mmo_vmas (vs @ [v])\<rparr>))"
  using assms by (auto simp: objs_grow_def)

lemma fork_child_step:
  assumes fresh: "allocs_fresh env" and a: "vmareas s v = Some n" "vmareas s w = Some a" "vma_obj a = Some ob"
    and bot: "bottomed (mmobjs s) V ob" "v \<in> V" and room: "slab_room (mmobj_slab env) (Suc k) (mmobjs s)"
  obtains s1 n' where "fork_child env mp (v # news) (w # olds) s = fork_child env mp news olds s1"
    "vmareas s1 = (vmareas s)(v \<mapsto> n')" "objs_grow v (mmobjs s) (mmobjs s1)" "slab_room (mmobj_slab env) k (mmobjs s1)"
proof (cases "has_flag (vma_flags n) (MAP_PRIVATE (cfg env))")
  case True
  obtain sh where sh: "mmobj_slab env (mmobjs s) = Some sh" "mmobjs s sh = None"
    using slab_room_slab [OF room] fresh by (auto simp: allocs_fresh_def)
  obtain b mb vs where b: "mmobjs s b = Some mb" "mmo_un_f mb = mmo_vmas vs" "set vs \<inter> V = {}" "b \<noteq> sh"
    and over: "shadow_over env a s = Ret (Some (sh, b))
       (s\<lparr>mmobjs := (mmobjs s)(sh \<mapsto> new_shadow\<lparr>mmo_shadowed := Some ob, mmo_un_f := mmo_bottom_obj (Some b)\<rparr>)\<rparr>)"
    by (rule shadow_over_ok [OF bot(1) a(3) sh])
  define h where "h = (mmobjs s)(sh \<mapsto> new_shadow\<lparr>mmo_shadowed := Some ob, mmo_un_f := mmo_bottom_obj (Some b)\<rparr>,
    b \<mapsto> mb\<lparr>mmo_un_f := mmo_vmas (vs @ [v])\<rparr>)"
  have g: "objs_grow v (mmobjs s) h" unfolding h_def by (rule objs_grow_link [OF sh(2) b(1,2)])
  obtain mo where mo: "h ob = Some mo" "0 < mmo_refcount mo" using bot(1) objs_growD [OF g] by (fastforce simp: bottomed_def)
  have d: "dom h = insert sh (dom (mmobjs s))" using b(1) by (auto simp: h_def)
  let ?n = "n\<lparr>vma_olink := Some b, vma_obj := Some sh\<rparr>"
  let ?s = "s\<lparr>vmareas := (vmareas s)(v \<mapsto> ?n), mmobjs := h(ob \<mapsto> mo\<lparr>mmo_refcount := mmo_refcount mo + 1\<rparr>)\<rparr>"
  have "v \<notin> set vs" using b(3) bot(2) by auto
  then have "olink_insert b v (s\<lparr>mmobjs := (mmobjs s)(sh \<mapsto> new_shadow\<lparr>mmo_shadowed := Some ob, mmo_un_f := mmo_bottom_obj (Some b)\<rparr>)\<rparr>)
    = Ret () (s\<lparr>mmobjs := h, vmareas := (vmareas s)(v \<mapsto> n\<lparr>vma_olink := Some b\<rparr>)\<rparr>)"
    using b a(1) by (simp add: olink_insert_def h_def vma_upd_def)
  then have "fork_child env mp (v # news) (w # olds) s = fork_child env mp news olds ?s"
    using True a over mo by (simp add: vma_upd_def mmo_ref_eq)
  moreover have "dom (h(ob \<mapsto> mo\<lparr>mmo_refcount := mmo_refcount mo + 1\<rparr>)) = insert sh (dom (mmobjs s))" using d mo(1) by auto
  from slab_room_new [OF room this] sh(2) have "slab_room (mmobj_slab env) k (mmobjs ?s)" by auto
  ultimately show thesis using that [of ?s ?n] objs_grow_trans_ref [OF g mo(1)] by simp
next
  case False
  obtain mo where mo: "mmobjs s ob = Some mo" "0 < mmo_refcount mo" using bot(1) by (auto simp: bottomed_def)
  define n' where "n' = (if has_flag (vma_flags n) (MAP_SHARED (cfg env)) then n\<lparr>vma_obj := vma_obj a\<rparr> else n)"
  let ?s = "s\<lparr>vmareas := (vmareas s)(v \<mapsto> n'), mmobjs := (mmobjs s)(ob \<mapsto> mo\<lparr>mmo_refcount := mmo_refcount mo + 1\<rparr>)\<rparr>"
  have "fork_child env mp (v # news) (w # olds) s = fork_child env mp news olds ?s"
    using False a mo by (auto simp: vma_upd_def mmo_ref_eq n'_def fun_upd_idem)
  moreover have "dom ((mmobjs s)(ob \<mapsto> mo\<lparr>mmo_refcount := mmo_refcount mo + 1\<rparr>)) = dom (mmobjs s)" using mo(1) by auto
  then have "slab_room (mmobj_slab env) k (mmobjs ?s)" using slab_room_same [OF room] by simp
  ultimately show thesis using that [of ?s n'] objs_grow_trans_ref [of v "mmobjs s", OF objs_grow_refl mo(1)] by simp
qed

text \<open>The loops over all areas.\<close>

definition area_ready :: "kstate \<Rightarrow> ptr set \<Rightarrow> ptr \<Rightarrow> bool" where
  "area_ready s V w \<longleftrightarrow> (\<exists>a ob. vmareas s w = Some a \<and> vma_obj a = Some ob \<and> bottomed (mmobjs s) V ob)"

lemma fork_child_succeeds:
  assumes fresh: "allocs_fresh env" and "length news = length olds" and "distinct news" and "set news \<inter> set olds = {}"
    and "\<forall>v\<in>set news. vmareas s v \<noteq> None" and "\<forall>w\<in>set olds \<union> W. area_ready s (set news) w" and "set news \<inter> W = {}"
    and "slab_room (mmobj_slab env) (length news + k) (mmobjs s)"
  shows "\<exists>s'. fork_child env mp news olds s = Ret (Inr ()) s' \<and> (\<forall>w\<in>W. area_ready s' {} w) \<and> slab_room (mmobj_slab env) k (mmobjs s')"
  using assms(2-8)
proof (induction news olds arbitrary: s rule: list_induct2)
  case Nil
  then show ?case by auto
next
  case (Cons v news w olds)
  obtain n where n: "vmareas s v = Some n" using Cons.prems(3) by auto
  obtain a ob where a: "vmareas s w = Some a" "vma_obj a = Some ob" "bottomed (mmobjs s) (set (v # news)) ob"
    using Cons.prems(4) by (auto simp: area_ready_def)
  have room: "slab_room (mmobj_slab env) (Suc (length news + k)) (mmobjs s)" using Cons.prems(6) by simp
  obtain s1 n' where s1: "fork_child env mp (v # news) (w # olds) s = fork_child env mp news olds s1"
    "vmareas s1 = (vmareas s)(v \<mapsto> n')" "objs_grow v (mmobjs s) (mmobjs s1)" "slab_room (mmobj_slab env) (length news + k) (mmobjs s1)"
    by (rule fork_child_step [OF fresh n a _ room]) simp_all
  have "area_ready s1 (set news) x" if "x \<in> set olds \<union> W" for x
  proof -
    have "x \<noteq> v" using that Cons.prems(2,5) by auto
    moreover have "set news \<subseteq> set (v # news) - {v}" using Cons.prems(1) by auto
    ultimately show ?thesis
      using Cons.prems(4) that s1(2) bottomed_grow [OF _ s1(3)] unfolding area_ready_def by (metis UnCI fun_upd_other list.set_intros(2) set_append append_Cons UnE)
  qed
  then show ?case unfolding s1(1) using Cons.prems s1(2,4) by (intro Cons.IH) auto
qed

lemma fork_parent_succeeds:
  assumes fresh: "allocs_fresh env" and "\<forall>w\<in>set olds. area_ready s {} w" and "distinct olds" and "slab_room (mmobj_slab env) (length olds) (mmobjs s)"
  shows "\<exists>s'. fork_parent env mp olds s = Ret (Inr ()) s'"
  using assms(2-4)
proof (induction olds arbitrary: s)
  case (Cons w olds)
  obtain a ob where a: "vmareas s w = Some a" "vma_obj a = Some ob" "bottomed (mmobjs s) {} ob"
    using Cons.prems(1) by (auto simp: area_ready_def)
  have room: "slab_room (mmobj_slab env) (Suc (length olds)) (mmobjs s)" using Cons.prems(3) by simp
  show ?case
  proof (cases "has_flag (vma_flags a) (MAP_PRIVATE (cfg env))")
    case True
    obtain sh where sh: "mmobj_slab env (mmobjs s) = Some sh" "mmobjs s sh = None"
      using slab_room_slab [OF room] fresh by (auto simp: allocs_fresh_def)
    obtain x where over: "\<exists>b. shadow_over env a s = Ret (Some (sh, b)) (s\<lparr>mmobjs := (mmobjs s)(sh \<mapsto> x)\<rparr>)"
      using shadow_over_ok [OF a(3,2) sh] by metis
    let ?s = "s\<lparr>mmobjs := (mmobjs s)(sh \<mapsto> x), vmareas := (vmareas s)(w \<mapsto> a\<lparr>vma_obj := Some sh\<rparr>)\<rparr>"
    have g: "objs_grow v (mmobjs s) (mmobjs ?s)" for v using sh(2) by (auto simp: objs_grow_def)
    have "\<forall>u\<in>set olds. area_ready ?s {} u"
      using Cons.prems(1,2) bottomed_grow [OF _ g, of "{}"] by (fastforce simp: area_ready_def)
    moreover have "slab_room (mmobj_slab env) (length olds) (mmobjs ?s)" using slab_room_new [OF room, of "mmobjs ?s" sh] sh(2) by auto
    ultimately obtain s' where "fork_parent env mp olds ?s = Ret (Inr ()) s'" using Cons.IH [of ?s] Cons.prems(2) unfolding distinct.simps by blast
    then show ?thesis using over True a by (auto simp: vma_upd_def)
  next
    case False
    have "slab_room (mmobj_slab env) (length olds) (mmobjs s)" using slab_room_same [OF room] by simp
    then show ?thesis using False a Cons.IH [of s] Cons.prems by simp
  qed
qed simp

text \<open>
  C1: fork shares a private area without copying it. With memory for a shadow object for each area of the parent and of the child, and
  objects whose chains are complete, the two loops of \<open>do_fork\<close> over the areas succeed; then the area of the
  parent and its copy in the child have two different new shadow objects over the object that the
  area had, and through each of them every page reads as the parent read it before.
\<close>

theorem fork_shares_private_area:
  assumes wf: "pages_wf env s" and fresh: "allocs_fresh env" and d: "distinct news" "distinct olds" "set news \<inter> set olds = {}"
    and len: "length news = length olds" and new: "\<forall>v\<in>set news. vmareas s v \<noteq> None"
    and old: "\<forall>w\<in>set olds. area_ready s (set news) w" and room: "slab_room (mmobj_slab env) (length news + length olds) (mmobjs s)"
    and area: "(v, w) \<in> set (zip news olds)" "vmareas s v = Some n" "vmareas s w = Some a" "vma_flags n = vma_flags a"
      "has_flag (vma_flags a) (MAP_PRIVATE (cfg env))"
  shows "\<exists>s1 s' ob pa ch l. fork_child env mp news olds s = Ret (Inr ()) s1 \<and> fork_parent env mp olds s1 = Ret (Inr ()) s'
    \<and> vma_obj a = Some ob \<and> pa \<noteq> ch
    \<and> vmareas s' w = Some (a\<lparr>vma_obj := Some pa\<rparr>) \<and> shadows s' pa ob
    \<and> vmareas s' v = Some (n\<lparr>vma_olink := Some l, vma_obj := Some ch\<rparr>) \<and> shadows s' ch ob
    \<and> (\<forall>obs i b. reads s (ob # obs) i b \<longrightarrow> reads s' (pa # ob # obs) i b \<and> reads s' (ch # ob # obs) i b)"
proof -
  obtain s1 where c: "fork_child env mp news olds s = Ret (Inr ()) s1" "\<forall>w\<in>set olds. area_ready s1 {} w"
    "slab_room (mmobj_slab env) (length olds) (mmobjs s1)"
    using fork_child_succeeds [OF fresh len d(1,3) new _ d(3) room, of mp] old by auto
  obtain s' where p: "fork_parent env mp olds s1 = Ret (Inr ()) s'"
    using fork_parent_succeeds [OF fresh c(2) d(2) c(3)] by blast
  show ?thesis using fork_areas_shared [OF wf fresh d c(1) p area] c(1) p by blast
qed

definition fork_area :: vmarea where "fork_area = cow_area\<lparr>vma_id := 2, vma_vmmap := Some 2, vma_obj := None\<rparr>"

definition fork_space :: kstate where "fork_space = cow_space\<lparr>vmareas := [1 \<mapsto> cow_area, 2 \<mapsto> fork_area]\<rparr>"

lemma fork_space_wf: "pages_wf example_env fork_space"
proof -
  have "pages_wf example_env fork_space = pages_wf example_env cow_space"
    unfolding pages_wf_def fork_space_def
    by (simp add: lists_wf_cong [of "cow_space\<lparr>vmareas := h\<rparr>" cow_space for h] hash_wf_cong [of "cow_space\<lparr>vmareas := h\<rparr>" cow_space for h]
        objs_wf_cong [of "cow_space\<lparr>vmareas := h\<rparr>" cow_space for h] addrs_wf_cong [of "cow_space\<lparr>vmareas := h\<rparr>" cow_space for h])
  then show ?thesis using cow_space_wf by simp
qed

lemmas fork_space_simps = fork_space_def fork_area_def cow_area_def cow_space_def example_t1_simps

lemma fork_space_ready: "area_ready fork_space {2} 1" "slab_room (mmobj_slab example_env) 2 (mmobjs fork_space)"
proof -
  show "area_ready fork_space {2} 1"
    unfolding area_ready_def bottomed_def by (simp add: fork_space_simps, rule exI [of _ "Suc 0"], simp)
  have c: "dom (mmobjs fork_space) = {1, 2}" by (auto simp: fork_space_simps split: if_splits)
  show "slab_room (mmobj_slab example_env) 2 (mmobjs fork_space)" unfolding example_env_sel
    by (rule first_free_slab_room) (simp_all add: c)
qed

theorem fork_shares_private_area_witness:
  "\<exists>s1 s' pa ch l. fork_child example_env 2 [2] [1] fork_space = Ret (Inr ()) s1 \<and> fork_parent example_env 2 [1] s1 = Ret (Inr ()) s'
    \<and> pa \<noteq> ch \<and> vmareas s' 1 = Some (cow_area\<lparr>vma_obj := Some pa\<rparr>)
    \<and> vmareas s' 2 = Some (fork_area\<lparr>vma_olink := Some l, vma_obj := Some ch\<rparr>)
    \<and> reads s' [pa, 2, 1] 7 (page_bytes fork_space 0x1000) \<and> reads s' [ch, 2, 1] 7 (page_bytes fork_space 0x1000)"
proof -
  have "reads fork_space [2, 1] 7 (page_bytes fork_space 0x1000)" unfolding reads_def
    by (rule exI [of _ 1], rule exI [of _ "fresh_frame 1 7 0x1000"]) (simp add: holds_page_def fork_space_simps)
  moreover have "\<exists>s1 s' ob pa ch l. fork_child example_env 2 [2] [1] fork_space = Ret (Inr ()) s1 \<and> fork_parent example_env 2 [1] s1 = Ret (Inr ()) s'
    \<and> vma_obj cow_area = Some ob \<and> pa \<noteq> ch
    \<and> vmareas s' 1 = Some (cow_area\<lparr>vma_obj := Some pa\<rparr>) \<and> shadows s' pa ob
    \<and> vmareas s' 2 = Some (fork_area\<lparr>vma_olink := Some l, vma_obj := Some ch\<rparr>) \<and> shadows s' ch ob
    \<and> (\<forall>obs i b. reads fork_space (ob # obs) i b \<longrightarrow> reads s' (pa # ob # obs) i b \<and> reads s' (ch # ob # obs) i b)"
  proof (rule fork_shares_private_area [OF fork_space_wf example_env_fresh])
    show "\<forall>w\<in>set [1]. area_ready fork_space (set [2]) w" using fork_space_ready(1) by simp
    show "slab_room (mmobj_slab example_env) (length [2::ptr] + length [1::ptr]) (mmobjs fork_space)"
      using fork_space_ready(2) by (simp add: numeral_2_eq_2)
  qed (simp_all add: fork_space_def fork_area_def cow_area_def has_flag_def example_env_def example_cfg_def)
  then obtain s1 s' ob pa ch l where r: "fork_child example_env 2 [2] [1] fork_space = Ret (Inr ()) s1" "fork_parent example_env 2 [1] s1 = Ret (Inr ()) s'"
    and o: "vma_obj cow_area = Some ob" and a: "pa \<noteq> ch" "vmareas s' 1 = Some (cow_area\<lparr>vma_obj := Some pa\<rparr>)"
    "vmareas s' 2 = Some (fork_area\<lparr>vma_olink := Some l, vma_obj := Some ch\<rparr>)"
    and b: "\<forall>obs i b. reads fork_space (ob # obs) i b \<longrightarrow> reads s' (pa # ob # obs) i b \<and> reads s' (ch # ob # obs) i b" by blast
  have "ob = 2" using o by (simp add: cow_area_def)
  ultimately show ?thesis using r a b by blast
qed

end
