(* ===== verification/Usercopy.thy ===== *)
theory Usercopy
  imports Fork
begin

text \<open>
  What the copies of \<open>src/kernel/api/access.c\<close> do to memory, through the address space, the memory objects and the page
  frames below them: a copy from user memory delivers the bytes the process sees, and a copy to user memory writes them.
\<close>

section \<open>Copies between the kernel and a process\<close>

lemma vfns_single: "vfns v v = [v]"
  by (simp add: vfns_def)

lemma one_page:
  fixes ua n :: u32
  assumes "0 < n" and "unat ua mod 4096 + unat n \<le> 4096"
  shows "ADDR_TO_PN (last_vaddr ua n) = ADDR_TO_PN ua" "unat ua + unat n \<le> 2 ^ 32"
proof -
  have n: "0 < unat n" using assms(1) by (simp add: word_less_nat_alt)
  have "unat ua < 2 ^ 32" using unsigned_less [of ua, where ?'a = nat] by simp
  then have "unat ua div 4096 < 1048576" by simp
  moreover have d: "unat ua = unat ua div 4096 * 4096 + unat ua mod 4096" by simp
  ultimately have "unat ua + unat n \<le> 4294967296" using assms(2) by linarith
  then show w: "unat ua + unat n \<le> 2 ^ 32" by simp
  have e: "unat ua + unat n - 1 = (unat ua mod 4096 + unat n - 1) + unat ua div 4096 * 4096" using n d by linarith
  have "unat ua mod 4096 + unat n - 1 < 4096" using n assms(2) by linarith
  then have "(unat ua + unat n - 1) div 4096 = unat ua div 4096" unfolding e by (simp del: One_nat_def)
  then show "ADDR_TO_PN (last_vaddr ua n) = ADDR_TO_PN ua"
    by (simp add: word_unat_eq_iff unat_ADDR_TO_PN last_vaddr_def unat_last [OF assms(1) w])
qed

lemma page_chunk_one:
  assumes "unat ua mod 4096 + unat n \<le> 4096" and "unat a + 4096 + unat n < 2 ^ 32"
  shows "page_chunk ua n (ADDR_TO_PN ua) a = (a + PAGE_OFFSET ua, n)"
proof -
  have "unat (snd (page_chunk ua n (ADDR_TO_PN ua) a)) = unat n" using assms by (simp add: page_chunk_first)
  moreover have "fst (page_chunk ua n (ADDR_TO_PN ua) a) = a + PAGE_OFFSET ua" by (simp add: page_chunk_def Let_def)
  ultimately show ?thesis by (simp add: prod_eq_iff word_unat_eq_iff)
qed

lemma offset_in_page:
  assumes "unat ua mod 4096 + unat n \<le> 4096" and "i < n"
  shows "PAGE_OFFSET ua + i < PAGE_SIZE"
proof -
  have "unat (PAGE_OFFSET ua) + unat i < 4096" using assms by (simp add: unat_PAGE_OFFSET word_less_nat_alt)
  then show ?thesis by (simp add: word_less_nat_alt PAGE_SIZE_def unat_add_small)
qed

text \<open>
  \<open>user_page env s ua n perm pr mp vma obs q g\<close>: the \<open>n\<close> bytes from \<open>ua\<close> lie on one page of the current process \<open>pr\<close>,
  in an area that has the permission, and reading the page finds it in frame \<open>q\<close>.
\<close>

definition user_page ::
  "kenv \<Rightarrow> kstate \<Rightarrow> u32 \<Rightarrow> u32 \<Rightarrow> u32 \<Rightarrow> proc \<Rightarrow> vmarea \<Rightarrow> ptr list \<Rightarrow> ptr \<Rightarrow> pframe \<Rightarrow> bool" where
  "user_page env s ua n perm pr vma obs q g \<longleftrightarrow> pages_wf env s \<and> faulting s ua pr vma \<and> vma_prot vma AND perm = perm
     \<and> 0 < n \<and> unat ua mod 4096 + unat n \<le> 4096 \<and> obs \<noteq> [] \<and> vma_obj vma = Some (hd obs)
     \<and> resolves s obs (fault_page ua vma) q \<and> lookup_ok s obs (fault_page ua vma) \<and> length obs \<le> chain_fuel env \<and> 2 \<le> chain_fuel env
     \<and> pframes s q = Some g \<and> \<not> pf_busy g \<and> unat (pf_addr g) + 4096 + unat n < 2 ^ 32"

lemma user_page_access:
  assumes u: "user_page env s ua n perm pr vma obs q g"
  obtains p mp where "cur_proc s = Ret (p, pr) s" "p_vmmap pr = Some mp" "range_perm env pr ua n perm s = Ret True s"
    "map_frame env mp (ADDR_TO_PN ua) s = Ret (Inr q) (touched q s)"
proof -
  have n: "0 < n" "unat ua mod 4096 + unat n \<le> 4096" using u by (auto simp: user_page_def)
  note page = one_page [OF n]
  obtain p mp m where c: "curproc s = Some p" "procs s p = Some pr" "p_vmmap pr = Some mp"
    "load_map mp s = Ret m s" "vmmap_lookup m (ADDR_TO_PN ua) = Some vma"
    using u by (auto simp: user_page_def faulting_def)
  have al: "allows s mp perm (ADDR_TO_PN ua)"
    using c(4,5) u by (auto simp: allows_def areas_def view_def vmmap_lookup_covers page_of_def user_page_def)
  have same: "ADDR_TO_PN b = ADDR_TO_PN ua" if "unat ua \<le> unat b" "unat b < unat ua + unat n" for b
  proof -
    have "unat b div 4096 \<le> (unat ua + unat n - 1) div 4096" "unat ua div 4096 \<le> unat b div 4096"
      using that by (auto intro: div_le_mono)
    moreover have "(unat ua + unat n - 1) div 4096 = unat ua div 4096"
      using page(1) unat_last [OF n(1) page(2)] by (simp add: word_unat_eq_iff unat_ADDR_TO_PN last_vaddr_def)
    ultimately show ?thesis by (simp add: word_unat_eq_iff unat_ADDR_TO_PN)
  qed
  have all: "\<forall>b. unat ua \<le> unat b \<and> unat b < unat ua + unat n \<longrightarrow> allows s mp perm (ADDR_TO_PN b)"
    using al same by metis
  have "map_loaded s mp" using c(4) by (auto simp: map_loaded_def)
  from range_perm_iff [OF this c(3) n(1) page(2), of env perm]
  have "range_perm env pr ua n perm s = Ret True s" unfolding eqTrueI [OF all] .
  moreover obtain ob os where obs: "obs = ob # os" using u by (cases obs) (auto simp: user_page_def)
  have u': "pages_wf env s" "resolves s (ob # os) (fault_page ua vma) q" "lookup_ok s (ob # os) (fault_page ua vma)"
    "length os < chain_fuel env" "2 \<le> chain_fuel env" "pframes s q = Some g" "\<not> pf_busy g" "vma_obj vma = Some ob"
    using u obs by (auto simp: user_page_def)
  obtain k where k: "chain_fuel env = Suc (Suc k)" using le_Suc_ex [OF u'(5)] by (auto simp: eval_nat_numeral)
  have "mmo_lookuppage (chain_fuel env) env ob (fault_page ua vma) False s = Ret (Inr q) (touched q s)"
    unfolding k by (rule read_lookup_resolves [OF u'(1,2,6,7,3,4)])
  then have "map_frame env mp (ADDR_TO_PN ua) s = Ret (Inr q) (touched q s)"
    using c(4,5) u'(8) by (simp add: map_frame_def pframe_lookup_def fault_page_def del: mmo_lookuppage.simps)
  ultimately show thesis using that c(1-3) by (simp add: cur_proc_def)
qed

lemma copy_from_user_eq:
  assumes u: "user_page env s ua n (PROT_READ (cfg env)) pr vma obs q g"
  shows "copy_from_user env ka ua n s = Ret (Inr ()) (memcpy ka (pf_addr g + PAGE_OFFSET ua) n (touched q s))"
proof -
  obtain p mp where c: "cur_proc s = Ret (p, pr) s" "p_vmmap pr = Some mp" "range_perm env pr ua n (PROT_READ (cfg env)) s = Ret True s"
    "map_frame env mp (ADDR_TO_PN ua) s = Ret (Inr q) (touched q s)"
    by (rule user_page_access [OF u])
  have n: "0 < n" "unat ua mod 4096 + unat n \<le> 4096" "unat (pf_addr g) + 4096 + unat n < 2 ^ 32" "pframes s q = Some g"
    using u by (auto simp: user_page_def)
  show ?thesis
    using c n by (simp add: copy_from_user_def vmmap_read_def one_page(1) [OF n(1,2)] vfns_single page_chunk_one [OF n(2,3)])
qed

lemma user_page_offset: "user_page env s ua n perm pr vma obs q g \<Longrightarrow> i < n \<Longrightarrow> PAGE_OFFSET ua + i < PAGE_SIZE"
  by (rule offset_in_page) (auto simp: user_page_def)

text \<open>
  C10: \<open>copy_from_user\<close> gives the kernel the bytes of the process. For a range on one page that the process may read,
  it succeeds, the kernel buffer holds the bytes that the process sees at the addresses, and no other byte of memory changes.
\<close>

theorem copy_from_user_copies:
  assumes u: "user_page env s ua n (PROT_READ (cfg env)) pr vma obs q g"
  shows "\<exists>s'. copy_from_user env ka ua n s = Ret (Inr ()) s'
    \<and> (\<forall>i. i < n \<longrightarrow> kmem s' (ka + i) = page_bytes s (pf_addr g) (PAGE_OFFSET ua + i))
    \<and> (\<forall>a. \<not> a - ka < n \<longrightarrow> kmem s' a = kmem s a)"
  using copy_from_user_eq [OF u, of ka] user_page_offset [OF u] by (simp add: memcpy_def page_bytes_def add.assoc)

lemma cow_user_page:
  assumes "perm \<in> {1, 2}"
  shows "user_page example_env cow_space 0x407123 16 perm example_proc cow_area [2, 1] 1 (fresh_frame 1 7 0x1000)"
proof -
  have c: "chain_fuel example_env = 16" by (simp add: example_env_def)
  have a: "vma_prot cow_area AND perm = perm" "vma_obj cow_area = Some 2" using assms by (auto simp: cow_area_def)
  have g: "pframes cow_space 1 = Some (fresh_frame 1 7 0x1000)" by (simp add: example_t1_simps)
  show ?thesis unfolding user_page_def cow_fault_page
    using a g c by (intro conjI cow_space_wf cow_faulting cow_resolves) simp_all
qed

theorem copy_from_user_copies_witness:
  "\<exists>s'. copy_from_user example_env 0x9000 0x407123 16 cow_space = Ret (Inr ()) s'
    \<and> kmem s' 0x9004 = page_bytes cow_space 0x1000 0x127 \<and> kmem s' 0x9010 = kmem cow_space 0x9010"
proof -
  have r: "PROT_READ (cfg example_env) \<in> {1, 2}" by (simp add: example_env_def example_cfg_def)
  obtain s' where "copy_from_user example_env 0x9000 0x407123 16 cow_space = Ret (Inr ()) s'"
    and b: "\<forall>i. i < 16 \<longrightarrow> kmem s' (0x9000 + i) = page_bytes cow_space (pf_addr (fresh_frame 1 7 0x1000)) (PAGE_OFFSET 0x407123 + i)"
    and k: "\<forall>a. \<not> a - 0x9000 < 16 \<longrightarrow> kmem s' a = kmem cow_space a"
    using copy_from_user_copies [OF cow_user_page [OF r], where ka = "0x9000"] by blast
  moreover have "kmem s' 0x9004 = page_bytes cow_space 0x1000 0x127" using spec [OF b, of 4] by (simp add: PAGE_OFFSET_def)
  moreover have "kmem s' 0x9010 = kmem cow_space 0x9010" using spec [OF k, of "0x9010"] by simp
  ultimately show ?thesis by blast
qed

lemma resolves_same_pages:
  "holds_page s' = holds_page s \<Longrightarrow> mmobjs s' = mmobjs s \<Longrightarrow> resolves s' obs n q = resolves s obs n q"
  by (induction s obs n q rule: resolves.induct) simp_all

lemma pframe_dirty_object:
  assumes g: "pframes s q = Some g" "\<not> pf_busy g" and ob: "pf_obj g = Some b" "mmobjs s b = Some mb" "mmo_ops mb \<noteq> vnode_mmobj_ops"
    and quiet: "qlist s (PFWAITQ q) = []"
  shows "pframe_dirty env q s = Ret (Inr ()) (s\<lparr>pframes := (pframes s)(q \<mapsto> g\<lparr>pf_dirty := True\<rparr>)\<rparr>)"
proof -
  have e: "g\<lparr>pf_dirty := True, pf_busy := False\<rparr> = g\<lparr>pf_dirty := True\<rparr>" using g(2) by (cases g) simp
  show ?thesis
    using g ob quiet mmo_dirtypage_eq [of "s\<lparr>pframes := (pframes s)(q \<mapsto> g\<lparr>pf_busy := True\<rparr>)\<rparr>" b mb q "g\<lparr>pf_busy := True\<rparr>" env]
    by (simp add: pframe_dirty_def sched_broadcast_empty e)
qed

text \<open>The state after a copy to a page in frame \<open>q\<close>: the frame is dirty and holds the bytes.\<close>

definition copied_out :: "ptr \<Rightarrow> pframe \<Rightarrow> u32 \<Rightarrow> u32 \<Rightarrow> u32 \<Rightarrow> kstate \<Rightarrow> kstate" where
  "copied_out q g ua ka n s =
     memcpy (pf_addr g + PAGE_OFFSET ua) ka n ((touched q s)\<lparr>pframes := (pframes s)(q \<mapsto> g\<lparr>pf_dirty := True\<rparr>)\<rparr>)"

lemma copy_to_user_eq:
  assumes u: "user_page env s ua n (PROT_WRITE (cfg env)) pr vma obs q g"
    and below: "pf_obj g = Some b" "mmobjs s b = Some mb" "mmo_ops mb \<noteq> vnode_mmobj_ops" and quiet: "qlist s (PFWAITQ q) = []"
  shows "copy_to_user env ua ka n s = Ret (Inr ()) (copied_out q g ua ka n s)"
proof -
  obtain p mp where c: "cur_proc s = Ret (p, pr) s" "p_vmmap pr = Some mp" "range_perm env pr ua n (PROT_WRITE (cfg env)) s = Ret True s"
    "map_frame env mp (ADDR_TO_PN ua) s = Ret (Inr q) (touched q s)"
    by (rule user_page_access [OF u])
  have n: "0 < n" "unat ua mod 4096 + unat n \<le> 4096" "unat (pf_addr g) + 4096 + unat n < 2 ^ 32" "pframes s q = Some g" "\<not> pf_busy g"
    using u by (auto simp: user_page_def)
  have d: "pframe_dirty env q (touched q s) = Ret (Inr ()) ((touched q s)\<lparr>pframes := (pframes s)(q \<mapsto> g\<lparr>pf_dirty := True\<rparr>)\<rparr>)"
    using pframe_dirty_object [of "touched q s" q g b mb env] n below quiet by simp
  show ?thesis
    using c n d by (simp add: copy_to_user_def vmmap_write_def one_page(1) [OF n(1,2)] vfns_single page_chunk_one [OF n(2,3)] copied_out_def)
qed

lemma copied_out_bytes:
  "user_page env s ua n perm pr vma obs q g \<Longrightarrow> i < n \<Longrightarrow>
    page_bytes (copied_out q g ua ka n s) (pf_addr g) (PAGE_OFFSET ua + i) = kmem s (ka + i)"
  using user_page_offset [of env s ua n perm pr vma obs q g i] by (simp add: copied_out_def memcpy_def page_bytes_def add.assoc)

text \<open>
  C36: \<open>copy_to_user\<close> breaks copy on write. In a private area whose shadow object does not have the page yet, it writes into
  the frame of the object below, which every other process that shares the object reads, and the shadow
  object gets no page of its own.
\<close>

theorem copy_to_user_writes_shared:
  assumes u: "user_page env s ua n (PROT_WRITE (cfg env)) pr vma (ob # sh # obs) q g"
    and below: "pf_obj g = Some b" "mmobjs s b = Some mb" "mmo_ops mb \<noteq> vnode_mmobj_ops" and quiet: "qlist s (PFWAITQ q) = []"
  shows "\<exists>s'. copy_to_user env ua ka n s = Ret (Inr ()) s' \<and> resolves s' (sh # obs) (fault_page ua vma) q
    \<and> (\<forall>i. i < n \<longrightarrow> page_bytes s' (pf_addr g) (PAGE_OFFSET ua + i) = kmem s (ka + i))
    \<and> (\<forall>p. \<not> holds_page s' p ob (fault_page ua vma))"
proof -
  let ?s = "copied_out q g ua ka n s"
  have r: "resolves s (ob # sh # obs) (fault_page ua vma) q" and g: "pframes s q = Some g" using u by (auto simp: user_page_def)
  have "holds_page ?s = holds_page s" using g by (auto simp: holds_page_def copied_out_def memcpy_def fun_eq_iff)
  then have "resolves ?s (sh # obs) (fault_page ua vma) q" "\<forall>p. \<not> holds_page ?s p ob (fault_page ua vma)"
    using r resolves_same_pages [of ?s s] by (simp_all add: copied_out_def memcpy_def)
  then show ?thesis using copy_to_user_eq [OF u below quiet, of ka] copied_out_bytes [OF u, of _ ka] by blast
qed

theorem copy_to_user_writes_shared_witness:
  "\<exists>s'. copy_to_user example_env 0x407123 0x9000 16 cow_space = Ret (Inr ()) s' \<and> resolves s' [1] 7 1
    \<and> page_bytes s' 0x1000 0x127 = kmem cow_space 0x9004 \<and> \<not> holds_page s' 2 2 7"
proof -
  have w: "PROT_WRITE (cfg example_env) \<in> {1, 2}" by (simp add: example_env_def example_cfg_def)
  have o: "pf_obj (fresh_frame 1 7 0x1000) = Some 1" "mmobjs cow_space 1 = Some (the (mmobjs cow_space 1))"
    "mmo_ops (the (mmobjs cow_space 1)) \<noteq> vnode_mmobj_ops" "qlist cow_space (PFWAITQ 1) = []"
    by (simp_all add: example_t1_simps cow_space_def)
  obtain s' where c: "copy_to_user example_env 0x407123 0x9000 16 cow_space = Ret (Inr ()) s'" "resolves s' [1] 7 1"
    and b: "\<forall>i. i < 16 \<longrightarrow> page_bytes s' (pf_addr (fresh_frame 1 7 0x1000)) (PAGE_OFFSET 0x407123 + i) = kmem cow_space (0x9000 + i)"
    and h: "\<forall>p. \<not> holds_page s' p 2 7"
    using copy_to_user_writes_shared [OF cow_user_page [OF w], where b = 1 and mb = "the (mmobjs cow_space 1)" and ka = "0x9000", unfolded cow_fault_page, OF o] by blast
  moreover have "page_bytes s' 0x1000 0x127 = kmem cow_space 0x9004" using spec [OF b, of 4] by (simp add: PAGE_OFFSET_def)
  ultimately show ?thesis by blast
qed

end
