(* ===== verification/Syscall.thy ===== *)
theory Syscall
  imports Usercopy
begin

text \<open>
  System calls, \<open>src/kernel/api/syscall.c\<close>: the handler of the system call interrupt, the dispatch on the number of
  the call, and one operation per call, which copies its arguments from the memory of the process, calls the kernel
  and leaves the error number in the thread.

  How arguments lie in memory, the numbers of the calls and the addresses of local variables come from headers and from
  the compiler and are fields of \<open>sysabi\<close>, as are \<open>do_execve\<close> and the kernel shell, which are not part of
  the sources. A C \<open>int\<close> that a call returns is a 32-bit word. \<open>n\<close> bounds the loops that wait or follow pointers.
  Mounting (\<open>sys_mount\<close>, \<open>sys_umount\<close>) is not compiled: \<open>Config.mk\<close> sets \<open>MOUNTING=0\<close>.
\<close>

section \<open>Arguments\<close>

record rw_args = rw_fd :: int rw_buf :: u32 rw_nbytes :: u32
record getdents_args = gd_fd :: int gd_dirp :: u32 gd_count :: u32
record dup2_args = d2_ofd :: int d2_nfd :: int
record link_args = la_to :: argstr la_from :: argstr
record rename_args = ra_oldname :: argstr ra_newname :: argstr
record lseek_args = ls_fd :: int ls_offset :: u32 ls_whence :: int
record open_args = op_filename :: argstr op_flags :: u32
record munmap_args = mu_addr :: u32 mu_len :: u32
record mmap_args = mma_addr :: u32 mma_len :: u32 mma_prot :: u32 mma_flags :: u32 mma_fd :: int mma_off :: u32
record waitpid_args = wpa_pid :: int wpa_options :: int wpa_status :: u32
record stat_args = st_path :: argstr st_buf :: u32
record execve_args = ex_filename :: argstr ex_argv :: argvec ex_envp :: argvec

datatype utsfield = sysname | release | version | nodename | machine

datatype syscall =
    SYS_waitpid | SYS_exit | SYS_thr_exit | SYS_thr_yield | SYS_fork | SYS_getpid | SYS_sync | SYS_mmap | SYS_munmap
  | SYS_open | SYS_close | SYS_read | SYS_write | SYS_dup | SYS_dup2 | SYS_mkdir | SYS_rmdir | SYS_unlink | SYS_link
  | SYS_rename | SYS_chdir | SYS_getdents | SYS_brk | SYS_lseek | SYS_halt | SYS_set_errno | SYS_errno | SYS_execve
  | SYS_stat | SYS_uname | SYS_debug | SYS_kshell

text \<open>The size of a structure, and how to read one from memory.\<close>

type_synonym 'a layout = "u32 \<times> ((u32 \<Rightarrow> u8) \<Rightarrow> u32 \<Rightarrow> 'a)"

record sysabi = argabi +
  syscall_of :: "u32 \<Rightarrow> syscall option"
  R_EDX_OFFSET :: u32
  local_args :: "kstate \<Rightarrow> u32"
  local_out :: "kstate \<Rightarrow> u32"
  read_layout :: "rw_args layout"
  write_layout :: "rw_args layout"
  getdents_layout :: "getdents_args layout"
  dup2_layout :: "dup2_args layout"
  mkdir_layout :: "argstr layout"
  link_layout :: "link_args layout"
  rename_layout :: "rename_args layout"
  lseek_layout :: "lseek_args layout"
  open_layout :: "open_args layout"
  munmap_layout :: "munmap_args layout"
  mmap_layout :: "mmap_args layout"
  waitpid_layout :: "waitpid_args layout"
  stat_layout :: "stat_args layout"
  execve_layout :: "execve_args layout"
  SIZEOF_STAT :: u32
  uts_offset :: "utsfield \<Rightarrow> u32"
  uts_string :: "utsfield \<Rightarrow> u32"
  do_execve :: "u32 \<Rightarrow> u32 \<Rightarrow> u32 \<Rightarrow> u32 \<Rightarrow> int kop"
  kshell_create :: "int \<Rightarrow> ptr option kop"
  kshell_execute_next :: "ptr \<Rightarrow> int kop"
  kshell_destroy :: "ptr \<Rightarrow> unit kop"

definition argstr_layout :: "sysabi \<Rightarrow> argstr layout" where
  "argstr_layout abi = (SIZEOF_ARGSTR abi, argstr_at abi)"

section \<open>Common steps\<close>

text \<open>\<open>curthr->kt_errno = e; return -1\<close>, and the end of most calls.\<close>

definition fail_with :: "kenv \<Rightarrow> errno \<Rightarrow> u32 kop" where
  "fail_with env e s = bindK (set_errno env e s) (\<lambda>_ s. Ret (- 1) s)"

definition ret_or_errno :: "kenv \<Rightarrow> ('a \<Rightarrow> u32) \<Rightarrow> errno + 'a \<Rightarrow> u32 kop" where
  "ret_or_errno env f r s = (case r of Inl e \<Rightarrow> fail_with env e s | Inr a \<Rightarrow> Ret (f a) s)"

text \<open>Copying the arguments to a local variable and reading them there.\<close>

definition get_args :: "kenv \<Rightarrow> sysabi \<Rightarrow> 'a layout \<Rightarrow> u32 \<Rightarrow> (errno + 'a) kop" where
  "get_args env abi l arg s =
     (let kern_args = local_args abi s in
      bindK (copy_from_user env kern_args arg (fst l) s) (\<lambda>r s.
        case r of
          Inl e \<Rightarrow> Ret (Inl e) s
        | Inr _ \<Rightarrow> Ret (Inr (snd l (kmem s) kern_args)) s))"

definition with_args :: "kenv \<Rightarrow> sysabi \<Rightarrow> 'a layout \<Rightarrow> u32 \<Rightarrow> ('a \<Rightarrow> u32 kop) \<Rightarrow> u32 kop" where
  "with_args env abi l arg body s =
     bindK (get_args env abi l arg s) (\<lambda>r s. case r of Inl e \<Rightarrow> fail_with env e s | Inr k \<Rightarrow> body k s)"

text \<open>
  The C string at an address: the characters before the first zero byte. A search through the whole memory that
  meets none would leave the address space.
\<close>

primrec string_from :: "nat \<Rightarrow> (u32 \<Rightarrow> u8) \<Rightarrow> u32 \<Rightarrow> string option" where
  "string_from 0 m a = None"
| "string_from (Suc n) m a =
     (if m a = 0 then Some [] else map_option (Cons (char_of (unat (m a)))) (string_from n m (a + 1)))"

definition string_at :: "u32 \<Rightarrow> string kop" where
  "string_at a s = (case string_from (2 ^ 32) (kmem s) a of None \<Rightarrow> Stop BAD_POINTER | Some str \<Rightarrow> Ret str s)"

definition with_path :: "kenv \<Rightarrow> argstr \<Rightarrow> (u32 \<Rightarrow> string \<Rightarrow> u32 kop) \<Rightarrow> u32 kop" where
  "with_path env ustr body s =
     bindK (user_strdup env ustr s) (\<lambda>r s.
       case r of
         None \<Rightarrow> fail_with env EINVAL s
       | Some path \<Rightarrow> bindK (string_at path s) (\<lambda>str s. body path str s))"

text \<open>A call on one path: copy the path, call the kernel, free the copy, return.\<close>

definition path_call :: "kenv \<Rightarrow> ('a \<Rightarrow> u32) \<Rightarrow> (string \<Rightarrow> (errno + 'a) kop) \<Rightarrow> argstr \<Rightarrow> u32 kop" where
  "path_call env f call ustr s =
     with_path env ustr (\<lambda>path str s.
       bindK (call str s) (\<lambda>err s.
       bindK (kfree env path s) (\<lambda>_ s.
         ret_or_errno env f err s))) s"

section \<open>Reading and writing\<close>

text \<open>\<open>page_alloc\<close> gives the null pointer when there is no page, and the caller does not look.\<close>

definition alloc_page :: "kenv \<Rightarrow> u32 kop" where
  "alloc_page env s =
     (case page_alloc env (pages_out s) of
        None \<Rightarrow> Ret 0 s
      | Some a \<Rightarrow> Ret a (s\<lparr>pages_out := a # pages_out s\<rparr>))"

definition free_page :: "u32 \<Rightarrow> unit kop" where
  "free_page a s =
     (if a \<in> set (pages_out s) then Ret () (s\<lparr>pages_out := remove1 a (pages_out s)\<rparr>) else Stop BAD_POINTER)"

text \<open>The two branches of the loop differ in the number of bytes only.\<close>

definition chunk :: "u32 \<Rightarrow> u32" where
  "chunk need = (if need \<ge> PAGE_SIZE then PAGE_SIZE else need)"

lemma chunk_progress: "0 < need \<Longrightarrow> unat (need - chunk need) < unat need"
proof -
  assume n: "0 < need"
  have "chunk need \<le> need" "0 < chunk need" using n by (auto simp: chunk_def PAGE_SIZE_def)
  then show ?thesis by (simp add: unat_sub word_le_nat_alt word_less_nat_alt)
qed

function read_loop :: "kenv \<Rightarrow> int \<Rightarrow> u32 \<Rightarrow> u32 \<Rightarrow> u32 \<Rightarrow> u32 kop" where
  "read_loop env fd buf need total_bytes s =
     (if \<not> 0 < need then Ret total_bytes s
      else bindK (alloc_page env s) (\<lambda>tmp_buf s.
           bindK (do_read env fd tmp_buf (chunk need) s) (\<lambda>bytes_read s.
             case bytes_read of
               Inl e \<Rightarrow> fail_with env e s
             | Inr k \<Rightarrow>
                 bindK (copy_to_user env buf tmp_buf (chunk need) s) (\<lambda>ret s.
                   case ret of
                     Inl e \<Rightarrow> fail_with env e s
                   | Inr _ \<Rightarrow>
                       bindK (free_page tmp_buf s) (\<lambda>_ s.
                         read_loop env fd buf (need - chunk need) (total_bytes + k) s)))))"
  by pat_completeness auto
termination by (relation "measure (\<lambda>(_, _, _, need, _, _). unat need)") (auto intro: chunk_progress)

function write_loop :: "kenv \<Rightarrow> int \<Rightarrow> u32 \<Rightarrow> u32 \<Rightarrow> u32 \<Rightarrow> u32 kop" where
  "write_loop env fd buf need total_bytes s =
     (if \<not> 0 < need then Ret total_bytes s
      else bindK (alloc_page env s) (\<lambda>tmp_buf s.
           bindK (copy_from_user env tmp_buf buf (chunk need) s) (\<lambda>ret s.
             case ret of
               Inl e \<Rightarrow> fail_with env e s
             | Inr _ \<Rightarrow>
                 bindK (do_write env fd tmp_buf (chunk need) s) (\<lambda>bytes_written s.
                   case bytes_written of
                     Inl e \<Rightarrow> fail_with env e s
                   | Inr k \<Rightarrow>
                       bindK (free_page tmp_buf s) (\<lambda>_ s.
                         write_loop env fd buf (need - chunk need) (total_bytes + k) s)))))"
  by pat_completeness auto
termination by (relation "measure (\<lambda>(_, _, _, need, _, _). unat need)") (auto intro: chunk_progress)

declare read_loop.simps [simp del] write_loop.simps [simp del]

definition sys_read :: "kenv \<Rightarrow> sysabi \<Rightarrow> u32 \<Rightarrow> u32 kop" where
  "sys_read env abi arg =
     with_args env abi (read_layout abi) arg (\<lambda>k. read_loop env (rw_fd k) (rw_buf k) (rw_nbytes k) 0)"

definition sys_write :: "kenv \<Rightarrow> sysabi \<Rightarrow> u32 \<Rightarrow> u32 kop" where
  "sys_write env abi arg =
     with_args env abi (write_layout abi) arg (\<lambda>k. write_loop env (rw_fd k) (rw_buf k) (rw_nbytes k) 0)"

text \<open>\<open>dirp\<close> is a local variable of \<open>sys_getdents\<close>.\<close>

primrec getdents_loop :: "nat \<Rightarrow> kenv \<Rightarrow> int \<Rightarrow> u32 \<Rightarrow> u32 \<Rightarrow> u32 \<Rightarrow> u32 \<Rightarrow> u32 kop" where
  "getdents_loop 0 env fd dirp buf count total_bytes s = Stop OUT_OF_FUEL"
| "getdents_loop (Suc n) env fd dirp buf count total_bytes s =
     (let size = of_nat (DIRENT_SIZE (cfg env)) in
      if \<not> total_bytes < count then Ret total_bytes s
      else bindK (do_getdent env fd dirp s) (\<lambda>bytes_read s.
             case bytes_read of
               Inl e \<Rightarrow> fail_with env e s
             | Inr k \<Rightarrow>
                 if k = 0 then Ret total_bytes s
                 else bindK (copy_to_user env (buf + total_bytes) dirp size s) (\<lambda>ret s.
                        case ret of
                          Inl e \<Rightarrow> fail_with env e s
                        | Inr _ \<Rightarrow> getdents_loop n env fd dirp buf count (total_bytes + size) s)))"

definition sys_getdents :: "nat \<Rightarrow> kenv \<Rightarrow> sysabi \<Rightarrow> u32 \<Rightarrow> u32 kop" where
  "sys_getdents n env abi arg s =
     with_args env abi (getdents_layout abi) arg
       (\<lambda>k. getdents_loop n env (gd_fd k) (local_out abi s) (gd_dirp k) (gd_count k) 0) s"

section \<open>Files\<close>

definition sys_close :: "kenv \<Rightarrow> int \<Rightarrow> u32 kop" where
  "sys_close env fd s = bindK (do_close env fd s) (\<lambda>err s. ret_or_errno env (\<lambda>_. 0) err s)"

definition sys_dup :: "kenv \<Rightarrow> int \<Rightarrow> u32 kop" where
  "sys_dup env fd s = bindK (do_dup env fd s) (\<lambda>err s. ret_or_errno env of_nat err s)"

definition sys_dup2 :: "kenv \<Rightarrow> sysabi \<Rightarrow> u32 \<Rightarrow> u32 kop" where
  "sys_dup2 env abi arg =
     with_args env abi (dup2_layout abi) arg (\<lambda>k s.
       bindK (do_dup2 env (d2_ofd k) (d2_nfd k) s) (\<lambda>err s. ret_or_errno env of_int err s))"

definition sys_mkdir :: "kenv \<Rightarrow> sysabi \<Rightarrow> u32 \<Rightarrow> u32 kop" where
  "sys_mkdir env abi arg = with_args env abi (mkdir_layout abi) arg (path_call env (\<lambda>_. 0) (do_mkdir env))"

definition sys_rmdir :: "kenv \<Rightarrow> sysabi \<Rightarrow> u32 \<Rightarrow> u32 kop" where
  "sys_rmdir env abi arg = with_args env abi (argstr_layout abi) arg (path_call env (\<lambda>_. 0) (do_rmdir env))"

definition sys_unlink :: "kenv \<Rightarrow> sysabi \<Rightarrow> u32 \<Rightarrow> u32 kop" where
  "sys_unlink env abi arg = with_args env abi (argstr_layout abi) arg (path_call env (\<lambda>_. 0) (do_unlink env))"

text \<open>Two paths: when the second cannot be copied the first is freed. The last argument says which copy is freed first.\<close>

definition two_paths :: "kenv \<Rightarrow> (string \<Rightarrow> string \<Rightarrow> (errno + unit) kop) \<Rightarrow> argstr \<Rightarrow> argstr \<Rightarrow> bool \<Rightarrow> u32 kop" where
  "two_paths env call first second second_freed_first s =
     bindK (user_strdup env first s) (\<lambda>r s.
       case r of
         None \<Rightarrow> fail_with env EINVAL s
       | Some p \<Rightarrow>
           bindK (user_strdup env second s) (\<lambda>r s.
             case r of
               None \<Rightarrow> bindK (set_errno env EINVAL s) (\<lambda>_ s. bindK (kfree env p s) (\<lambda>_ s. Ret (- 1) s))
             | Some q \<Rightarrow>
                 bindK (string_at p s) (\<lambda>str1 s.
                 bindK (string_at q s) (\<lambda>str2 s.
                 bindK (call str1 str2 s) (\<lambda>err s.
                 bindK (kfree env (if second_freed_first then q else p) s) (\<lambda>_ s.
                 bindK (kfree env (if second_freed_first then p else q) s) (\<lambda>_ s.
                   ret_or_errno env (\<lambda>_. 0) err s)))))))"

definition sys_link :: "kenv \<Rightarrow> sysabi \<Rightarrow> u32 \<Rightarrow> u32 kop" where
  "sys_link env abi arg =
     with_args env abi (link_layout abi) arg (\<lambda>k. two_paths env (\<lambda>to' from'. do_link env from' to') (la_to k) (la_from k) False)"

definition sys_rename :: "kenv \<Rightarrow> sysabi \<Rightarrow> u32 \<Rightarrow> u32 kop" where
  "sys_rename env abi arg =
     with_args env abi (rename_layout abi) arg (\<lambda>k.
       two_paths env (\<lambda>oldname newname. do_rename env (Some oldname) (Some newname)) (ra_oldname k) (ra_newname k) True)"

definition sys_chdir :: "kenv \<Rightarrow> sysabi \<Rightarrow> u32 \<Rightarrow> u32 kop" where
  "sys_chdir env abi arg = with_args env abi (argstr_layout abi) arg (path_call env (\<lambda>_. 0) (do_chdir env))"

definition sys_lseek :: "kenv \<Rightarrow> sysabi \<Rightarrow> u32 \<Rightarrow> u32 kop" where
  "sys_lseek env abi arg =
     with_args env abi (lseek_layout abi) arg (\<lambda>k s.
       bindK (do_lseek env (ls_fd k) (ls_offset k) (ls_whence k) s) (\<lambda>err s. ret_or_errno env id err s))"

definition sys_open :: "kenv \<Rightarrow> sysabi \<Rightarrow> u32 \<Rightarrow> u32 kop" where
  "sys_open env abi arg =
     with_args env abi (open_layout abi) arg (\<lambda>k.
       path_call env of_nat (\<lambda>path. do_open env path (op_flags k)) (op_filename k))"

definition sys_stat :: "kenv \<Rightarrow> sysabi \<Rightarrow> u32 \<Rightarrow> u32 kop" where
  "sys_stat env abi arg s =
     (let buf = local_out abi s in
      bindK (get_args env abi (stat_layout abi) arg s) (\<lambda>r s.
        case r of
          Inl _ \<Rightarrow> fail_with env EFAULT s
        | Inr k \<Rightarrow>
            path_call env (\<lambda>_. 0) (\<lambda>path s.
              bindK (do_stat env (Some path) buf s) (\<lambda>ret s.
                case ret of
                  Inl e \<Rightarrow> Ret (Inl e) s
                | Inr _ \<Rightarrow> copy_to_user env (st_buf k) buf (SIZEOF_STAT abi) s)) (st_path k) s))"

section \<open>Memory\<close>

definition sys_munmap :: "kenv \<Rightarrow> sysabi \<Rightarrow> u32 \<Rightarrow> u32 kop" where
  "sys_munmap env abi arg s =
     bindK (get_args env abi (munmap_layout abi) arg s) (\<lambda>r s.
       case r of
         Inl _ \<Rightarrow> fail_with env EFAULT s
       | Inr k \<Rightarrow> bindK (do_munmap env (mu_addr k) (mu_len k) s) (\<lambda>err s. ret_or_errno env (\<lambda>_. 0) err s))"

text \<open>\<open>MAP_FAILED\<close> is the pointer \<open>-1\<close>.\<close>

definition sys_mmap :: "kenv \<Rightarrow> sysabi \<Rightarrow> u32 \<Rightarrow> u32 kop" where
  "sys_mmap env abi arg s =
     bindK (get_args env abi (mmap_layout abi) arg s) (\<lambda>r s.
       case r of
         Inl _ \<Rightarrow> fail_with env EFAULT s
       | Inr k \<Rightarrow>
           bindK (do_mmap env (mma_addr k) (mma_len k) (mma_prot k) (mma_flags k) (mma_fd k) (mma_off k) s) (\<lambda>err s.
             ret_or_errno env id err s))"

definition sys_brk :: "kenv \<Rightarrow> u32 \<Rightarrow> u32 kop" where
  "sys_brk env addr s =
     bindK (do_brk env (if addr = 0 then None else Some addr) s) (\<lambda>err s. ret_or_errno env id err s)"

section \<open>Processes\<close>

definition sys_waitpid :: "nat \<Rightarrow> kenv \<Rightarrow> sysabi \<Rightarrow> u32 \<Rightarrow> u32 kop" where
  "sys_waitpid n env abi arg s =
     (let status = local_out abi s in
      bindK (get_args env abi (waitpid_layout abi) arg s) (\<lambda>r s.
        case r of
          Inl _ \<Rightarrow> fail_with env EFAULT s
        | Inr k \<Rightarrow>
            bindK (do_waitpid n env (wpa_pid k) (wpa_options k) s) (\<lambda>r s.
              case r of
                Inl e \<Rightarrow> fail_with env e s
              | Inr (p, st) \<Rightarrow>
                  let s = store32 status st s in
                  if wpa_status k \<noteq> 0
                  then bindK (copy_to_user env (wpa_status k) status 4 s) (\<lambda>ret s.
                         case ret of
                           Inl _ \<Rightarrow> fail_with env EFAULT s
                         | Inr _ \<Rightarrow> Ret (of_int p) s)
                  else Ret (of_int p) s)))"

definition sys_sync :: "nat \<Rightarrow> kenv \<Rightarrow> unit kop" where
  "sys_sync n env = pframe_clean_all n env"

definition sys_halt :: "kenv \<Rightarrow> unit kop" where
  "sys_halt env = proc_kill_all env"

definition sys_fork :: "kenv \<Rightarrow> u32 \<Rightarrow> u32 kop" where
  "sys_fork env regs s = bindK (do_fork env (Some regs) s) (\<lambda>ret s. ret_or_errno env of_int ret s)"

definition free_vector :: "nat \<Rightarrow> kenv \<Rightarrow> u32 \<Rightarrow> unit kop" where
  "free_vector n env vect s = bindK (free_strings n env vect s) (\<lambda>_ s. kfree env vect s)"

text \<open>The code after the label \<open>cleanup\<close>; a null pointer is the address 0.\<close>

definition exec_cleanup :: "nat \<Rightarrow> kenv \<Rightarrow> u32 \<Rightarrow> u32 \<Rightarrow> u32 \<Rightarrow> u32 kop" where
  "exec_cleanup n env kern_filename kern_argv kern_envp s =
     bindK (if kern_filename \<noteq> 0 then kfree env kern_filename s else Ret () s) (\<lambda>_ s.
     bindK (if kern_argv \<noteq> 0 then free_vector n env kern_argv s else Ret () s) (\<lambda>_ s.
     bindK (if kern_envp \<noteq> 0 then free_vector n env kern_envp s else Ret () s) (\<lambda>_ s.
     bindK (get_errno s) (\<lambda>err s.
       if err \<noteq> 0 then Ret (- 1) s else Ret 0 s))))"

text \<open>A vector that the caller gave, None when copying it failed.\<close>

definition exec_vector :: "nat \<Rightarrow> kenv \<Rightarrow> sysabi \<Rightarrow> argvec \<Rightarrow> u32 option kop" where
  "exec_vector n env abi v s = (if av_vec v \<noteq> 0 then user_vecdup n abi env v s else Ret (Some 0) s)"

definition sys_execve :: "nat \<Rightarrow> kenv \<Rightarrow> sysabi \<Rightarrow> u32 \<Rightarrow> u32 \<Rightarrow> u32 kop" where
  "sys_execve n env abi arg regs s =
     bindK (get_args env abi (execve_layout abi) arg s) (\<lambda>r s.
       case r of
         Inl e \<Rightarrow> bindK (set_errno env e s) (\<lambda>_ s. exec_cleanup n env 0 0 0 s)
       | Inr k \<Rightarrow>
           bindK (user_strdup env (ex_filename k) s) (\<lambda>r s.
             case r of
               None \<Rightarrow> exec_cleanup n env 0 0 0 s
             | Some kern_filename \<Rightarrow>
                 bindK (exec_vector n env abi (ex_argv k) s) (\<lambda>r s.
                   case r of
                     None \<Rightarrow> exec_cleanup n env kern_filename 0 0 s
                   | Some kern_argv \<Rightarrow>
                       bindK (exec_vector n env abi (ex_envp k) s) (\<lambda>r s.
                         case r of
                           None \<Rightarrow> exec_cleanup n env kern_filename kern_argv 0 s
                         | Some kern_envp \<Rightarrow>
                             bindK (do_execve abi kern_filename kern_argv kern_envp regs s) (\<lambda>err s.
                             bindK (set_errno_num (- err) s) (\<lambda>_ s.
                               exec_cleanup n env kern_filename kern_argv kern_envp s))))))"

section \<open>Other calls\<close>

text \<open>
  The sizes of the constants \<open>Weenix\<close>, \<open>1.2\<close>, the date and time of the build after \<open>#1\<close>, and two empty strings,
  each with its zero byte.
\<close>

primrec uts_size :: "utsfield \<Rightarrow> u32" where
  "uts_size sysname = 7"
| "uts_size release = 4"
| "uts_size version = 24"
| "uts_size nodename = 1"
| "uts_size machine = 1"

primrec uname_fields :: "kenv \<Rightarrow> sysabi \<Rightarrow> u32 \<Rightarrow> utsfield list \<Rightarrow> u32 kop" where
  "uname_fields env abi arg [] s = Ret 0 s"
| "uname_fields env abi arg (f # fs) s =
     bindK (copy_to_user env (arg + uts_offset abi f) (uts_string abi f) (uts_size f) s) (\<lambda>ret s.
       case ret of
         Inl e \<Rightarrow> fail_with env e s
       | Inr _ \<Rightarrow> uname_fields env abi arg fs s)"

definition sys_uname :: "kenv \<Rightarrow> sysabi \<Rightarrow> u32 \<Rightarrow> u32 kop" where
  "sys_uname env abi arg = uname_fields env abi arg [sysname, release, version, nodename, machine]"

text \<open>The message is only printed; a failed copy is the null pointer, which is freed.\<close>

definition sys_debug :: "kenv \<Rightarrow> sysabi \<Rightarrow> u32 \<Rightarrow> u32 kop" where
  "sys_debug env abi arg =
     with_args env abi (argstr_layout abi) arg (\<lambda>k s.
       bindK (user_strdup env k s) (\<lambda>message s.
       bindK (kfree env (case message of None \<Rightarrow> 0 | Some a \<Rightarrow> a) s) (\<lambda>_ s.
         Ret 0 s)))"

primrec kshell_loop :: "nat \<Rightarrow> sysabi \<Rightarrow> ptr \<Rightarrow> int kop" where
  "kshell_loop 0 abi ksh s = Stop OUT_OF_FUEL"
| "kshell_loop (Suc n) abi ksh s =
     bindK (kshell_execute_next abi ksh s) (\<lambda>err s. if err > 0 then kshell_loop n abi ksh s else Ret err s)"

definition sys_kshell :: "nat \<Rightarrow> kenv \<Rightarrow> sysabi \<Rightarrow> int \<Rightarrow> u32 kop" where
  "sys_kshell n env abi ttyid s =
     bindK (kshell_create abi ttyid s) (\<lambda>r s.
       case r of
         None \<Rightarrow> fail_with env ENODEV s
       | Some ksh \<Rightarrow>
           bindK (kshell_loop n abi ksh s) (\<lambda>err s.
           bindK (kshell_destroy abi ksh s) (\<lambda>_ s.
             if err < 0 then bindK (set_errno_num (- err) s) (\<lambda>_ s. Ret (- 1) s) else Ret 0 s)))"

section \<open>Dispatch\<close>

definition syscall_dispatch :: "nat \<Rightarrow> kenv \<Rightarrow> sysabi \<Rightarrow> u32 \<Rightarrow> u32 \<Rightarrow> u32 \<Rightarrow> u32 kop" where
  "syscall_dispatch n env abi sysnum args regs s =
     (case syscall_of abi sysnum of
        None \<Rightarrow> fail_with env ENOSYS s
      | Some call \<Rightarrow>
          (case call of
             SYS_waitpid \<Rightarrow> sys_waitpid n env abi args s
           | SYS_exit \<Rightarrow> bindK (do_exit env args s) (\<lambda>_ s. Stop PANIC)
           | SYS_thr_exit \<Rightarrow> bindK (kthread_exit env args s) (\<lambda>_ s. Stop PANIC)
           | SYS_thr_yield \<Rightarrow> bindK (thr_yield (senv env) s) (\<lambda>_ s. Ret 0 s)
           | SYS_fork \<Rightarrow> sys_fork env regs s
           | SYS_getpid \<Rightarrow> bindK (cur_proc s) (\<lambda>(_, pr) s. Ret (of_int (p_pid pr)) s)
           | SYS_sync \<Rightarrow> bindK (sys_sync n env s) (\<lambda>_ s. Ret 0 s)
           | SYS_mmap \<Rightarrow> sys_mmap env abi args s
           | SYS_munmap \<Rightarrow> sys_munmap env abi args s
           | SYS_open \<Rightarrow> sys_open env abi args s
           | SYS_close \<Rightarrow> sys_close env (sint args) s
           | SYS_read \<Rightarrow> sys_read env abi args s
           | SYS_write \<Rightarrow> sys_write env abi args s
           | SYS_dup \<Rightarrow> sys_dup env (sint args) s
           | SYS_dup2 \<Rightarrow> sys_dup2 env abi args s
           | SYS_mkdir \<Rightarrow> sys_mkdir env abi args s
           | SYS_rmdir \<Rightarrow> sys_rmdir env abi args s
           | SYS_unlink \<Rightarrow> sys_unlink env abi args s
           | SYS_link \<Rightarrow> sys_link env abi args s
           | SYS_rename \<Rightarrow> sys_rename env abi args s
           | SYS_chdir \<Rightarrow> sys_chdir env abi args s
           | SYS_getdents \<Rightarrow> sys_getdents n env abi args s
           | SYS_brk \<Rightarrow> sys_brk env args s
           | SYS_lseek \<Rightarrow> sys_lseek env abi args s
           | SYS_halt \<Rightarrow> bindK (sys_halt env s) (\<lambda>_ s. Ret (- 1) s)
           | SYS_set_errno \<Rightarrow> bindK (set_errno_num (sint args) s) (\<lambda>_ s. Ret 0 s)
           | SYS_errno \<Rightarrow> bindK (get_errno s) (\<lambda>e s. Ret (of_int e) s)
           | SYS_execve \<Rightarrow> sys_execve n env abi args regs s
           | SYS_stat \<Rightarrow> sys_stat env abi args s
           | SYS_uname \<Rightarrow> sys_uname env abi args s
           | SYS_debug \<Rightarrow> sys_debug env abi args s
           | SYS_kshell \<Rightarrow> sys_kshell n env abi (sint args) s))"

text \<open>A cancelled thread exits; the code goes on only if the exit comes back.\<close>

definition exit_if_cancelled :: "kenv \<Rightarrow> unit kop" where
  "exit_if_cancelled env s =
     (case curthr s of
        None \<Rightarrow> Stop BAD_POINTER
      | Some t \<Rightarrow>
          bindK (deref (threads s) t s) (\<lambda>th s.
            if kt_cancelled th then kthread_exit env (kt_retval th) s else Ret () s))"

definition syscall_handler :: "nat \<Rightarrow> kenv \<Rightarrow> sysabi \<Rightarrow> u32 \<Rightarrow> unit kop" where
  "syscall_handler n env abi regs s =
     (let sysnum = load32 (kmem s) (regs + R_EAX_OFFSET (cfg env));
          args = load32 (kmem s) (regs + R_EDX_OFFSET abi) in
      bindK (exit_if_cancelled env s) (\<lambda>_ s.
      bindK (syscall_dispatch n env abi sysnum args regs s) (\<lambda>ret s.
      bindK (exit_if_cancelled env s) (\<lambda>_ s.
        Ret () (store32 (regs + R_EAX_OFFSET (cfg env)) ret s)))))"

section \<open>Error numbers\<close>

definition with_errno :: "int \<Rightarrow> ptr \<Rightarrow> kthread \<Rightarrow> kstate \<Rightarrow> kstate" where
  "with_errno e t th s = s\<lparr>threads := (threads s)(t \<mapsto> th\<lparr>kt_errno := e\<rparr>)\<rparr>"

lemma with_errno_sel [simp]:
  "pages_out (with_errno e t th s) = pages_out s" "curthr (with_errno e t th s) = curthr s" "kmem (with_errno e t th s) = kmem s"
  "threads (with_errno e t th s) t = Some (th\<lparr>kt_errno := e\<rparr>)" "procs (with_errno e t th s) = procs s" "files (with_errno e t th s) = files s"
  by (simp_all add: with_errno_def)

lemma set_errno_num_eq [simp]:
  "curthr s = Some t \<Longrightarrow> threads s t = Some th \<Longrightarrow> set_errno_num e s = Ret () (with_errno e t th s)"
  by (simp add: set_errno_num_def thr_update_def with_errno_def)

lemma fail_with_eq [simp]:
  "curthr s = Some t \<Longrightarrow> threads s t = Some th \<Longrightarrow>
    fail_with env e s = Ret (- 1) (with_errno (int (errno_num (cfg env) e)) t th s)"
  by (simp add: fail_with_def set_errno_def)

lemma get_errno_eq [simp]: "curthr s = Some t \<Longrightarrow> threads s t = Some th \<Longrightarrow> get_errno s = Ret (kt_errno th) s"
  by (simp add: get_errno_def)

text \<open>
  A call with an unknown number fails and says so. It returns \<open>-1\<close>, changes nothing but the error number of the thread,
  and the call \<open>SYS_errno\<close> that follows returns \<open>ENOSYS\<close>.
\<close>

theorem unknown_syscall_reported:
  assumes "syscall_of abi num = None" and "syscall_of abi q = Some SYS_errno" and "curthr s = Some t" and "threads s t = Some th"
  shows "\<exists>s'. syscall_dispatch n env abi num args regs s = Ret (- 1) s'
    \<and> s' = s\<lparr>threads := (threads s)(t \<mapsto> th\<lparr>kt_errno := int (errno_num (cfg env) ENOSYS)\<rparr>)\<rparr>
    \<and> syscall_dispatch n' env abi q args' regs' s' = Ret (of_nat (errno_num (cfg env) ENOSYS)) s'"
  using assms by (simp add: syscall_dispatch_def with_errno_def)

section \<open>Arguments\<close>

lemma get_args_page:
  fixes abi :: sysabi
  assumes "user_page env s arg (fst l) (PROT_READ (cfg env)) pr vma obs q g"
  defines "s' \<equiv> memcpy (local_args abi s) (pf_addr g + PAGE_OFFSET arg) (fst l) (touched q s)"
  shows "get_args env abi l arg s = Ret (Inr (snd l (kmem s') (local_args abi s))) s'"
  using copy_from_user_eq [OF assms(1)] by (simp add: get_args_def s'_def Let_def)

section \<open>Reading\<close>

lemma chunk_small: "n \<le> PAGE_SIZE \<Longrightarrow> chunk n = n"
  by (auto simp: chunk_def)

text \<open>
  \<open>sys_read\<close> with a bad descriptor fails with \<open>EBADF\<close> and loses a page of kernel memory: the
  temporary buffer it has allocated is not freed, so that a process can use up the pages of the kernel.
\<close>

theorem sys_read_leaks_page:
  assumes args: "get_args env abi (read_layout abi) arg s = Ret (Inr k) s1" and bad: "bad_fd env (rw_fd k)" "0 < rw_nbytes k"
    and page: "page_alloc env (pages_out s1) = Some a" and thr: "curthr s1 = Some t" "threads s1 t = Some th"
  shows "\<exists>s'. sys_read env abi arg s = Ret (- 1) s' \<and> pages_out s' = a # pages_out s1
    \<and> threads s' t = Some (th\<lparr>kt_errno := int (errno_num (cfg env) EBADF)\<rparr>)"
  using assms by (simp add: sys_read_def with_args_def read_loop.simps alloc_page_def do_read_def)

text \<open>
  C12: a read of \<open>n\<close> bytes, at most a page, into a buffer that lies inside one page of the process, which the process may write and which is
  resident, not busy, not a page of a file and not waited for. It returns the number \<open>k\<close> of bytes that the file gave, but the process gets all \<open>n\<close> bytes of the temporary buffer: after the \<open>k\<close> bytes that were read, those that happened to be
  in the kernel page. The temporary page is freed.
\<close>

theorem read_loop_copies_whole_buffer:
  assumes n: "0 < n" "n \<le> PAGE_SIZE" and page: "page_alloc env (pages_out s) = Some a"
    and read: "do_read env fd a n (s\<lparr>pages_out := a # pages_out s\<rparr>) = Ret (Inr k) s1" and mine: "a \<in> set (pages_out s1)"
    and u: "user_page env s1 buf n (PROT_WRITE (cfg env)) pr vma obs q g"
    and below: "pf_obj g = Some b" "mmobjs s1 b = Some mb" "mmo_ops mb \<noteq> vnode_mmobj_ops" and quiet: "qlist s1 (PFWAITQ q) = []"
  shows "\<exists>s'. read_loop env fd buf n total_bytes s = Ret (total_bytes + k) s'
    \<and> (\<forall>i. i < n \<longrightarrow> page_bytes s' (pf_addr g) (PAGE_OFFSET buf + i) = kmem s1 (a + i))
    \<and> pages_out s' = remove1 a (pages_out s1)"
proof -
  let ?s = "copied_out q g buf a n s1"
  have c: "copy_to_user env buf a n s1 = Ret (Inr ()) ?s" by (rule copy_to_user_eq [OF u below quiet])
  have p: "pages_out ?s = pages_out s1" by (simp add: copied_out_def memcpy_def)
  have "read_loop env fd buf n total_bytes s = Ret (total_bytes + k) (?s\<lparr>pages_out := remove1 a (pages_out s1)\<rparr>)"
    using n page read c p mine by (simp add: read_loop.simps chunk_small alloc_page_def free_page_def)
  moreover have "page_bytes (?s\<lparr>pages_out := l\<rparr>) x = page_bytes ?s x" for l x by (simp add: page_bytes_def fun_eq_iff)
  ultimately show ?thesis using copied_out_bytes [OF u] by auto
qed

section \<open>Writing\<close>

text \<open>
  C11: a write of at most a page, from a buffer that lies inside one page of the process, which the process may read and which
  is resident and not busy. It hands \<open>do_write\<close> a kernel buffer with the bytes the process sees at the address, and returns what \<open>do_write\<close> returns; when that is an error the buffer is not freed.
\<close>

theorem write_loop_copies_user_bytes:
  assumes n: "n \<le> PAGE_SIZE" and page: "page_alloc env (pages_out s) = Some a"
    and u: "user_page env (s\<lparr>pages_out := a # pages_out s\<rparr>) buf n (PROT_READ (cfg env)) pr vma obs q g"
  shows "\<exists>s1. (\<forall>i. i < n \<longrightarrow> kmem s1 (a + i) = page_bytes s (pf_addr g) (PAGE_OFFSET buf + i)) \<and> pages_out s1 = a # pages_out s
    \<and> write_loop env fd buf n total_bytes s = bindK (do_write env fd a n s1) (\<lambda>r s2.
        case r of
          Inl e \<Rightarrow> fail_with env e s2
        | Inr k \<Rightarrow> bindK (free_page a s2) (\<lambda>_ s3. Ret (total_bytes + k) s3))"
proof -
  let ?s = "s\<lparr>pages_out := a # pages_out s\<rparr>"
  let ?m = "memcpy a (pf_addr g + PAGE_OFFSET buf) n (touched q ?s)"
  have n0: "0 < n" using u by (simp add: user_page_def)
  have c: "copy_from_user env a buf n ?s = Ret (Inr ()) ?m" by (rule copy_from_user_eq [OF u])
  have e: "write_loop env fd buf 0 t = Ret t" for t by (simp add: write_loop.simps fun_eq_iff)
  have "write_loop env fd buf n total_bytes s = bindK (do_write env fd a n ?m) (\<lambda>r s2.
        case r of
          Inl e \<Rightarrow> fail_with env e s2
        | Inr k \<Rightarrow> bindK (free_page a s2) (\<lambda>_ s3. Ret (total_bytes + k) s3))"
    using n n0 page c by (subst write_loop.simps) (simp add: chunk_small alloc_page_def e cong: sum.case_cong)
  moreover have "kmem ?m (a + i) = page_bytes s (pf_addr g) (PAGE_OFFSET buf + i)" if "i < n" for i
    using that user_page_offset [OF u that] by (simp add: memcpy_def page_bytes_def add.assoc)
  moreover have "pages_out ?m = a # pages_out s" by (simp add: memcpy_def)
  ultimately show ?thesis by blast
qed

text \<open>A longer write starts over with the same address for every page, as a longer read does.\<close>

lemma write_loop_same_buffer:
  assumes "PAGE_SIZE < need" and "page_alloc env (pages_out s) = Some a"
    and "copy_from_user env a buf PAGE_SIZE (s\<lparr>pages_out := a # pages_out s\<rparr>) = Ret (Inr ()) s1"
    and "do_write env fd a PAGE_SIZE s1 = Ret (Inr k) s2" and "a \<in> set (pages_out s2)"
  shows "write_loop env fd buf need total_bytes s =
    write_loop env fd buf (need - PAGE_SIZE) (total_bytes + k) (s2\<lparr>pages_out := remove1 a (pages_out s2)\<rparr>)"
proof -
  have "0 < need" "chunk need = PAGE_SIZE" using assms(1) by (auto simp: chunk_def intro: le_less_trans [OF word_zero_le])
  then show ?thesis using assms(2-5) by (subst write_loop.simps) (simp add: alloc_page_def free_page_def)
qed

section \<open>Directories\<close>

lemma getdents_loop_enough:
  fixes count tb :: u32
  assumes size: "0 < DIRENT_SIZE (cfg env)" and fits: "unat count + DIRENT_SIZE (cfg env) \<le> 2 ^ 32"
    and rounds: "unat count - unat tb \<le> DIRENT_SIZE (cfg env) * n"
  shows "getdents_loop (Suc n + m) env fd dirp buf count tb s = getdents_loop (Suc n) env fd dirp buf count tb s"
  using rounds
proof (induction n arbitrary: tb s)
  case 0
  then have "\<not> tb < count" by (simp add: word_less_nat_alt)
  then show ?case by simp
next
  case (Suc n)
  let ?z = "DIRENT_SIZE (cfg env)"
  show ?case
  proof (cases "tb < count")
    case True
    then have "unat tb + ?z < 2 ^ 32" using fits by (simp add: word_less_nat_alt)
    then have "unat (tb + of_nat ?z) = unat tb + ?z" by (simp add: unat_word_ariths unat_of_nat)
    then have "unat count - unat (tb + of_nat ?z) \<le> ?z * n" using Suc.prems by simp
    from Suc.IH [OF this] show ?thesis by (simp add: Let_def cong: if_cong sum.case_cong)
  qed simp
qed

text \<open>
  C31: the loop of \<open>sys_getdents\<close> ends. When the size of the buffer and that of an entry add up to \<open>2 ^ 32\<close> at most, the loop makes at most
  as many rounds as entries start in the buffer: more rounds than that make no difference.
\<close>

theorem getdents_loop_terminates:
  assumes "0 < DIRENT_SIZE (cfg env)" and "unat count + DIRENT_SIZE (cfg env) \<le> 2 ^ 32"
    and "unat count div DIRENT_SIZE (cfg env) + 2 \<le> n"
  shows "getdents_loop (n + m) env fd dirp buf count 0 s = getdents_loop n env fd dirp buf count 0 s"
proof -
  obtain j where j: "n = Suc j" and l: "unat count div DIRENT_SIZE (cfg env) + 1 \<le> j" using assms(3) by (cases n) auto
  let ?z = "DIRENT_SIZE (cfg env)"
  have "unat count = unat count div ?z * ?z + unat count mod ?z" by simp
  also have "\<dots> \<le> unat count div ?z * ?z + ?z" using mod_less_divisor [OF assms(1), of "unat count"] by linarith
  also have "\<dots> = (unat count div ?z + 1) * ?z" by simp
  also have "\<dots> \<le> j * ?z" by (rule mult_right_mono [OF l]) simp
  finally have "unat count - unat (0::u32) \<le> ?z * j" by (simp add: mult.commute)
  from getdents_loop_enough [OF assms(1,2) this, of m fd dirp buf s] show ?thesis by (simp add: j)
qed

lemma getdents_loop_bytes:
  fixes count tb :: u32
  assumes fits: "unat count + DIRENT_SIZE (cfg env) \<le> 2 ^ 32"
    and "getdents_loop n env fd dirp buf count tb s = Ret r s'" and "DIRENT_SIZE (cfg env) dvd unat tb"
    and "unat tb < unat count + DIRENT_SIZE (cfg env)"
  shows "r = - 1 \<or> DIRENT_SIZE (cfg env) dvd unat r \<and> unat r < unat count + DIRENT_SIZE (cfg env)"
  using assms(2-4)
proof (induction n arbitrary: tb s)
  case (Suc n)
  let ?z = "DIRENT_SIZE (cfg env)"
  show ?case
  proof (cases "tb < count")
    case True
    then have "unat tb + ?z < 2 ^ 32" using fits by (simp add: word_less_nat_alt)
    then have z: "unat (tb + of_nat ?z) = unat tb + ?z" by (simp add: unat_word_ariths unat_of_nat)
    have f: "r = - 1" if "fail_with env e s1 = Ret r s'" for e s1 using that by (auto simp: fail_with_def kres_simps)
    have more: "r = - 1 \<or> ?z dvd unat r \<and> unat r < unat count + ?z"
      if "getdents_loop n env fd dirp buf count (tb + of_nat ?z) s2 = Ret r s'" for s2
      using Suc.IH [OF that] True Suc.prems(2) by (simp add: z word_less_nat_alt)
    obtain x s1 where x: "do_getdent env fd dirp s = Ret x s1"
      using Suc.prems(1) True by (auto simp: Let_def kres_simps)
    show ?thesis
    proof (cases x)
      case (Inr k)
      show ?thesis
      proof (cases "k = 0")
        case False
        then obtain y s2 where y: "copy_to_user env (buf + tb) dirp (of_nat ?z) s1 = Ret y s2"
          using Suc.prems(1) True x Inr by (auto simp: Let_def kres_simps)
        then show ?thesis using Suc.prems(1) True x Inr False f more by (cases y) (auto simp: Let_def)
      qed (use Suc.prems True x Inr in \<open>simp add: Let_def\<close>)
    qed (use Suc.prems(1) True x f in \<open>simp add: Let_def\<close>)
  qed (use Suc.prems in simp)
qed simp

text \<open>
  What \<open>sys_getdents\<close> returns when it does not fail is a whole number of directory entries, and less than one entry
  more than the size of the buffer.
\<close>

theorem sys_getdents_whole_entries:
  assumes "0 < DIRENT_SIZE (cfg env)" and "unat count + DIRENT_SIZE (cfg env) \<le> 2 ^ 32"
    and "getdents_loop n env fd dirp buf count 0 s = Ret r s'"
  shows "r = - 1 \<or> DIRENT_SIZE (cfg env) dvd unat r \<and> unat r < unat count + DIRENT_SIZE (cfg env)"
  using getdents_loop_bytes [OF assms(2,3)] assms(1) by simp

text \<open>
  C39: \<open>sys_getdents\<close> writes past the buffer. When the buffer is smaller than an entry, a whole entry is copied to the process
  all the same, and its size is returned, which is more than the size of the buffer.
\<close>

theorem getdents_overruns_buffer:
  assumes count: "0 < count" "count < of_nat (DIRENT_SIZE (cfg env))"
    and entry: "do_getdent env fd dirp s = Ret (Inr k) s1" "k \<noteq> 0"
    and u: "user_page env s1 buf (of_nat (DIRENT_SIZE (cfg env))) (PROT_WRITE (cfg env)) pr vma obs q g"
    and below: "pf_obj g = Some b" "mmobjs s1 b = Some mb" "mmo_ops mb \<noteq> vnode_mmobj_ops" and quiet: "qlist s1 (PFWAITQ q) = []"
  shows "\<exists>s'. getdents_loop (n + 2) env fd dirp buf count 0 s = Ret (of_nat (DIRENT_SIZE (cfg env))) s'
    \<and> (\<forall>i. i < of_nat (DIRENT_SIZE (cfg env)) \<longrightarrow> page_bytes s' (pf_addr g) (PAGE_OFFSET buf + i) = kmem s1 (dirp + i))"
proof -
  have "copy_to_user env buf dirp (of_nat (DIRENT_SIZE (cfg env))) s1
      = Ret (Inr ()) (copied_out q g buf dirp (of_nat (DIRENT_SIZE (cfg env))) s1)"
    by (rule copy_to_user_eq [OF u below quiet])
  then have "getdents_loop (n + 2) env fd dirp buf count 0 s
      = Ret (of_nat (DIRENT_SIZE (cfg env))) (copied_out q g buf dirp (of_nat (DIRENT_SIZE (cfg env))) s1)"
    using count entry by (simp add: numeral_2_eq_2 not_less less_imp_le Let_def)
  then show ?thesis using copied_out_bytes [OF u] by blast
qed

section \<open>Vectors of strings\<close>

text \<open>
  \<open>user_vecdup\<close> frees pointers that nothing has written. When the vector cannot be copied from user memory, it frees
  what it finds in the new vector; if the allocator stops at the first of these pointers, \<open>user_vecdup\<close> does not
  return an error but stops the kernel.
\<close>

theorem user_vecdup_frees_garbage:
  assumes "kmalloc env ((av_len u + 1) * SIZEOF_ARGSTR abi) s = Ret (Some temp) s1"
    and "kmalloc env ((av_len u + 1) * 4) s1 = Ret (Some kvec) s2" and "kvec \<noteq> 0"
    and "copy_from_user env temp (av_vec u) ((av_len u + 1) * SIZEOF_ARGSTR abi) s2 = Ret (Inl e) s3"
    and "load32 (kmem s3) kvec \<noteq> 0" and "kfree env (load32 (kmem s3) kvec) s3 = Stop r"
  shows "user_vecdup (Suc n) abi env u s = Stop r"
  using assms by (simp add: user_vecdup_def vecdup_fail_def)

section \<open>The handler\<close>

lemma exit_leaves:
  assumes "\<And>s s'. context_switch env s \<noteq> Ret () s'"
  shows "kthread_exit env r s \<noteq> Ret () s'"
  using assms
  by (auto simp: kthread_exit_def proc_thread_exited_def sched_switch_def kres_simps sched_env.defs Let_def split: option.splits)

lemma exit_if_cancelled_Ret:
  assumes "\<forall>r s s'. kthread_exit env r s \<noteq> Ret () s'" and "exit_if_cancelled env s = Ret u s'"
  shows "s' = s" "\<exists>t th. curthr s = Some t \<and> threads s t = Some th \<and> \<not> kt_cancelled th"
  using assms by (auto simp: exit_if_cancelled_def kres_simps split: option.splits if_splits)

lemma load32_store32 [simp]: "load32 (kmem (store32 a w s)) a = w"
proof (rule bit_word_eqI)
  fix n :: nat
  assume "n < LENGTH(32)"
  then consider "n < 8" | "8 \<le> n" "n < 16" | "16 \<le> n" "n < 24" | "24 \<le> n" "n < 32" by fastforce
  then show "bit (load32 (kmem (store32 a w s)) a) n \<longleftrightarrow> bit w n"
    by cases (auto simp: load32_def store32_def bit_simps)
qed

text \<open>
  C13: when the handler of a system call returns to the process, the thread was not cancelled when the call began and is
  not cancelled at its end, and the process finds in \<open>eax\<close> what the call named by \<open>eax\<close> with the argument in
  \<open>edx\<close> returned; \<open>kthread_exit\<close> does not come back.
\<close>

theorem syscall_handler_returns:
  assumes exits: "\<forall>r s s'. kthread_exit env r s \<noteq> Ret () s'" and "syscall_handler n env abi regs s = Ret () s'"
  shows "\<exists>t th t' th' ret s1. curthr s = Some t \<and> threads s t = Some th \<and> \<not> kt_cancelled th
    \<and> syscall_dispatch n env abi (load32 (kmem s) (regs + R_EAX_OFFSET (cfg env))) (load32 (kmem s) (regs + R_EDX_OFFSET abi)) regs s
        = Ret ret s1
    \<and> curthr s1 = Some t' \<and> threads s1 t' = Some th' \<and> \<not> kt_cancelled th'
    \<and> s' = store32 (regs + R_EAX_OFFSET (cfg env)) ret s1 \<and> load32 (kmem s') (regs + R_EAX_OFFSET (cfg env)) = ret"
proof -
  obtain s0 ret s1 u where h: "exit_if_cancelled env s = Ret () s0"
    "syscall_dispatch n env abi (load32 (kmem s) (regs + R_EAX_OFFSET (cfg env))) (load32 (kmem s) (regs + R_EDX_OFFSET abi)) regs s0
      = Ret ret s1" "exit_if_cancelled env s1 = Ret () u" "s' = store32 (regs + R_EAX_OFFSET (cfg env)) ret u"
    using assms(2) by (auto simp: syscall_handler_def Let_def kres_simps)
  show ?thesis using exit_if_cancelled_Ret [OF exits h(1)] exit_if_cancelled_Ret [OF exits h(3)] h(2,4) by auto
qed



section \<open>Examples\<close>

text \<open>
  Structures of 32-bit words, as a compiler lays them out, and the calls \<open>close\<close> and \<open>errno\<close>; a process with a file and a
  directory open, whose file gives four bytes at a time; and an allocator of strings that stops at a pointer it has not given out.
\<close>

definition word_argstr :: "(u32 \<Rightarrow> u8) \<Rightarrow> u32 \<Rightarrow> argstr" where
  "word_argstr m a = \<lparr>as_str = load32 m a, as_len = load32 m (a + 4)\<rparr>"

definition word_argvec :: "(u32 \<Rightarrow> u8) \<Rightarrow> u32 \<Rightarrow> argvec" where
  "word_argvec m a = \<lparr>av_vec = load32 m a, av_len = load32 m (a + 4)\<rparr>"

definition word_rw :: "rw_args layout" where
  "word_rw = (12, \<lambda>m a. \<lparr>rw_fd = sint (load32 m a), rw_buf = load32 m (a + 4), rw_nbytes = load32 m (a + 8)\<rparr>)"

definition example_abi :: sysabi where
  "example_abi = \<lparr>SIZEOF_ARGSTR = 8, argstr_at = word_argstr,
     syscall_of = (\<lambda>k. if k = 1 then Some SYS_close else if k = 2 then Some SYS_errno else None),
     R_EDX_OFFSET = 20, local_args = (\<lambda>_. 0x9000), local_out = (\<lambda>_. 0x9100), read_layout = word_rw, write_layout = word_rw,
     getdents_layout = (12, \<lambda>m a. \<lparr>gd_fd = sint (load32 m a), gd_dirp = load32 m (a + 4), gd_count = load32 m (a + 8)\<rparr>),
     dup2_layout = (8, \<lambda>m a. \<lparr>d2_ofd = sint (load32 m a), d2_nfd = sint (load32 m (a + 4))\<rparr>),
     mkdir_layout = (12, word_argstr),
     link_layout = (16, \<lambda>m a. \<lparr>la_to = word_argstr m a, la_from = word_argstr m (a + 8)\<rparr>),
     rename_layout = (16, \<lambda>m a. \<lparr>ra_oldname = word_argstr m a, ra_newname = word_argstr m (a + 8)\<rparr>),
     lseek_layout = (12, \<lambda>m a. \<lparr>ls_fd = sint (load32 m a), ls_offset = load32 m (a + 4), ls_whence = sint (load32 m (a + 8))\<rparr>),
     open_layout = (16, \<lambda>m a. \<lparr>op_filename = word_argstr m a, op_flags = load32 m (a + 8)\<rparr>),
     munmap_layout = (8, \<lambda>m a. \<lparr>mu_addr = load32 m a, mu_len = load32 m (a + 4)\<rparr>),
     mmap_layout = (24, \<lambda>m a. \<lparr>mma_addr = load32 m a, mma_len = load32 m (a + 4), mma_prot = load32 m (a + 8),
       mma_flags = load32 m (a + 12), mma_fd = sint (load32 m (a + 16)), mma_off = load32 m (a + 20)\<rparr>),
     waitpid_layout = (12, \<lambda>m a. \<lparr>wpa_pid = sint (load32 m a), wpa_options = sint (load32 m (a + 4)), wpa_status = load32 m (a + 8)\<rparr>),
     stat_layout = (12, \<lambda>m a. \<lparr>st_path = word_argstr m a, st_buf = load32 m (a + 8)\<rparr>),
     execve_layout = (24, \<lambda>m a. \<lparr>ex_filename = word_argstr m a, ex_argv = word_argvec m (a + 8), ex_envp = word_argvec m (a + 16)\<rparr>),
     SIZEOF_STAT = 64, uts_offset = (\<lambda>_. 0), uts_string = (\<lambda>_. 0xB000), do_execve = (\<lambda>_ _ _ _. Ret 0),
     kshell_create = (\<lambda>_. Ret None), kshell_execute_next = (\<lambda>_. Ret 0), kshell_destroy = (\<lambda>_. Ret ())\<rparr>"

lemma example_abi_sel [simp]:
  "SIZEOF_ARGSTR example_abi = 8" "read_layout example_abi = word_rw" "local_args example_abi = (\<lambda>_. 0x9000)" "R_EDX_OFFSET example_abi = 20"
  "syscall_of example_abi = (\<lambda>k. if k = 1 then Some SYS_close else if k = 2 then Some SYS_errno else None)"
  by (simp_all add: example_abi_def)

definition call_env :: kenv where
  "call_env = example_env\<lparr>fget := example_fget, fput := example_fput, context_switch := Gone,
     fs_read := (\<lambda>_ _ _ _. Ret (Inr 4)), fs_readdir := (\<lambda>_. Some (\<lambda>_ _. Ret (Inr 16))),
     kfree := (\<lambda>a s. if a = 0x9000 then Ret () s else Stop BAD_POINTER)\<rparr>"

lemma call_env_sel [simp]:
  "fget call_env = example_fget" "fput call_env = example_fput" "cfg call_env = example_cfg" "chain_fuel call_env = 16"
  "context_switch call_env = Gone" "fs_read call_env = (\<lambda>_ _ _ _. Ret (Inr 4))"
  "fs_readdir call_env = (\<lambda>_. Some (\<lambda>_ _. Ret (Inr 16)))" "kmalloc call_env = (\<lambda>n. Ret (Some 0x9000))"
  "kfree call_env = (\<lambda>a s. if a = 0x9000 then Ret () s else Stop BAD_POINTER)"
  "page_alloc call_env = page_alloc example_env"
  by (simp_all add: call_env_def example_env_def)

definition call_proc :: proc where "call_proc = example_proc\<lparr>p_files := [Some 1, Some 2, None, None]\<rparr>"

definition call_vnode :: "vn_kind \<Rightarrow> vnode" where
  "call_vnode k = \<lparr>vn_ops = fs_vops, vn_fs = 0, vn_vno = 0, vn_mode = k, vn_perm = 0, vn_len = 4, vn_devid = 0, vn_busy = False,
     vn_cdev = None, vn_bdev = None\<rparr>"

definition call_file :: "u32 \<Rightarrow> ptr \<Rightarrow> file_t" where
  "call_file pos vn = \<lparr>f_pos = pos, f_mode = 3, f_refcount = 1, f_vnode = Some vn\<rparr>"

text \<open>The state with the positions of the two files and the pages in use.\<close>

definition call_space :: "u32 \<Rightarrow> u32 \<Rightarrow> u32 list \<Rightarrow> kstate" where
  "call_space x y P = cow_space\<lparr>procs := [1 \<mapsto> call_proc], files := [1 \<mapsto> call_file x 5, 2 \<mapsto> call_file y 6],
     vnodes := [5 \<mapsto> call_vnode S_IFREG, 6 \<mapsto> call_vnode S_IFDIR], pages_out := P\<rparr>"

lemma call_space_sel [simp]:
  "pframes (call_space x y P) = pframes cow_space" "mmobjs (call_space x y P) = mmobjs cow_space"
  "kmem (call_space x y P) = kmem cow_space" "pages_out (call_space x y P) = P" "curproc (call_space x y P) = Some 1"
  "procs (call_space x y P) = [1 \<mapsto> call_proc]" "vmmaps (call_space x y P) = vmmaps cow_space" "vmareas (call_space x y P) = vmareas cow_space"
  "vnodes (call_space x y P) = [5 \<mapsto> call_vnode S_IFREG, 6 \<mapsto> call_vnode S_IFDIR]"
  "files (call_space x y P) = [1 \<mapsto> call_file x 5, 2 \<mapsto> call_file y 6]" "qlist (call_space x y P) q = []"
  "curthr (call_space x y P) = Some 1"
  "(call_space x y P)\<lparr>pages_out := Q\<rparr> = call_space x y Q"
  by (simp_all add: call_space_def cow_space_def example_t1_simps)

lemma call_space_wf:
  assumes "distinct P" and "0x1000 \<in> set P"
  shows "pages_wf call_env (call_space x y P)"
proof -
  let ?s = "call_space x y P"
  have l: "lists_wf ?s = lists_wf cow_space" by (rule lists_wf_cong) (simp_all add: call_space_def)
  have h: "hash_wf e ?s = hash_wf e cow_space" for e by (rule hash_wf_cong) (simp_all add: call_space_def)
  have c: "cfg example_env = example_cfg" by (simp add: example_env_def)
  have e: "hash_wf call_env cow_space = hash_wf example_env cow_space" by (simp add: hash_wf_def hash_page_def c)
  have o: "objs_wf ?s = objs_wf cow_space" by (rule objs_wf_cong) simp_all
  have a: "addrs_wf ?s" using assms by (auto simp: addrs_wf_def example_t1_simps PAGE_ALIGNED_def PAGE_OFFSET_def split: if_splits)
  show ?thesis using cow_space_wf a unfolding pages_wf_def l h e o by blast
qed

lemma call_faulting: "faulting (call_space x y P) 0x407123 call_proc cow_area"
  by (simp add: faulting_def cow_space_def load_map_def call_proc_def example_proc_def vmmap_lookup_def cow_area_def ADDR_TO_PN_def)

lemma call_user_page:
  assumes "perm \<in> {1, 2}" and "distinct P" and "0x1000 \<in> set P" and "n \<in> {12, 16}"
  shows "user_page call_env (call_space x y P) 0x407123 n perm call_proc cow_area [2, 1] 1 (fresh_frame 1 7 0x1000)"
proof -
  have a: "vma_prot cow_area AND perm = perm" "vma_obj cow_area = Some 2" using assms(1) by (auto simp: cow_area_def)
  have g: "pframes (call_space x y P) 1 = Some (fresh_frame 1 7 0x1000)" by (simp add: example_t1_simps)
  have r: "resolves (call_space x y P) [2, 1] 7 1" "lookup_ok (call_space x y P) [2, 1] 7"
    by (simp_all add: lookup_ok_def holds_page_def example_t1_simps)
  show ?thesis unfolding user_page_def cow_fault_page
    using a g r assms(4) by (intro conjI call_space_wf [OF assms(2,3)] call_faulting) auto
qed

lemma call_frame:
  "pf_obj (fresh_frame 1 7 0x1000) = Some 1" "mmobjs (call_space x y P) 1 = Some (the (mmobjs cow_space 1))"
  "mmo_ops (the (mmobjs cow_space 1)) \<noteq> vnode_mmobj_ops" "qlist (call_space x y P) (PFWAITQ 1) = []"
  by (simp_all add: example_t1_simps)

lemma call_thread [simp]: "threads (call_space x y P) = [1 \<mapsto> the (threads cow_space 1)]"
  by (simp add: call_space_def cow_space_def example_t1_simps)

theorem unknown_syscall_reported_witness:
  "\<exists>s'. syscall_dispatch 0 call_env example_abi 9 0 0 (call_space 0 0 [0x1000]) = Ret (- 1) s'
    \<and> syscall_dispatch 0 call_env example_abi 2 0 0 s' = Ret 22 s'"
proof -
  have "errno_num (cfg call_env) ENOSYS = 22" by (simp add: example_cfg_def)
  then show ?thesis
    using unknown_syscall_reported [of example_abi 9 2 "call_space 0 0 [0x1000]" 1 "the (threads cow_space 1)" 0 call_env 0 0 0 0 0] by auto
qed

theorem sys_read_leaks_page_witness:
  "\<exists>s'. sys_read call_env example_abi 0x407123 (call_space 0 0 [0x1000]) = Ret (- 1) s' \<and> pages_out s' = [0x2000, 0x1000]"
proof -
  let ?s = "call_space 0 0 [0x1000]"
  let ?m = "memcpy 0x9000 0x1123 12 (touched 1 ?s)"
  have u: "user_page call_env ?s 0x407123 (fst (read_layout example_abi)) (PROT_READ (cfg call_env)) call_proc cow_area [2, 1] 1 (fresh_frame 1 7 0x1000)"
    by (rule call_user_page) (simp_all add: word_rw_def example_cfg_def)
  have args: "get_args call_env example_abi (read_layout example_abi) 0x407123 ?s = Ret (Inr (snd word_rw (kmem ?m) 0x9000)) ?m"
    using get_args_page [OF u, of example_abi] by (simp add: word_rw_def PAGE_OFFSET_def)
  have k: "bad_fd call_env (rw_fd (snd word_rw (kmem ?m) 0x9000))" "0 < rw_nbytes (snd word_rw (kmem ?m) 0x9000)"
    by (simp_all add: word_rw_def memcpy_def load32_def bad_fd_def example_cfg_def example_t1_simps)
  have p: "page_alloc call_env (pages_out ?m) = Some 0x2000" by (simp add: example_env_sel memcpy_def)
  have t: "curthr ?m = Some 1" "threads ?m 1 = Some (the (threads cow_space 1))" by (simp_all add: memcpy_def touched_def split: option.splits)
  show ?thesis using sys_read_leaks_page [OF args k p t] by (auto simp: memcpy_def)
qed

lemma call_read:
  "do_read call_env 0 a n (call_space 0 0 P) = Ret (Inr 4) (call_space 4 0 P)"
  by (simp add: do_read_def bad_fd_def example_cfg_def example_fget_def example_fput_def cur_proc_def call_proc_def file_upd_def file_vnode_def
      call_file_def vn_read_def call_vnode_def ret_word_def)
    (rule kstate.equality; simp add: call_space_def call_file_def fun_upd_twist)

theorem read_loop_copies_whole_buffer_witness:
  "\<exists>s'. read_loop call_env 0 0x407123 16 0 (call_space 0 0 [0x1000]) = Ret 4 s'
    \<and> page_bytes s' 0x1000 0x12B = kmem (call_space 4 0 [0x1000]) 0x2008"
proof -
  have p: "page_alloc call_env (pages_out (call_space 0 0 [0x1000])) = Some 0x2000" by (simp add: example_env_sel)
  have u: "user_page call_env (call_space 4 0 [0x2000, 0x1000]) 0x407123 16 (PROT_WRITE (cfg call_env)) call_proc cow_area [2, 1] 1 (fresh_frame 1 7 0x1000)"
    by (rule call_user_page) (simp_all add: example_cfg_def)
  have r: "do_read call_env 0 0x2000 16 ((call_space 0 0 [0x1000])\<lparr>pages_out := 0x2000 # pages_out (call_space 0 0 [0x1000])\<rparr>)
    = Ret (Inr 4) (call_space 4 0 [0x2000, 0x1000])" by (simp add: call_read)
  obtain s' where s': "read_loop call_env 0 0x407123 16 0 (call_space 0 0 [0x1000]) = Ret (0 + 4) s'"
    and b: "\<forall>i. i < 16 \<longrightarrow> page_bytes s' (pf_addr (fresh_frame 1 7 0x1000)) (PAGE_OFFSET 0x407123 + i) = kmem (call_space 4 0 [0x2000, 0x1000]) (0x2000 + i)"
    using read_loop_copies_whole_buffer [OF _ _ p r _ u call_frame, of 0] by (auto simp: PAGE_SIZE_def)
  from spec [OF b, of 8] have "page_bytes s' 0x1000 0x12B = kmem (call_space 4 0 [0x1000]) 0x2008" by (simp add: PAGE_OFFSET_def)
  then show ?thesis using s' by auto
qed

theorem write_loop_copies_user_bytes_witness:
  "\<exists>s1. kmem s1 0x2004 = page_bytes (call_space 0 0 [0x1000]) 0x1000 0x127 \<and> pages_out s1 = [0x2000, 0x1000]
    \<and> write_loop call_env 0 0x407123 16 0 (call_space 0 0 [0x1000]) = bindK (do_write call_env 0 0x2000 16 s1) (\<lambda>r s2.
        case r of Inl e \<Rightarrow> fail_with call_env e s2 | Inr k \<Rightarrow> bindK (free_page 0x2000 s2) (\<lambda>_ s3. Ret (0 + k) s3))"
proof -
  have p: "page_alloc call_env (pages_out (call_space 0 0 [0x1000])) = Some 0x2000" by (simp add: example_env_sel)
  have u: "user_page call_env ((call_space 0 0 [0x1000])\<lparr>pages_out := 0x2000 # pages_out (call_space 0 0 [0x1000])\<rparr>) 0x407123 16
    (PROT_READ (cfg call_env)) call_proc cow_area [2, 1] 1 (fresh_frame 1 7 0x1000)"
    unfolding call_space_sel by (rule call_user_page) (simp_all add: example_cfg_def)
  obtain s1 where b: "\<forall>i. i < 16 \<longrightarrow> kmem s1 (0x2000 + i) = page_bytes (call_space 0 0 [0x1000]) (pf_addr (fresh_frame 1 7 0x1000)) (PAGE_OFFSET 0x407123 + i)"
    and r: "pages_out s1 = [0x2000, 0x1000]"
      "write_loop call_env 0 0x407123 16 0 (call_space 0 0 [0x1000]) = bindK (do_write call_env 0 0x2000 16 s1) (\<lambda>r s2.
        case r of Inl e \<Rightarrow> fail_with call_env e s2 | Inr k \<Rightarrow> bindK (free_page 0x2000 s2) (\<lambda>_ s3. Ret (0 + k) s3))"
    using write_loop_copies_user_bytes [OF _ p u, of 0 0] by (auto simp: PAGE_SIZE_def)
  from spec [OF b, of 4] have "kmem s1 0x2004 = page_bytes (call_space 0 0 [0x1000]) 0x1000 0x127" by (simp add: PAGE_OFFSET_def)
  then show ?thesis using r by blast
qed

theorem getdents_loop_terminates_witness:
  "getdents_loop (100 + 7) call_env 1 0x9100 0x407123 0x600 0 (call_space 0 0 [0x1000])
    = getdents_loop 100 call_env 1 0x9100 0x407123 0x600 0 (call_space 0 0 [0x1000])"
  by (rule getdents_loop_terminates) (simp_all add: example_cfg_def)

lemma call_getdent:
  "do_getdent call_env 1 a (call_space 0 0 P) = Ret (Inr 16) (call_space 0 16 P)"
  by (simp add: do_getdent_def bad_fd_def example_cfg_def example_fget_def example_fput_def cur_proc_def call_proc_def file_upd_def file_vnode_def
      call_file_def vop_def mode_is_def call_vnode_def ret_word_def)
    (rule kstate.equality; simp add: call_space_def call_file_def fun_upd_twist)

theorem getdents_overruns_buffer_witness:
  "\<exists>s'. getdents_loop (0 + 2) call_env 1 0x9100 0x407123 1 0 (call_space 0 0 [0x1000]) = Ret 16 s'
    \<and> page_bytes s' 0x1000 0x12B = kmem (call_space 0 16 [0x1000]) 0x9108"
proof -
  have z: "of_nat (DIRENT_SIZE (cfg call_env)) = (16::u32)" by (simp add: example_cfg_def)
  have u: "user_page call_env (call_space 0 16 [0x1000]) 0x407123 (of_nat (DIRENT_SIZE (cfg call_env))) (PROT_WRITE (cfg call_env))
    call_proc cow_area [2, 1] 1 (fresh_frame 1 7 0x1000)"
    by (rule call_user_page) (simp_all add: example_cfg_def)
  obtain s' where s': "getdents_loop (0 + 2) call_env 1 0x9100 0x407123 1 0 (call_space 0 0 [0x1000]) = Ret 16 s'"
    and b: "\<forall>i. i < 16 \<longrightarrow> page_bytes s' (pf_addr (fresh_frame 1 7 0x1000)) (PAGE_OFFSET 0x407123 + i) = kmem (call_space 0 16 [0x1000]) (0x9100 + i)"
    using getdents_overruns_buffer [OF _ _ call_getdent _ u call_frame, of 1 0, unfolded z] by auto
  from spec [OF b, of 8] have "page_bytes s' 0x1000 0x12B = kmem (call_space 0 16 [0x1000]) 0x9108" by (simp add: PAGE_OFFSET_def)
  then show ?thesis using s' by blast
qed

theorem sys_getdents_whole_entries_witness:
  "\<exists>r s'. getdents_loop 2 call_env 1 0x9100 0x407123 1 0 (call_space 0 0 [0x1000]) = Ret r s' \<and> (r = - 1 \<or> 16 dvd unat r \<and> unat r < 17)"
proof -
  have z: "of_nat (DIRENT_SIZE (cfg call_env)) = (16::u32)" "DIRENT_SIZE (cfg call_env) = 16" by (simp_all add: example_cfg_def)
  have "user_page call_env (call_space 0 16 [0x1000]) 0x407123 16 (PROT_WRITE (cfg call_env)) call_proc cow_area [2, 1] 1 (fresh_frame 1 7 0x1000)"
    by (rule call_user_page) (simp_all add: example_cfg_def)
  from copy_to_user_eq [OF this call_frame]
  have r: "getdents_loop 2 call_env 1 0x9100 0x407123 1 0 (call_space 0 0 [0x1000])
    = Ret 16 (copied_out 1 (fresh_frame 1 7 0x1000) 0x407123 0x9100 16 (call_space 0 16 [0x1000]))"
    using z unfolding numeral_2_eq_2 by (simp add: call_getdent Let_def)
  show ?thesis using sys_getdents_whole_entries [OF _ _ r] r z by auto
qed

theorem user_vecdup_frees_garbage_witness:
  "user_vecdup 1 example_abi call_env \<lparr>av_vec = 0x500000, av_len = 0\<rparr> (call_space 0 0 [0x1000]) = Stop BAD_POINTER"
proof -
  have l: "load_map 1 (call_space 0 0 [0x1000]) = Ret \<lparr>vmm_id = 1, vmm_list = [cow_area], vmm_proc = Some 1\<rparr> (call_space 0 0 [0x1000])"
    by (simp add: load_map_def cow_space_def)
  have "copy_from_user call_env 0x9000 0x500000 8 (call_space 0 0 [0x1000]) = Ret (Inl EFAULT) (call_space 0 0 [0x1000])"
    by (rule copy_from_user_denied [where mp = 1 and p = 1 and pr = call_proc and a = "0x500000"])
      (simp_all add: l [unfolded One_nat_def] call_proc_def example_proc_def map_loaded_def allows_def areas_def view_def covers_def cow_area_def ADDR_TO_PN_def)
  then show ?thesis
    using user_vecdup_frees_garbage [of call_env "\<lparr>av_vec = 0x500000, av_len = 0\<rparr>" example_abi "call_space 0 0 [0x1000]"
        "0x9000" "call_space 0 0 [0x1000]" "0x9000" "call_space 0 0 [0x1000]" EFAULT "call_space 0 0 [0x1000]" BAD_POINTER 0]
    by (simp add: load32_def example_t1_simps)
qed

lemma store32_sel [simp]: "threads (store32 a w s) = threads s" "curthr (store32 a w s) = curthr s"
  by (simp_all add: store32_def)

theorem syscall_handler_returns_witness:
  "\<exists>s' ret s1. syscall_handler 0 call_env example_abi 0xC000 (store32 0xC01C 2 (call_space 0 0 [0x1000])) = Ret () s'
    \<and> syscall_dispatch 0 call_env example_abi 2 (load32 (kmem (store32 0xC01C 2 (call_space 0 0 [0x1000]))) 0xC014) 0xC000
        (store32 0xC01C 2 (call_space 0 0 [0x1000])) = Ret ret s1
    \<and> load32 (kmem s') 0xC01C = ret"
proof -
  let ?s = "store32 0xC01C 2 (call_space 0 0 [0x1000])"
  have e: "\<forall>r s s'. kthread_exit call_env r s \<noteq> Ret () s'" by (intro allI exit_leaves) simp
  have k: "load32 (kmem ?s) 0xC01C = 2" by (rule load32_store32)
  have t: "kt_cancelled (the (threads cow_space 1)) = False" "kt_errno (the (threads cow_space 1)) = 0"
    by (simp_all add: cow_space_def example_t1_simps)
  have h: "syscall_handler 0 call_env example_abi 0xC000 ?s = Ret () (store32 0xC01C 0 ?s)"
    using k t by (simp add: syscall_handler_def exit_if_cancelled_def syscall_dispatch_def example_cfg_def Let_def)
  have o: "0xC000 + R_EAX_OFFSET (cfg call_env) = 0xC01C" "0xC000 + R_EDX_OFFSET example_abi = 0xC014" by (simp_all add: example_cfg_def)
  show ?thesis using syscall_handler_returns [OF e h, unfolded o k] h by blast
qed

end
