(* ===== verification/Boot.thy ===== *)
theory Boot
  imports Proc
begin

text \<open>
  The start and the end of the kernel, \<open>src/kernel/main/kmain.c\<close>: \<open>bootstrap\<close> makes the idle process and passes control to
  it, \<open>idleproc_run\<close> makes the init process, the device files, waits for init and shuts the kernel down.
  \<open>Config.mk\<close> compiles in the drivers, the file systems and virtual memory. The other parts of the
  kernel that are called here and are not part of the sources are fields of \<open>bootabi\<close>; \<open>init_call_all\<close> runs the initialisers, \<open>pageoutd_init\<close> among them, and
  gives the process and the thread of the pageout daemon. Functions that run as threads are named by their addresses.
\<close>

record bootabi =
  pt_template_init :: "unit kop"
  context_make_active :: "context_t \<Rightarrow> unit kop"
  init_call_all :: "(ptr \<times> ptr) kop"
  intr_enable :: "kstate \<Rightarrow> kstate"
  vfs_shutdown :: "bool kop"
  hard_shutdown :: "unit kop"
  kernel_execve :: "string \<Rightarrow> string list \<Rightarrow> string list \<Rightarrow> unit kop"
  MEM_NULL_DEVID :: u32
  MEM_ZERO_DEVID :: u32
  TTY0_DEVID :: u32
  idleproc_run_addr :: nat
  initproc_run_addr :: nat

section \<open>The first processes\<close>

definition bootstrap :: "kenv \<Rightarrow> bootabi \<Rightarrow> unit kop" where
  "bootstrap env b s =
     bindK (pt_template_init b s) (\<lambda>_ s.
     bindK (proc_create env ''idleProc'' s) (\<lambda>r s.
       case r of
         None \<Rightarrow> Stop BAD_POINTER
       | Some idleProc \<Rightarrow>
           bindK (kthread_create env idleProc (idleproc_run_addr b) 0 0 s) (\<lambda>idleThr s.
             let s = s\<lparr>curproc := Some idleProc\<rparr> in
             bindK (cur_proc s) (\<lambda>(_, pr) s.
             bindK (kassert (PID_IDLE (cfg env) = p_pid pr) s) (\<lambda>_ s.
               let s = s\<lparr>curthr := Some idleThr\<rparr> in
               bindK (deref (threads s) idleThr s) (\<lambda>t s.
               bindK (context_make_active b (kt_ctx t) s) (\<lambda>_ s.
                 Stop PANIC)))))))"

definition initproc_create :: "kenv \<Rightarrow> bootabi \<Rightarrow> ptr kop" where
  "initproc_create env b s =
     bindK (proc_create env ''initProc'' s) (\<lambda>r s.
       case r of
         None \<Rightarrow> Stop KASSERT_failed
       | Some initProc \<Rightarrow>
           bindK (deref (procs s) initProc s) (\<lambda>pr s.
           bindK (kassert (PID_INIT (cfg env) = p_pid pr) s) (\<lambda>_ s.
             kthread_create env initProc (initproc_run_addr b) 0 0 s)))"

text \<open>The test that the switch selects is \<open>INIT\<close>.\<close>

definition initproc_run :: "bootabi \<Rightarrow> unit kop" where
  "initproc_run b s = kernel_execve b ''/sbin/init'' [] [] s"

section \<open>The idle process\<close>

text \<open>The results of the calls that make the device files are only printed.\<close>

definition make_devices :: "kenv \<Rightarrow> bootabi \<Rightarrow> unit kop" where
  "make_devices env b s =
     bindK (do_mkdir env ''/dev'' s) (\<lambda>_ s.
     bindK (do_mknod env ''/dev/null'' S_IFCHR (MEM_NULL_DEVID b) s) (\<lambda>_ s.
     bindK (do_mknod env ''/dev/zero'' S_IFCHR (MEM_ZERO_DEVID b) s) (\<lambda>_ s.
     bindK (do_mknod env ''/dev/tty0'' S_IFCHR (TTY0_DEVID b) s) (\<lambda>_ s.
       Ret () s))))"

definition idleproc_run :: "nat \<Rightarrow> kenv \<Rightarrow> bootabi \<Rightarrow> unit kop" where
  "idleproc_run n env b s =
     bindK (initproc_create env b s) (\<lambda>initthr s.
     bindK (init_call_all b s) (\<lambda>(pageoutd, pageoutd_thr) s.
     bindK (cur_proc s) (\<lambda>(p, _) s.
     bindK (proc_upd p (\<lambda>pr. pr\<lparr>p_cwd := vfs_root_vn s\<rparr>) s) (\<lambda>_ s.
     bindK (deref (threads s) initthr s) (\<lambda>it s.
       case (kt_proc it, vfs_root_vn s) of
         (Some ip, Some root) \<Rightarrow>
           bindK (proc_upd ip (\<lambda>pr. pr\<lparr>p_cwd := Some root\<rparr>) s) (\<lambda>_ s.
           bindK (vref root s) (\<lambda>_ s.
           bindK (vref root s) (\<lambda>_ s.
           bindK (make_devices env b s) (\<lambda>_ s.
           bindK (sched_make_runnable initthr (intr_enable b s)) (\<lambda>_ s.
           bindK (do_waitpid n env (-1) 0 s) (\<lambda>r s.
           bindK (kassert (case r of Inr (child, _) \<Rightarrow> PID_INIT (cfg env) = child | Inl _ \<Rightarrow> False) s) (\<lambda>_ s.
           bindK (cur_proc s) (\<lambda>(_, pr) s.
             case p_cwd pr of
               None \<Rightarrow> Stop KASSERT_failed
             | Some cwd \<Rightarrow>
                 bindK (vnode_put env cwd s) (\<lambda>_ s.
                 bindK (vfs_shutdown b s) (\<lambda>failed s.
                   if failed then Stop PANIC
                   else bindK (pframe_shutdown n env pageoutd (Some pageoutd_thr) s) (\<lambda>_ s.
                          hard_shutdown b s)))))))))))
       | _ \<Rightarrow> Stop BAD_POINTER)))))"

section \<open>What bootstrap leaves behind\<close>

text \<open>An allocator that has an address left when at most one is in use.\<close>

definition can_alloc :: "((ptr \<rightharpoonup> 'o) \<Rightarrow> ptr option) \<Rightarrow> bool" where
  "can_alloc slab \<longleftrightarrow> (\<exists>p. slab Map.empty = Some p) \<and> (\<forall>p x. \<exists>q. slab [p \<mapsto> x] = Some q \<and> q \<noteq> p)"

definition can_alloc_thread :: "kenv \<Rightarrow> bool" where
  "can_alloc_thread env \<longleftrightarrow> (\<forall>s. threads s = Map.empty \<longrightarrow> (\<exists>t. kthread_slab env s = Some t))
     \<and> (\<forall>s t x. threads s = [t \<mapsto> x] \<longrightarrow> (\<exists>u. kthread_slab env s = Some u \<and> u \<noteq> t))"

definition first_pids :: "kconfig \<Rightarrow> bool" where
  "first_pids c \<longleftrightarrow> PID_IDLE c = 0 \<and> PID_INIT c = 1 \<and> 2 \<le> PROC_MAX_COUNT c"

text \<open>The state when \<open>kmain\<close> calls \<open>bootstrap\<close>, and a state in which only the idle process exists.\<close>

definition at_boot :: "kstate \<Rightarrow> bool" where
  "at_boot s \<longleftrightarrow> procs s = Map.empty \<and> all_procs s = [] \<and> next_pid s = 0 \<and> threads s = Map.empty \<and> vmmaps s = Map.empty
     \<and> vfs_root_vn s = None"

definition idle_only :: "kconfig \<Rightarrow> kstate \<Rightarrow> ptr \<Rightarrow> ptr \<Rightarrow> bool" where
  "idle_only c s idle thr \<longleftrightarrow> (\<exists>pr t mp vm. procs s = [idle \<mapsto> pr] \<and> all_procs s = [idle] \<and> p_pid pr = PID_IDLE c \<and> p_pproc pr = None
     \<and> p_children pr = [] \<and> p_cwd pr = None \<and> p_threads pr = [thr] \<and> threads s = [thr \<mapsto> t] \<and> kt_proc t = Some idle
     \<and> vmmaps s = [mp \<mapsto> vm] \<and> curproc s = Some idle \<and> curthr s = Some thr \<and> next_pid s = PID_INIT c)"

lemma bootstrap_idle:
  assumes c: "first_pids (cfg env)" and a: "can_alloc (proc_slab env)" "can_alloc (vmmap_slab env)" "can_alloc_thread env"
    and s: "at_boot s" and b: "pt_template_init b = Ret ()" "context_make_active b = (\<lambda>_. Gone)"
  shows "\<exists>s' idle thr. bootstrap env b s = Gone s' \<and> idle_only (cfg env) s' idle thr"
proof -
  obtain idle mp where al: "proc_slab env Map.empty = Some idle" "vmmap_slab env Map.empty = Some mp"
    using a(1,2) by (auto simp: can_alloc_def)
  obtain m where m: "PROC_MAX_COUNT (cfg env) = Suc (Suc m)" "PID_IDLE (cfg env) = 0" "PID_INIT (cfg env) = 1"
    using c by (auto simp: first_pids_def dest: le_Suc_ex)
  have id: "proc_getid env s = Ret 0 (s\<lparr>next_pid := 1\<rparr>)" using s m by (simp add: proc_getid_def at_boot_def)
  let ?n = "PROC_NAME_LEN (cfg env)"
  obtain pr s1 where p: "proc_create env ''idleProc'' s = Ret (Some idle) s1" "procs s1 = [idle \<mapsto> pr]" "p_pid pr = 0" "p_pproc pr = None"
    "p_children pr = []" "p_cwd pr = None" "p_threads pr = []" "all_procs s1 = [idle]" "threads s1 = Map.empty" "next_pid s1 = 1"
    "vmmaps s1 = [mp \<mapsto> \<lparr>vmn_list = [], vmn_proc = Some idle\<rparr>]"
    using id s al m
    by (simp add: proc_create_def at_boot_def Let_def proc_upd_def vmmap_create_def sched_queue_init_def)
  obtain thr where thr: "kthread_slab env s1 = Some thr" using a(3) p(9) by (auto simp: can_alloc_thread_def)
  obtain s' t where "bootstrap env b s = Gone s'" "procs s' = [idle \<mapsto> pr\<lparr>p_threads := [thr]\<rparr>]" "all_procs s' = [idle]" "threads s' = [thr \<mapsto> t]"
    "kt_proc t = Some idle" "vmmaps s' = vmmaps s1" "curproc s' = Some idle" "curthr s' = Some thr" "next_pid s' = 1"
    using p thr b m by (simp add: bootstrap_def kthread_create_def Let_def proc_upd_def thr_update_def cur_proc_def)
  moreover from this have "idle_only (cfg env) s' idle thr" unfolding idle_only_def using p(3-6,11) m
    by (intro exI [of _ "pr\<lparr>p_threads := [thr]\<rparr>"] exI [of _ t] exI [of _ mp] exI [of _ "\<lparr>vmn_list = [], vmn_proc = Some idle\<rparr>"]) simp
  ultimately show ?thesis by blast
qed

lemma initproc_child:
  assumes c: "first_pids (cfg env)" and a: "can_alloc (proc_slab env)" "can_alloc (vmmap_slab env)" "can_alloc_thread env"
    and s: "idle_only (cfg env) s idle thr"
  shows "\<exists>s' initp initthr pr cr t. initproc_create env b s = Ret initthr s' \<and> initp \<noteq> idle \<and> all_procs s' = [idle, initp]
    \<and> procs s' = [idle \<mapsto> cr, initp \<mapsto> pr] \<and> p_pid pr = PID_INIT (cfg env) \<and> p_pproc pr = Some idle \<and> p_threads pr = [initthr]
    \<and> p_pid cr = PID_IDLE (cfg env) \<and> p_children cr = [initp]
    \<and> threads s' initthr = Some t \<and> kt_proc t = Some initp \<and> proc_initproc s' = Some initp"
proof -
  obtain cr t mp vm where i: "procs s = [idle \<mapsto> cr]" "all_procs s = [idle]" "p_pid cr = PID_IDLE (cfg env)" "p_children cr = []"
    "p_cwd cr = None" "threads s = [thr \<mapsto> t]" "vmmaps s = [mp \<mapsto> vm]" "curproc s = Some idle" "next_pid s = PID_INIT (cfg env)"
    using s by (auto simp: idle_only_def)
  obtain initp mp' where al: "proc_slab env [idle \<mapsto> cr] = Some initp" "initp \<noteq> idle" "vmmap_slab env [mp \<mapsto> vm] = Some mp'"
    using a(1,2) by (metis can_alloc_def)
  obtain m where m: "PROC_MAX_COUNT (cfg env) = Suc (Suc m)" "PID_IDLE (cfg env) = 0" "PID_INIT (cfg env) = 1"
    using c by (auto simp: first_pids_def dest: le_Suc_ex)
  have id: "proc_getid env s = Ret 1 (s\<lparr>next_pid := (1 + 1) mod int (PROC_MAX_COUNT (cfg env))\<rparr>)" using i m by (simp add: proc_getid_def)
  define pr where "pr = (slab_proc env initp)\<lparr>p_pid := 1, p_comm := take (PROC_NAME_LEN (cfg env)) ''initProc'', p_threads := [], p_children := [],
    p_pproc := Some idle, p_status := 0, p_state := PROC_RUNNING,
    p_pagedir := pt_create_pagedir env (s\<lparr>next_pid := (1 + 1) mod int (PROC_MAX_COUNT (cfg env)), proc_initproc := Some initp\<rparr>),
    p_files := replicate (NFILES (cfg env)) None, p_cwd := None, p_vmmap := Some mp'\<rparr>"
  obtain s1 where p: "proc_create env ''initProc'' s = Ret (Some initp) s1"
    "procs s1 = [idle \<mapsto> cr\<lparr>p_children := [initp]\<rparr>, initp \<mapsto> pr]" "p_pid pr = 1" "p_pproc pr = Some idle" "p_threads pr = []"
    "all_procs s1 = [idle, initp]" "threads s1 = [thr \<mapsto> t]" "proc_initproc s1 = Some initp"
    using id i al m
    by (simp add: proc_create_def Let_def proc_upd_def vmmap_create_def sched_queue_init_def cur_proc_def pr_def fun_upd_twist)
  obtain u where u: "kthread_slab env s1 = Some u" "u \<noteq> thr" using a(3) p(7) unfolding can_alloc_thread_def by blast
  obtain s' x where "initproc_create env b s = Ret u s'" "all_procs s' = [idle, initp]"
    "procs s' = [idle \<mapsto> cr\<lparr>p_children := [initp]\<rparr>, initp \<mapsto> pr\<lparr>p_threads := [u]\<rparr>]"
    "threads s' u = Some x" "kt_proc x = Some initp" "proc_initproc s' = Some initp"
    using p u m al(2) by (simp add: initproc_create_def kthread_create_def Let_def proc_upd_def thr_update_def fun_upd_twist)
  then show ?thesis using p(3,4) m i(3) al(2)
    by (intro exI [of _ s'] exI [of _ initp] exI [of _ u] exI [of _ "pr\<lparr>p_threads := [u]\<rparr>"] exI [of _ "cr\<lparr>p_children := [initp]\<rparr>"]
        exI [of _ x]) simp
qed

text \<open>
  C17: the kernel boots with the processes it needs. From a state without processes, \<open>bootstrap\<close> gives control to the thread of a
  new process with the number \<open>PID_IDLE\<close>, which has no parent; \<open>initproc_create\<close>, called there, makes the process with the
  number \<open>PID_INIT\<close> as the only child of the idle process, remembers it as the one that inherits orphans, and
  returns its thread. No assertion fails on the way.
\<close>

theorem boot_creates_idle_and_init:
  assumes "first_pids (cfg env)" and "can_alloc (proc_slab env)" "can_alloc (vmmap_slab env)" "can_alloc_thread env"
    and "at_boot s" and "pt_template_init b = Ret ()" "context_make_active b = (\<lambda>_. Gone)"
  shows "\<exists>s1 s2 idle thr initp initthr pr cr t. bootstrap env b s = Gone s1 \<and> idle_only (cfg env) s1 idle thr
    \<and> initproc_create env b s1 = Ret initthr s2 \<and> initp \<noteq> idle \<and> all_procs s2 = [idle, initp] \<and> procs s2 = [idle \<mapsto> cr, initp \<mapsto> pr]
    \<and> p_pid pr = PID_INIT (cfg env) \<and> p_pproc pr = Some idle \<and> p_threads pr = [initthr]
    \<and> p_pid cr = PID_IDLE (cfg env) \<and> p_children cr = [initp]
    \<and> threads s2 initthr = Some t \<and> kt_proc t = Some initp \<and> proc_initproc s2 = Some initp"
  using bootstrap_idle [OF assms] initproc_child [OF assms(1-4)] by metis

text \<open>A kernel before its first process, with the allocators of the examples.\<close>

definition boot_state :: kstate where "boot_state = (kstate0 Map.empty)\<lparr>threads := Map.empty, curthr := None, curproc := None\<rparr>"

definition example_boot :: bootabi where
  "example_boot = \<lparr>pt_template_init = Ret (), context_make_active = (\<lambda>_. Gone), init_call_all = Ret (3, 3), intr_enable = id,
     vfs_shutdown = Ret False, hard_shutdown = Gone, kernel_execve = (\<lambda>_ _ _. Gone), MEM_NULL_DEVID = 0x101, MEM_ZERO_DEVID = 0x102,
     TTY0_DEVID = 0x200, idleproc_run_addr = 1, initproc_run_addr = 2\<rparr>"

theorem boot_creates_idle_and_init_witness:
  "\<exists>s1 s2 idle thr initp initthr. bootstrap example_env example_boot boot_state = Gone s1 \<and> idle_only (cfg example_env) s1 idle thr
    \<and> initproc_create example_env example_boot s1 = Ret initthr s2 \<and> all_procs s2 = [idle, initp] \<and> proc_initproc s2 = Some initp"
proof -
  have c: "first_pids (cfg example_env)" by (simp add: first_pids_def example_env_def example_cfg_def)
  have f: "can_alloc first_free" by (auto simp: can_alloc_def first_free_def)
  have a: "can_alloc (proc_slab example_env)" "can_alloc (vmmap_slab example_env)" using f by (simp_all add: example_env_def)
  have k: "kthread_slab example_env = (\<lambda>s. first_free (threads s))" by (simp add: example_env_def)
  have t: "can_alloc_thread example_env" using f unfolding can_alloc_thread_def can_alloc_def k by metis
  have s: "at_boot boot_state" by (simp add: at_boot_def boot_state_def kstate0_def)
  have b: "pt_template_init example_boot = Ret ()" "context_make_active example_boot = (\<lambda>_. Gone)" by (simp_all add: example_boot_def)
  show ?thesis using boot_creates_idle_and_init [OF c a t s b] by blast
qed

end
