(* ===== verification/Mapanon.thy ===== *)
theory Mapanon
  imports Mmap
begin

text \<open>
  What \<open>mmap\<close> does with anonymous memory: \<open>vmmap_map\<close> (\<open>src/kernel/vm/vmmap.c\<close>) without an address and a file, as \<open>do_mmap\<close>
  (\<open>src/kernel/vm/mmap.c\<close>) calls it. The address space is again read as the partial function \<open>view\<close> from pages to what is
  mapped there: the call adds the highest free range of the length and nothing else, on a new shadow object over a new
  anonymous object.
\<close>

section \<open>Inserting an area into an address space in the store\<close>

lemma store_map_same: "holds_map s mp vs q \<Longrightarrow> store_map \<lparr>vmm_id = mp, vmm_list = vs, vmm_proc = q\<rparr> s = s"
proof -
  assume h: "holds_map s mp vs q"
  have "fold (\<lambda>a h. h(vma_id a \<mapsto> a)) xs H = H" if "\<forall>a\<in>set xs. H (vma_id a) = Some a" for xs and H :: "ptr \<rightharpoonup> vmarea"
    using that by (induction xs) (auto simp: fun_upd_idem)
  then have "fold (\<lambda>a h. h(vma_id a \<mapsto> a)) vs (vmareas s) = vmareas s" using h by (simp add: holds_map_def)
  then show ?thesis using h by (simp add: store_map_def holds_map_def fun_upd_idem)
qed

lemma map_insert_holds:
  fixes env :: kenv
  assumes map: "holds_map s mp vs q" "vmas_ok (cfg env) vs" and a: "vmareas s x = Some a" "vma_id a = x" "vma_vmmap a = None"
    and new: "x \<notin> vma_id ` set vs" "vma_ok (cfg env) a" "\<forall>v. covers a v \<longrightarrow> view vs v = None"
  defines "vs' \<equiv> vmlist_insert (a\<lparr>vma_vmmap := Some mp\<rparr>) vs"
  shows "map_insert env mp x s = Ret () (store_map \<lparr>vmm_id = mp, vmm_list = vs', vmm_proc = q\<rparr> s)"
    and "holds_map (store_map \<lparr>vmm_id = mp, vmm_list = vs', vmm_proc = q\<rparr> s) mp vs' q" and "vmas_ok (cfg env) vs'"
    and "view vs' = (\<lambda>v. if covers a v then Some (page_of a v) else view vs v)"
proof -
  show ok: "vmas_ok (cfg env) vs'" unfolding vs'_def using map(2) a(2) new by (intro vmlist_insert_ok) simp_all
  show "map_insert env mp x s = Ret () (store_map \<lparr>vmm_id = mp, vmm_list = vs', vmm_proc = q\<rparr> s)"
    using holds_map_load [OF map(1)] a new(2) by (simp add: map_insert_def on_map_def vmmap_insert_def vma_ok_def vs'_def)
  show "holds_map (store_map \<lparr>vmm_id = mp, vmm_list = vs', vmm_proc = q\<rparr> s) mp vs' q"
    using store_map_holds [of "\<lparr>vmm_id = mp, vmm_list = vs', vmm_proc = q\<rparr>" s] ok by (simp add: vmas_ok_def)
  show "view vs' = (\<lambda>v. if covers a v then Some (page_of a v) else view vs v)"
    using view_override [OF ok _ map(2), of "a\<lparr>vma_vmmap := Some mp\<rparr>"] by (simp add: vs'_def set_vmlist_insert cong: if_cong)
qed

lemma choose_start_highest:
  assumes map: "holds_map s mp vs q" "vmas_ok (cfg env) vs" and n: "0 < n" and room: "\<exists>v. free_range (cfg env) vs v n"
  obtains w where "choose_start env mp 0 n VMMAP_DIR_HILO s = Ret (Inr (int (unat w), w)) s"
    "free_range (cfg env) vs w n" "\<forall>v. free_range (cfg env) vs v n \<longrightarrow> v \<le> w"
proof -
  let ?m = "\<lparr>vmm_id = mp, vmm_list = vs, vmm_proc = q\<rparr>"
  have "vmm_list ?m \<noteq> [] \<or> unat (user_lo (cfg env)) + unat n \<le> unat (user_hi (cfg env))"
    using room by (auto simp: free_range_def)
  then obtain w where w: "vmmap_find_range (cfg env) n VMMAP_DIR_HILO ?m = Ret (int (unat w)) ?m"
    "free_range (cfg env) vs w n" "\<forall>v. free_range (cfg env) vs v n \<longrightarrow> v \<le> w"
    using vmmap_find_range_hilo [of "cfg env" ?m n] map(2) n room by auto
  then have "choose_start env mp 0 n VMMAP_DIR_HILO s = Ret (Inr (int (unat w), w)) s"
    using holds_map_load [OF map(1)] store_map_same [OF map(1)] by (simp add: choose_start_def on_map_def)
  with w(2,3) show thesis using that by blast
qed


section \<open>A private anonymous mapping\<close>

text \<open>The new area, and the heap of objects with the new anonymous object and the shadow object over it.\<close>

definition mapped_area :: "kenv \<Rightarrow> ptr \<Rightarrow> u32 \<Rightarrow> u32 \<Rightarrow> u32 \<Rightarrow> u32 \<Rightarrow> u32 \<Rightarrow> ptr \<Rightarrow> ptr \<Rightarrow> vmarea" where
  "mapped_area env x w n prot flags off ob sh = (slab_contents env x)\<lparr>vma_id := x, vma_vmmap := None, vma_start := w, vma_end := w + n,
     vma_off := ADDR_TO_PN off, vma_prot := prot, vma_flags := flags, vma_obj := Some sh, vma_olink := Some ob\<rparr>"

definition new_anon :: mmobj where
  "new_anon = \<lparr>mmo_ops = anon_mmobj_ops, mmo_refcount = 1, mmo_nrespages = 0, mmo_respages = [],
     mmo_un_f = mmo_vmas [], mmo_shadowed = None\<rparr>"

definition private_objs :: "ptr \<Rightarrow> ptr \<Rightarrow> ptr \<Rightarrow> (ptr \<rightharpoonup> mmobj) \<Rightarrow> ptr \<rightharpoonup> mmobj" where
  "private_objs x ob sh h = h(ob \<mapsto> new_anon\<lparr>mmo_un_f := mmo_vmas [x]\<rparr>,
     sh \<mapsto> new_shadow\<lparr>mmo_shadowed := Some ob, mmo_un_f := mmo_bottom_obj (Some ob)\<rparr>)"

text \<open>There is memory for the area and the two objects.\<close>

definition map_room :: "kenv \<Rightarrow> kstate \<Rightarrow> ptr \<Rightarrow> ptr \<Rightarrow> ptr \<Rightarrow> bool" where
  "map_room env s x ob sh \<longleftrightarrow> vmarea_slab env (vmareas s) = Some x \<and> mmobj_slab env (mmobjs s) = Some ob
     \<and> mmobj_slab env ((mmobjs s)(ob \<mapsto> new_anon)) = Some sh"

lemma map_roomD:
  assumes "map_room env s x ob sh" and "allocs_fresh env"
  shows "vmareas s x = None" "mmobjs s ob = None" "mmobjs s sh = None" "ob \<noteq> sh"
proof -
  have "vmareas s x = None" "mmobjs s ob = None" "((mmobjs s)(ob \<mapsto> new_anon)) sh = None"
    using assms unfolding map_room_def allocs_fresh_def by blast+
  then show "vmareas s x = None" "mmobjs s ob = None" "mmobjs s sh = None" "ob \<noteq> sh" by (auto split: if_splits)
qed

lemma vmmap_map_private:
  assumes start: "choose_start env mp lo n dir s = Ret (Inr (r, w)) s"
    and lo: "lo = 0 \<or> user_lo (cfg env) \<le> lo \<and> lo + n \<le> user_hi (cfg env)"
    and args: "0 < n" "NOT (PROT_NONE (cfg env) OR PROT_READ (cfg env) OR PROT_WRITE (cfg env) OR PROT_EXEC (cfg env)) AND prot = 0"
      "has_flag flags (MAP_PRIVATE (cfg env))" "MAP_PRIVATE (cfg env) \<noteq> 0" "PAGE_ALIGNED off"
    and room: "map_room env s x ob sh" "allocs_fresh env"
  shows "vmmap_map env mp None lo n prot flags off dir s =
    bindK (map_insert env mp x (s\<lparr>mmobjs := private_objs x ob sh (mmobjs s),
        vmareas := (vmareas s)(x \<mapsto> mapped_area env x w n prot flags off ob sh)\<rparr>)) (\<lambda>_ s. Ret (Inr (r, x)) s)"
proof -
  note fresh = map_roomD [OF room]
  have "MAP_PRIVATE (cfg env) AND flags \<noteq> 0" using args(3,4) by (simp add: has_flag_def and.commute)
  then show ?thesis
    using start lo args room(1) fresh
    by (auto simp: vmmap_map_def Let_def vmarea_alloc_def vma_upd_def anon_create_def link_object_def shadow_create_def olink_insert_def
        map_room_def private_objs_def mapped_area_def new_anon_def new_shadow_def fun_upd_twist)
qed


lemma mapped_area_ok:
  assumes "free_range c vs w n" and "0 < n"
  shows "vma_ok c (mapped_area env x w n prot flags off ob sh)" "unat (w + n) = unat w + unat n"
    "covers (mapped_area env x w n prot flags off ob sh) v \<longleftrightarrow> w \<le> v \<and> v < w + n"
    "covers (mapped_area env x w n prot flags off ob sh) v \<Longrightarrow> view vs v = None"
proof -
  have b: "unat (user_lo c) \<le> unat w" "unat w + unat n \<le> unat (user_hi c)" "0 < unat n"
    using assms by (auto simp: free_range_def word_less_nat_alt)
  then show sum: "unat (w + n) = unat w + unat n" using unat_user_hi [of c] by (intro unat_add_small) simp
  show "vma_ok c (mapped_area env x w n prot flags off ob sh)"
    using b sum by (simp add: vma_ok_def mapped_area_def word_le_nat_alt word_less_nat_alt)
  show cov: "covers (mapped_area env x w n prot flags off ob sh) v \<longleftrightarrow> w \<le> v \<and> v < w + n"
    by (simp add: covers_def mapped_area_def)
  show "view vs v = None" if "covers (mapped_area env x w n prot flags off ob sh) v"
    using assms(1) that unfolding cov free_range_def by (simp add: sum word_le_nat_alt word_less_nat_alt)
qed

text \<open>
  The address space after a private anonymous mapping of \<open>n\<close> pages at \<open>w\<close>: those pages are mapped to the shadow
  object \<open>sh\<close> over the anonymous object \<open>ob\<close>, both new and without resident pages, and everything else is as before.
\<close>

definition maps_private ::
  "kenv \<Rightarrow> ptr \<Rightarrow> ptr option \<Rightarrow> vmarea list \<Rightarrow> u32 \<Rightarrow> u32 \<Rightarrow> u32 \<Rightarrow> u32 \<Rightarrow> u32 \<Rightarrow> kstate \<Rightarrow> kstate \<Rightarrow> bool" where
  "maps_private env mp q vs w n prot flags off s s' \<longleftrightarrow> (\<exists>vs' x ob sh. holds_map s' mp vs' q \<and> vmas_ok (cfg env) vs'
     \<and> view vs' = (\<lambda>v. if w \<le> v \<and> v < w + n then Some (prot, flags, Some sh, ADDR_TO_PN off + (v - w)) else view vs v)
     \<and> mmobjs s ob = None \<and> mmobjs s sh = None \<and> ob \<noteq> sh \<and> mmobjs s' = private_objs x ob sh (mmobjs s)
     \<and> pframes s' = pframes s \<and> kmem s' = kmem s \<and> procs s' = procs s \<and> curproc s' = curproc s)"

lemma vmmap_map_free:
  assumes map: "holds_map s mp vs q" "vmas_ok (cfg env) vs" and n: "0 < n"
    and start: "choose_start env mp lo n dir s = Ret (Inr (r, w)) s" "lo = 0 \<or> user_lo (cfg env) \<le> lo \<and> lo + n \<le> user_hi (cfg env)"
    and free: "free_range (cfg env) vs w n"
    and args: "NOT (PROT_NONE (cfg env) OR PROT_READ (cfg env) OR PROT_WRITE (cfg env) OR PROT_EXEC (cfg env)) AND prot = 0"
      "has_flag flags (MAP_PRIVATE (cfg env))" "MAP_PRIVATE (cfg env) \<noteq> 0" "PAGE_ALIGNED off"
    and mem: "map_room env s x ob sh" "allocs_fresh env"
  obtains s' a where "vmmap_map env mp None lo n prot flags off dir s = Ret (Inr (r, x)) s'"
    "maps_private env mp q vs w n prot flags off s s'" "vmareas s' x = Some a" "vma_start a = w" "hwlog s' = hwlog s"
proof -
  note fresh = map_roomD [OF mem]
  let ?a = "mapped_area env x w n prot flags off ob sh"
  let ?t = "s\<lparr>mmobjs := private_objs x ob sh (mmobjs s), vmareas := (vmareas s)(x \<mapsto> ?a)\<rparr>"
  let ?vs = "vmlist_insert (?a\<lparr>vma_vmmap := Some mp\<rparr>) vs"
  let ?s = "store_map \<lparr>vmm_id = mp, vmm_list = ?vs, vmm_proc = q\<rparr> ?t"
  have x: "x \<notin> vma_id ` set vs" using map(1) fresh(1) by (auto simp: holds_map_def)
  have ht: "holds_map ?t mp vs q" using map(1) x by (force simp: holds_map_def)
  have a: "vmareas ?t x = Some ?a" "vma_id ?a = x" "vma_vmmap ?a = None" by (simp_all add: mapped_area_def)
  have "\<forall>v. covers ?a v \<longrightarrow> view vs v = None" using mapped_area_ok(4) [OF free n] by blast
  note ins = map_insert_holds [OF ht map(2) a x mapped_area_ok(1) [OF free n] this]
  have "page_of ?a v = (prot, flags, Some sh, ADDR_TO_PN off + (v - w))" for v by (simp add: page_of_def mapped_area_def)
  then have view: "view ?vs = (\<lambda>v. if w \<le> v \<and> v < w + n then Some (prot, flags, Some sh, ADDR_TO_PN off + (v - w)) else view vs v)"
    using ins(4) by (simp add: mapped_area_ok(3) [OF free n] cong: if_cong)
  have "?a\<lparr>vma_vmmap := Some mp\<rparr> \<in> set ?vs" by (simp add: set_vmlist_insert)
  then have "vmareas ?s x = Some (?a\<lparr>vma_vmmap := Some mp\<rparr>)" using ins(2) a(2) by (force simp: holds_map_def)
  moreover have "maps_private env mp q vs w n prot flags off s ?s"
    unfolding maps_private_def using ins(2,3) view fresh
    by (intro exI [of _ ?vs] exI [of _ x] exI [of _ ob] exI [of _ sh]) (simp add: store_map_def)
  ultimately show thesis
    using that [of ?s "?a\<lparr>vma_vmmap := Some mp\<rparr>"] vmmap_map_private [OF start n args mem] ins(1)
    by (simp add: mapped_area_def)
qed

lemma vmmap_map_maps:
  assumes map: "holds_map s mp vs q" "vmas_ok (cfg env) vs" and n: "0 < n" and room: "\<exists>v. free_range (cfg env) vs v n"
    and args: "NOT (PROT_NONE (cfg env) OR PROT_READ (cfg env) OR PROT_WRITE (cfg env) OR PROT_EXEC (cfg env)) AND prot = 0"
      "has_flag flags (MAP_PRIVATE (cfg env))" "MAP_PRIVATE (cfg env) \<noteq> 0" "PAGE_ALIGNED off"
    and mem: "map_room env s x ob sh" "allocs_fresh env"
  obtains w s' a where "vmmap_map env mp None 0 n prot flags off VMMAP_DIR_HILO s = Ret (Inr (int (unat w), x)) s'"
    "free_range (cfg env) vs w n" "\<forall>v. free_range (cfg env) vs v n \<longrightarrow> v \<le> w" "maps_private env mp q vs w n prot flags off s s'"
    "vmareas s' x = Some a" "vma_start a = w" "hwlog s' = hwlog s"
proof -
  obtain w where w: "choose_start env mp 0 n VMMAP_DIR_HILO s = Ret (Inr (int (unat w), w)) s"
    "free_range (cfg env) vs w n" "\<forall>v. free_range (cfg env) vs v n \<longrightarrow> v \<le> w"
    using choose_start_highest [OF map n room] by blast
  from vmmap_map_free [OF map n w(1) _ w(2) args mem] that w(2,3) show thesis by metis
qed

text \<open>The same at a page that the caller has chosen, when the range is free.\<close>

lemma vmmap_map_maps_at:
  assumes map: "holds_map s mp vs q" "vmas_ok (cfg env) vs" and free: "free_range (cfg env) vs lo n" and n: "0 < n" "0 < lo"
    and args: "NOT (PROT_NONE (cfg env) OR PROT_READ (cfg env) OR PROT_WRITE (cfg env) OR PROT_EXEC (cfg env)) AND prot = 0"
      "has_flag flags (MAP_PRIVATE (cfg env))" "MAP_PRIVATE (cfg env) \<noteq> 0" "PAGE_ALIGNED off"
    and mem: "map_room env s x ob sh" "allocs_fresh env"
  obtains s' where "vmmap_map env mp None lo n prot flags off dir s = Ret (Inr (0, x)) s'"
    "maps_private env mp q vs lo n prot flags off s s'" "hwlog s' = hwlog s"
proof -
  let ?m = "\<lparr>vmm_id = mp, vmm_list = vs, vmm_proc = q\<rparr>"
  have b: "unat (user_lo (cfg env)) \<le> unat lo" "unat lo + unat n \<le> unat (user_hi (cfg env))" using free by (auto simp: free_range_def)
  have "vmmap_is_range_empty (cfg env) lo n ?m = Ret True ?m"
    using vmmap_is_range_empty_correct [of "cfg env" ?m lo n] map(2) b n(1) free by simp
  then have c: "choose_start env mp lo n dir s = Ret (Inr (0, lo)) s"
    using holds_map_load [OF map(1)] store_map_same [OF map(1)] word_neq_0_conv [THEN iffD2, OF n(2)]
    by (simp add: choose_start_def on_map_def)
  have "unat (lo + n) = unat lo + unat n" using b(2) unat_user_hi [of "cfg env"] by (intro unat_add_small) simp
  then have "lo = 0 \<or> user_lo (cfg env) \<le> lo \<and> lo + n \<le> user_hi (cfg env)" using b by (simp add: word_le_nat_alt)
  from vmmap_map_free [OF map n(1) c this free args mem] that show thesis by metis
qed


section \<open>What mmap does\<close>

text \<open>
  C9: \<open>do_mmap\<close> without an address and a file, on a process with room for the mapping, returns the start of the highest
  free range that is long enough. The process then has exactly the pages of that range in addition, mapped with the
  protection and flags it asked for to a new private object over new anonymous memory; every other page is mapped as
  before, the areas stay ordered and disjoint, no page of memory changes, and the range is flushed from the
  translation buffer.
\<close>

theorem do_mmap_anon_maps:
  fixes len :: u32
  assumes cur: "curproc s = Some p" "procs s p = Some pr" "p_vmmap pr = Some mp"
    and map: "holds_map s mp vs q" "vmas_ok (cfg env) vs"
    and args: "has_flag flags (MAP_ANON (cfg env))" "has_flag flags (MAP_PRIVATE (cfg env))" "MAP_PRIVATE (cfg env) \<noteq> 0"
      "\<not> has_flag flags (MAP_FIXED (cfg env))" "PAGE_ALIGNED off" "0 < len" "len < USER_MEM_HIGH (cfg env) - USER_MEM_LOW (cfg env)"
      "NOT (PROT_NONE (cfg env) OR PROT_READ (cfg env) OR PROT_WRITE (cfg env) OR PROT_EXEC (cfg env)) AND prot = 0"
    and room: "\<exists>v. free_range (cfg env) vs v (ADDR_TO_PN (len - 1) + 1)" "map_room env s x ob sh" "allocs_fresh env"
  shows "\<exists>w s'. do_mmap env 0 len prot flags fd off s = Ret (Inr (PN_TO_ADDR w)) s'
    \<and> free_range (cfg env) vs w (ADDR_TO_PN (len - 1) + 1)
    \<and> (\<forall>v. free_range (cfg env) vs v (ADDR_TO_PN (len - 1) + 1) \<longrightarrow> v \<le> w)
    \<and> maps_private env mp q vs w (ADDR_TO_PN (len - 1) + 1) prot flags off s s'
    \<and> hwlog s' = hwlog s @ [TLB_FLUSH_RANGE (PN_TO_ADDR w) (ADDR_TO_PN (len - 1) + 1)]"
proof -
  let ?n = "ADDR_TO_PN (len - 1) + 1"
  have zero: "ADDR_TO_PN 0 = 0" "PAGE_ALIGNED 0" by (simp_all add: ADDR_TO_PN_def PAGE_ALIGNED_def PAGE_OFFSET_def)
  have "unat (0 :: u32) + unat len \<le> 2 ^ 32" using unsigned_less [of len, where ?'a = nat] by simp
  from page_span(5) [OF args(6) this] have n: "0 < ?n" by (simp add: zero)
  obtain w s1 a where w: "vmmap_map env mp None 0 ?n prot flags off VMMAP_DIR_HILO s = Ret (Inr (int (unat w), x)) s1"
    "free_range (cfg env) vs w ?n" "\<forall>v. free_range (cfg env) vs v ?n \<longrightarrow> v \<le> w" "maps_private env mp q vs w ?n prot flags off s s1"
    "vmareas s1 x = Some a" "vma_start a = w" "hwlog s1 = hwlog s"
    using vmmap_map_maps [OF map n room(1) args(8,2,3,5) room(2,3)] by blast
  let ?s = "hw (TLB_FLUSH_RANGE (PN_TO_ADDR w) ?n) s1"
  have "do_mmap env 0 len prot flags fd off s = Ret (Inr (PN_TO_ADDR w)) ?s"
    using cur args w(1,5,6) by (simp add: do_mmap_def cur_proc_def Let_def zero not_le)
  moreover have "maps_private env mp q vs w ?n prot flags off s ?s" using w(4) by (simp add: maps_private_def hw_def holds_map_def)
  ultimately show ?thesis using w by (intro exI [of _ w] exI [of _ ?s]) simp
qed

text \<open>Two pages of anonymous memory in the address space with an area of sixteen pages at the start of user memory.\<close>

theorem do_mmap_anon_maps_witness:
  "\<exists>w s'. do_mmap example_env 0 0x1800 3 10 (-1) 0 wide_space = Ret (Inr (PN_TO_ADDR w)) s'
    \<and> free_range example_cfg [wide_area] w 2 \<and> maps_private example_env 1 (Some 1) [wide_area] w 2 3 10 0 wide_space s'
    \<and> hwlog s' = [TLB_FLUSH_RANGE (PN_TO_ADDR w) 2]"
proof -
  have sel: "cfg example_env = example_cfg" "vmarea_slab example_env = first_free" "mmobj_slab example_env = first_free"
    by (simp_all add: example_env_def)
  have h: "holds_map wide_space 1 [wide_area] (Some 1)" by (simp add: holds_map_def wide_space_simps)
  have v: "vmas_ok (cfg example_env) [wide_area]" by (simp add: sel vmas_ok_def vma_ok_def wide_area_def example_area_def)
  have cur: "curproc wide_space = Some 1" "procs wide_space 1 = Some example_proc" "p_vmmap example_proc = Some 1"
    by (simp_all add: wide_space_simps)
  have n: "ADDR_TO_PN (0x1800 - 1) + 1 = 2" by (simp add: ADDR_TO_PN_def)
  have "free_range example_cfg [wide_area] 0x500 2"
    by (auto simp: free_range_def view_Cons wide_area_def example_area_def covers_unat)
  then have r: "\<exists>v. free_range (cfg example_env) [wide_area] v (ADDR_TO_PN (0x1800 - 1) + 1)" unfolding sel n by blast
  have m: "map_room example_env wide_space 2 2 3" by (simp add: map_room_def sel first_free_def wide_space_simps)
  have "hwlog wide_space = []" by (simp add: wide_space_simps)
  with do_mmap_anon_maps [OF cur h v _ _ _ _ _ _ _ _ r m example_env_fresh, of 10 0 3 "-1"] show ?thesis
    unfolding n by (force simp: sel example_cfg_def has_flag_def PAGE_ALIGNED_def PAGE_OFFSET_def)
qed

end
