(* ===== verification/Heap.thy ===== *)
theory Heap
  imports Mapanon
begin

text \<open>
  What \<open>do_brk\<close> (\<open>src/kernel/vm/brk.c\<close>) does: with a heap that has an area of its own it moves the end of the area to the
  page of the new break, up and down, and touches no other area; the first time the break leaves the data area it maps
  the heap.
\<close>

section \<open>The end of an area\<close>

lemma next_in_list_mid:
  "distinct (map vma_id (pre @ a # b # post)) \<Longrightarrow> next_in_list (vma_id a) (pre @ a # b # post) = Some b"
proof (induction pre)
  case (Cons c pre)
  then have "next_in_list (vma_id a) (pre @ a # b # post) = Some b" by simp
  moreover have "vma_id c \<noteq> vma_id a" using Cons.prems by auto
  ultimately show ?case by (cases pre) auto
qed simp

lemma vmas_ok_new_end:
  assumes ok: "vmas_ok c (pre @ a # b # post)" and e: "vma_start a < e" "e \<le> vma_start b"
  shows "vmas_ok c (pre @ a\<lparr>vma_end := e\<rparr> # b # post)"
proof -
  have b: "vma_start b < vma_end b" "vma_end b \<le> user_hi c" "user_lo c \<le> vma_start a" using ok by (auto simp: vmas_ok_def vma_ok_def)
  have "before (a\<lparr>vma_end := e\<rparr>) y" if "y \<in> set (b # post)" for y
    using ok that e(2) b(1) by (force simp: vmas_ok_def sorted_wrt_append before_def)
  moreover have "vma_ok c (a\<lparr>vma_end := e\<rparr>)" using e b by (auto simp: vma_ok_def)
  moreover have "before x (a\<lparr>vma_end := e\<rparr>) \<longleftrightarrow> before x a" for x by (simp add: before_def)
  ultimately show ?thesis using ok by (simp add: vmas_ok_def sorted_wrt_append)
qed

lemma view_new_end:
  assumes ok: "vmas_ok c (pre @ a # b # post)" "vmas_ok c (pre @ a\<lparr>vma_end := e\<rparr> # b # post)"
  shows "view (pre @ a\<lparr>vma_end := e\<rparr> # b # post) =
    (\<lambda>v. if vma_start a \<le> v \<and> v < e then Some (page_of a v) else if covers a v then None else view (pre @ a # b # post) v)"
proof
  fix v
  have cov: "covers (a\<lparr>vma_end := e\<rparr>) v \<longleftrightarrow> vma_start a \<le> v \<and> v < e" by (simp add: covers_def)
  have pg: "page_of (a\<lparr>vma_end := e\<rparr>) v = page_of a v" by (simp add: page_of_def)
  have no: "\<not> covers x v" if "x \<in> set pre \<union> set (b # post)" "covers a v \<or> covers (a\<lparr>vma_end := e\<rparr>) v" for x
  proof
    assume x: "covers x v"
    from that(2) show False
    proof
      assume "covers a v"
      with x have "x = a" using covers_unique [OF ok(1), of x a v] that(1) by auto
      then show False using that(1) ok(1) by (auto simp: vmas_ok_def)
    next
      assume "covers (a\<lparr>vma_end := e\<rparr>) v"
      with x have "x = a\<lparr>vma_end := e\<rparr>" using covers_unique [OF ok(2), of x "a\<lparr>vma_end := e\<rparr>" v] that(1) by auto
      then have "vma_id x = vma_id a" by simp
      then show False using that(1) ok(1) by (auto simp: vmas_ok_def image_iff)
    qed
  qed
  have "view pre v = None" "view (b # post) v = None" if "covers a v \<or> covers (a\<lparr>vma_end := e\<rparr>) v"
    using no that unfolding view_eq_None by blast+
  then show "view (pre @ a\<lparr>vma_end := e\<rparr> # b # post) v =
    (if vma_start a \<le> v \<and> v < e then Some (page_of a v) else if covers a v then None else view (pre @ a # b # post) v)"
    using cov pg by (cases "covers a v") (simp_all add: view_append view_Cons [of a] view_Cons [of "a\<lparr>vma_end := e\<rparr>"] split: option.split)
qed

lemma remove_tail:
  assumes map: "holds_map s mp (pre @ a # post) q" "vmas_ok (cfg env) (pre @ a # post)" and run: "runs s pd"
    and e: "vma_start a < e" "e < vma_end a"
  shows "vmmap_remove env mp e (vma_end a - e) s =
    Ret (Inr ()) (hw (PT_UNMAP_RANGE pd (PN_TO_ADDR e) (PN_TO_ADDR (vma_end a))) (s\<lparr>vmareas := (vmareas s)(vma_id a \<mapsto> a\<lparr>vma_end := e\<rparr>)\<rparr>))"
proof -
  let ?s = "hw (PT_UNMAP_RANGE pd (PN_TO_ADDR e) (PN_TO_ADDR (vma_end a))) (s\<lparr>vmareas := (vmareas s)(vma_id a \<mapsto> a\<lparr>vma_end := e\<rparr>)\<rparr>)"
  have pre: "\<forall>b\<in>set pre. vmareas s (vma_id b) = Some b \<and> vma_start b < vma_end b \<and> vma_end b \<le> e"
    using map e(1) by (force simp: holds_map_def vmas_ok_def vma_ok_def sorted_wrt_append before_def)
  have post: "\<forall>b\<in>set post. vmareas ?s (vma_id b) = Some b \<and> vma_start b < vma_end b \<and> vma_end a \<le> vma_start b"
    using map other_ids [of pre a post] by (fastforce simp: holds_map_def vmas_ok_def vma_ok_def sorted_wrt_append before_def)
  have a: "vmareas s (vma_id a) = Some a" using map(1) by (simp add: holds_map_def)
  have "remove_areas env mp e (vma_end a) (vma_id a # map vma_id post) s = remove_areas env mp e (vma_end a) (map vma_id post) ?s"
    using a e run by (simp add: vma_upd_def pt_unmap_range_eq [where pd = pd])
  then show ?thesis
    using map(1) remove_skip [OF pre e(2), of env mp "vma_id a # map vma_id post"] remove_skip_above [OF post e(2)]
    by (simp add: vmmap_remove_def holds_map_def)
qed


section \<open>Moving the break\<close>

text \<open>
  A process whose heap is the area \<open>a\<close>, with the page of the break as its last page, behind the area \<open>st\<close> that the
  heap starts in and before another area \<open>b\<close>.
\<close>

definition heap_area :: "kstate \<Rightarrow> ptr \<Rightarrow> proc \<Rightarrow> ptr \<Rightarrow> vmarea list \<Rightarrow> vmarea \<Rightarrow> vmarea \<Rightarrow> vmarea list \<Rightarrow> ptr option \<Rightarrow> kconfig \<Rightarrow> bool" where
  "heap_area s p pr mp pre a b post q c \<longleftrightarrow> curproc s = Some p \<and> procs s p = Some pr \<and> p_vmmap pr = Some mp
     \<and> holds_map s mp (pre @ a # b # post) q \<and> vmas_ok c (pre @ a # b # post)
     \<and> vma_end a = ADDR_TO_PN (p_brk pr - 1) + 1 \<and> (\<exists>st\<in>set pre. covers st (ADDR_TO_PN (p_start_brk pr - 1)))"

lemma heap_areaD:
  assumes "heap_area s p pr mp pre a b post q c"
  shows "cur_proc s = Ret (p, pr) s" "runs s (p_pagedir pr)" "load_map mp s = Ret \<lparr>vmm_id = mp, vmm_list = pre @ a # b # post, vmm_proc = q\<rparr> s"
    "vmmap_lookup \<lparr>vmm_id = mp, vmm_list = pre @ a # b # post, vmm_proc = q\<rparr> (ADDR_TO_PN (p_brk pr - 1)) = Some a"
    "next_in_list (vma_id a) (pre @ a # b # post) = Some b"
    "map_option vma_id (vmmap_lookup \<lparr>vmm_id = mp, vmm_list = pre @ a # b # post, vmm_proc = q\<rparr> (ADDR_TO_PN (p_start_brk pr - 1))) \<noteq> Some (vma_id a)"
proof -
  have h: "curproc s = Some p" "procs s p = Some pr" "p_vmmap pr = Some mp" "holds_map s mp (pre @ a # b # post) q"
    "vma_end a = ADDR_TO_PN (p_brk pr - 1) + 1" using assms by (simp_all add: heap_area_def)
  have ok: "vmas_ok c (pre @ a # b # post)" using assms by (simp add: heap_area_def)
  show "cur_proc s = Ret (p, pr) s" "runs s (p_pagedir pr)" using h by (auto simp: cur_proc_def runs_def)
  show "load_map mp s = Ret \<lparr>vmm_id = mp, vmm_list = pre @ a # b # post, vmm_proc = q\<rparr> s" by (rule holds_map_load [OF h(4)])
  have d: "distinct (map vma_id (pre @ a # b # post))" using ok by (simp add: vmas_ok_def)
  show "next_in_list (vma_id a) (pre @ a # b # post) = Some b" by (rule next_in_list_mid [OF d])
  have "unat (ADDR_TO_PN (p_brk pr - 1)) < 2 ^ 20" by (rule unat_ADDR_TO_PN_less)
  then have "unat (vma_end a) = unat (ADDR_TO_PN (p_brk pr - 1)) + 1" unfolding h(5) by (simp add: unat_word_ariths)
  moreover have "vma_start a < vma_end a" using ok by (simp add: vmas_ok_def vma_ok_def)
  ultimately have "covers a (ADDR_TO_PN (p_brk pr - 1))" by (simp add: covers_unat word_less_nat_alt)
  then show "vmmap_lookup \<lparr>vmm_id = mp, vmm_list = pre @ a # b # post, vmm_proc = q\<rparr> (ADDR_TO_PN (p_brk pr - 1)) = Some a"
    by (simp add: vmmap_lookup_covers find_covers_eq [OF ok])
  obtain st where st: "st \<in> set pre" "covers st (ADDR_TO_PN (p_start_brk pr - 1))" using assms by (auto simp: heap_area_def)
  then have "vmmap_lookup \<lparr>vmm_id = mp, vmm_list = pre @ a # b # post, vmm_proc = q\<rparr> (ADDR_TO_PN (p_start_brk pr - 1)) = Some st"
    by (simp add: vmmap_lookup_covers find_covers_eq [OF ok])
  moreover have "vma_id st \<noteq> vma_id a" using other_ids [OF d] st(1) by blast
  ultimately show "map_option vma_id (vmmap_lookup \<lparr>vmm_id = mp, vmm_list = pre @ a # b # post, vmm_proc = q\<rparr> (ADDR_TO_PN (p_start_brk pr - 1)))
    \<noteq> Some (vma_id a)" by simp
qed

lemma next_area_low:
  assumes "vmas_ok c (pre @ a # b # post)"
  shows "unat (PN_TO_ADDR (vma_start b)) = unat (vma_start b) * 4096" "PN_TO_ADDR (vma_start b) < USER_MEM_HIGH c"
proof -
  have b: "unat (vma_start b) < unat (user_hi c)" using assms vma_okD(1,3) [of c b] by (auto simp: vmas_ok_def)
  then show u: "unat (PN_TO_ADDR (vma_start b)) = unat (vma_start b) * 4096" using unat_user_hi [of c] by (intro unat_PN_TO_ADDR) simp
  have "unat (user_hi c) * 4096 \<le> unat (USER_MEM_HIGH c)" by (simp add: unat_ADDR_TO_PN)
  with b u show "PN_TO_ADDR (vma_start b) < USER_MEM_HIGH c" by (simp add: word_less_nat_alt)
qed

lemma break_below_next:
  assumes "vmas_ok c (pre @ a # b # post)" and "0 < addr" "addr \<le> PN_TO_ADDR (vma_start b)"
  shows "ADDR_TO_PN (addr - 1) < vma_start b"
proof -
  have a: "0 < unat addr" using assms(2) by (simp add: word_less_nat_alt)
  then have "unat (addr - 1) = unat addr - 1" using unat_diff_ge [of 1 addr] by simp
  moreover have "unat addr \<le> unat (vma_start b) * 4096" using assms(3) next_area_low(1) [OF assms(1)] by (simp add: word_le_nat_alt)
  ultimately have "unat (addr - 1) div 4096 < unat (vma_start b)" using a by (simp add: div_less_iff_less_mult)
  then show ?thesis by (simp add: word_less_nat_alt unat_ADDR_TO_PN)
qed

text \<open>The one change that \<open>do_brk\<close> makes to the areas: the heap area ends at \<open>e\<close>.\<close>

definition end_moved :: "kstate \<Rightarrow> ptr \<Rightarrow> vmarea list \<Rightarrow> vmarea \<Rightarrow> vmarea \<Rightarrow> vmarea list \<Rightarrow> ptr option \<Rightarrow> kconfig \<Rightarrow> u32 \<Rightarrow> kstate \<Rightarrow> bool" where
  "end_moved s mp pre a b post q c e s' \<longleftrightarrow> (let vs = pre @ a # b # post; vs' = pre @ a\<lparr>vma_end := e\<rparr> # b # post in
     holds_map s' mp vs' q \<and> vmas_ok c vs' \<and> mmobjs s' = mmobjs s
     \<and> view vs' = (\<lambda>v. if vma_start a \<le> v \<and> v < e then Some (page_of a v) else if covers a v then None else view vs v))"

lemma end_movedI:
  assumes h: "holds_map s mp (pre @ a # b # post) q" "vmas_ok c (pre @ a # b # post)" and e: "vma_start a < e" "e \<le> vma_start b"
    and s': "vmareas s' = (vmareas s)(vma_id a \<mapsto> a\<lparr>vma_end := e\<rparr>)" "vmmaps s' = vmmaps s" "mmobjs s' = mmobjs s"
  shows "end_moved s mp pre a b post q c e s'"
proof -
  have d: "distinct (map vma_id (pre @ a # b # post))" using h(2) by (simp add: vmas_ok_def)
  have "holds_map s' mp (pre @ a\<lparr>vma_end := e\<rparr> # b # post) q"
    using holds_map_upd [OF h(1) d, of "a\<lparr>vma_end := e\<rparr>"] s' by (simp add: holds_map_def)
  moreover note ok' = vmas_ok_new_end [OF h(2) e]
  ultimately show ?thesis using view_new_end [OF h(2) ok'] s'(3) by (simp add: end_moved_def Let_def)
qed

lemma do_brk_end:
  assumes heap: "heap_area s p pr mp pre a b post q (cfg env)"
    and addr: "0 < addr" "p_start_brk pr \<le> addr" "addr \<le> PN_TO_ADDR (vma_start b)" "vma_start a \<le> ADDR_TO_PN (addr - 1)"
  defines "t \<equiv> ADDR_TO_PN (addr - 1)"
  shows "\<exists>s'. do_brk env (Some addr) s = Ret (Inr addr) s' \<and> procs s' = (procs s)(p \<mapsto> pr\<lparr>p_brk := addr\<rparr>)
    \<and> end_moved s mp pre a b post q (cfg env) (t + 1) s'
    \<and> hwlog s' = hwlog s @ (if t + 1 < vma_end a then [PT_UNMAP_RANGE (p_pagedir pr) (PN_TO_ADDR (t + 1)) (PN_TO_ADDR (vma_end a))] else [])"
proof -
  let ?prev = "ADDR_TO_PN (p_brk pr - 1)"
  have h: "procs s p = Some pr" "p_vmmap pr = Some mp" "holds_map s mp (pre @ a # b # post) q" "vmas_ok (cfg env) (pre @ a # b # post)"
    "vma_end a = ?prev + 1" using heap by (simp_all add: heap_area_def)
  note d = heap_areaD [OF heap] and u = next_area_low(2) [OF h(4)] break_below_next [OF h(4) addr(1,3), folded t_def]
  have small: "unat t < 2 ^ 20" "unat ?prev < 2 ^ 20" unfolding t_def by (rule unat_ADDR_TO_PN_less)+
  then have suc: "unat (t + 1) = unat t + 1" "unat (?prev + 1) = unat ?prev + 1" by (simp_all add: unat_word_ariths)
  then have cmp: "t + 1 = ?prev + 1 \<longleftrightarrow> t = ?prev" "t + 1 < ?prev + 1 \<longleftrightarrow> t < ?prev" "vma_start a < t + 1" "t + 1 \<le> vma_start b"
    using addr(4) u(2) unfolding t_def [symmetric] by (simp_all add: word_less_nat_alt word_le_nat_alt)
  have va: "vmareas s (vma_id a) = Some a" using h(3) by (simp add: holds_map_def)
  have guard: "do_brk env (Some addr) s =
     (if t = ?prev then set_brk p addr s
      else if t > ?prev then bindK (vma_upd (vma_id a) (\<lambda>v. v\<lparr>vma_end := t + 1\<rparr>) s) (\<lambda>_ s. set_brk p addr s)
      else bindK (vmmap_remove env mp (t + 1) (?prev - t) s) (\<lambda>_ s. set_brk p addr s))"
    using d(1,3,4,5,6) h(2) leD [OF addr(2)] leD [OF addr(3)] u(1) by (simp add: do_brk_def Let_def t_def del: map_option_eq_Some)
  note mv = end_movedI [OF h(3,4) cmp(3,4)]
  consider "t = ?prev" | "?prev < t" | "t < ?prev" by fastforce
  then show ?thesis
  proof cases
    case 1
    let ?s = "s\<lparr>procs := (procs s)(p \<mapsto> pr\<lparr>p_brk := addr\<rparr>)\<rparr>"
    have "a\<lparr>vma_end := t + 1\<rparr> = a" using 1 h(5) by (cases a) simp
    then have "end_moved s mp pre a b post q (cfg env) (t + 1) ?s" using va by (intro mv) (simp_all add: fun_upd_idem)
    then show ?thesis using guard 1 h(1,5) by (simp add: set_brk_def proc_upd_def)
  next
    case 2
    let ?s = "s\<lparr>vmareas := (vmareas s)(vma_id a \<mapsto> a\<lparr>vma_end := t + 1\<rparr>), procs := (procs s)(p \<mapsto> pr\<lparr>p_brk := addr\<rparr>)\<rparr>"
    have "end_moved s mp pre a b post q (cfg env) (t + 1) ?s" by (rule mv) simp_all
    then show ?thesis using guard 2 h(1,5) va cmp(2) by (auto simp: set_brk_def proc_upd_def vma_upd_def)
  next
    case 3
    let ?e = "PT_UNMAP_RANGE (p_pagedir pr) (PN_TO_ADDR (t + 1)) (PN_TO_ADDR (vma_end a))"
    let ?s = "(hw ?e (s\<lparr>vmareas := (vmareas s)(vma_id a \<mapsto> a\<lparr>vma_end := t + 1\<rparr>)\<rparr>))\<lparr>procs := (procs s)(p \<mapsto> pr\<lparr>p_brk := addr\<rparr>)\<rparr>"
    have lt: "t + 1 < vma_end a" and n: "?prev - t = vma_end a - (t + 1)" using 3 cmp(2) h(5) by simp_all
    have "vmmap_remove env mp (t + 1) (?prev - t) s = Ret (Inr ()) (hw ?e (s\<lparr>vmareas := (vmareas s)(vma_id a \<mapsto> a\<lparr>vma_end := t + 1\<rparr>)\<rparr>))"
      unfolding n by (rule remove_tail [OF h(3,4) d(2) cmp(3) lt])
    moreover have "end_moved s mp pre a b post q (cfg env) (t + 1) ?s" by (rule mv) (simp_all add: hw_def)
    ultimately show ?thesis using guard 3 h(1,5) cmp(2) by (auto simp: set_brk_def proc_upd_def hw_def)
  qed
qed


lemma do_brk_refuses:
  assumes heap: "heap_area s p pr mp pre a b post q (cfg env)" and addr: "addr < p_start_brk pr \<or> PN_TO_ADDR (vma_start b) < addr"
  shows "do_brk env (Some addr) s = Ret (Inl ENOMEM) s"
proof -
  have ok: "vmas_ok (cfg env) (pre @ a # b # post)" and mp: "p_vmmap pr = Some mp" using heap by (simp_all add: heap_area_def)
  show ?thesis using heap_areaD [OF heap] next_area_low(2) [OF ok] mp addr by (auto simp: do_brk_def Let_def)
qed

section \<open>The first page of the heap\<close>

text \<open>
  A process whose break is still on the page that it started on, the last page of the area \<open>st\<close> of its data, before another
  area \<open>b\<close>.
\<close>

definition first_heap :: "kstate \<Rightarrow> ptr \<Rightarrow> proc \<Rightarrow> ptr \<Rightarrow> vmarea list \<Rightarrow> vmarea \<Rightarrow> vmarea \<Rightarrow> vmarea list \<Rightarrow> ptr option \<Rightarrow> kconfig \<Rightarrow> bool" where
  "first_heap s p pr mp pre st b post q c \<longleftrightarrow> curproc s = Some p \<and> procs s p = Some pr \<and> p_vmmap pr = Some mp
     \<and> holds_map s mp (pre @ st # b # post) q \<and> vmas_ok c (pre @ st # b # post)
     \<and> vma_end st = ADDR_TO_PN (p_start_brk pr - 1) + 1 \<and> ADDR_TO_PN (p_brk pr - 1) = ADDR_TO_PN (p_start_brk pr - 1)"

lemma first_heap_brk:
  fixes addr :: u32
  assumes heap: "first_heap s p pr mp pre st b post q (cfg env)"
  defines "start \<equiv> ADDR_TO_PN (p_start_brk pr - 1)" and "t \<equiv> ADDR_TO_PN (addr - 1)"
  shows "do_brk env (Some addr) s =
    (if addr < p_start_brk pr \<or> PN_TO_ADDR (vma_start b) < addr then Ret (Inl ENOMEM) s
     else if t = start then set_brk p addr s
     else if t > start
     then bindK (vmmap_map env mp None (start + 1) (t - start) (PROT_WRITE (cfg env) OR PROT_READ (cfg env))
            (MAP_PRIVATE (cfg env) OR MAP_FIXED (cfg env)) 0 VMMAP_DIR_LOHI s) (\<lambda>r s. case r of Inl _ \<Rightarrow> Stop PANIC | Inr _ \<Rightarrow> set_brk p addr s)
     else bindK (vmmap_remove env mp (t + 1) (start - t) s) (\<lambda>_ s. set_brk p addr s))"
proof -
  have h: "curproc s = Some p" "procs s p = Some pr" "p_vmmap pr = Some mp" "holds_map s mp (pre @ st # b # post) q"
    "vmas_ok (cfg env) (pre @ st # b # post)" "vma_end st = start + 1" "ADDR_TO_PN (p_brk pr - 1) = start"
    using heap by (simp_all add: first_heap_def start_def)
  have "unat start < 2 ^ 20" unfolding start_def by (rule unat_ADDR_TO_PN_less)
  then have "unat (vma_end st) = unat start + 1" unfolding h(6) by (simp add: unat_word_ariths)
  moreover have "vma_start st < vma_end st" using h(5) by (simp add: vmas_ok_def vma_ok_def)
  ultimately have "covers st start" by (simp add: covers_unat word_less_nat_alt)
  then have l: "vmmap_lookup \<lparr>vmm_id = mp, vmm_list = pre @ st # b # post, vmm_proc = q\<rparr> start = Some st"
    by (simp add: vmmap_lookup_covers find_covers_eq [OF h(5)])
  have nx: "next_in_list (vma_id st) (pre @ st # b # post) = Some b"
    using h(5) by (intro next_in_list_mid) (simp add: vmas_ok_def)
  have c: "cur_proc s = Ret (p, pr) s" using h(1,2) by (simp add: cur_proc_def)
  show ?thesis
    using c l nx h(3,7) holds_map_load [OF h(4)] next_area_low(2) [OF h(5)]
    by (simp add: do_brk_def Let_def start_def [symmetric] t_def [symmetric])
qed

lemma first_heap_free:
  assumes heap: "first_heap s p pr mp pre st b post q c" and addr: "0 < addr" "addr \<le> PN_TO_ADDR (vma_start b)"
  defines "start \<equiv> ADDR_TO_PN (p_start_brk pr - 1)" and "t \<equiv> ADDR_TO_PN (addr - 1)"
  assumes up: "start < t"
  shows "free_range c (pre @ st # b # post) (start + 1) (t - start)" "0 < t - start" "0 < start + 1"
proof -
  have ok: "vmas_ok c (pre @ st # b # post)" and e: "vma_end st = start + 1" using heap by (simp_all add: first_heap_def start_def)
  have small: "unat start < 2 ^ 20" unfolding start_def by (rule unat_ADDR_TO_PN_less)
  then have s1: "unat (start + 1) = unat start + 1" by (simp add: unat_word_ariths)
  have d: "unat (t - start) = unat t - unat start" using up by (intro unat_diff_ge) (simp add: word_less_nat_alt)
  have tb: "unat t < unat (vma_start b)" using break_below_next [OF ok addr] by (simp add: t_def word_less_nat_alt)
  show n: "0 < t - start" "0 < start + 1" using up d s1 by (simp_all add: word_less_nat_alt)
  have st: "unat (user_lo c) \<le> unat (vma_start st)" "unat (vma_start st) < unat (vma_end st)" "unat (vma_start b) < unat (vma_end b)"
    "unat (vma_end b) \<le> unat (user_hi c)" using ok by (auto simp: vmas_ok_def vma_ok_def word_le_nat_alt word_less_nat_alt)
  have "clear_of (pre @ st # b # post) (unat (start + 1)) (unat (t - start))" unfolding clear_of_def
  proof
    fix x assume "x \<in> set (pre @ st # b # post)"
    then consider "x = st \<or> x \<in> set pre" | "x = b \<or> x \<in> set post" by auto
    then show "unat (start + 1) + unat (t - start) \<le> unat (vma_start x) \<or> unat (vma_end x) \<le> unat (start + 1)"
    proof cases
      case 1
      then have "unat (vma_end x) \<le> unat (vma_end st)" using ok st(2)
        by (auto simp: vmas_ok_def sorted_wrt_append before_def word_le_nat_alt)
      then show ?thesis by (simp add: e)
    next
      case 2
      then have "unat (vma_start b) \<le> unat (vma_start x)" using ok st(3)
        by (auto simp: vmas_ok_def sorted_wrt_append before_def word_le_nat_alt)
      then show ?thesis using tb d s1 up by (auto simp: word_less_nat_alt)
    qed
  qed
  then show "free_range c (pre @ st # b # post) (start + 1) (t - start)"
    unfolding free_range_iff [OF ok n(1)] using st s1 d tb up e by (auto simp: word_less_nat_alt)
qed

lemma heap_prot: "NOT (N OR R OR W OR X) AND (W OR R) = (0 :: u32)"
  by (rule bit_eqI) (auto simp: bit_simps)

lemma do_brk_first:
  assumes heap: "first_heap s p pr mp pre st b post q (cfg env)" and room: "map_room env s x ob sh" "allocs_fresh env" "MAP_PRIVATE (cfg env) \<noteq> 0"
    and addr: "0 < addr" "p_start_brk pr \<le> addr" "addr \<le> PN_TO_ADDR (vma_start b)" "ADDR_TO_PN (p_start_brk pr - 1) < ADDR_TO_PN (addr - 1)"
  shows "\<exists>s1. do_brk env (Some addr) s = Ret (Inr addr) (s1\<lparr>procs := (procs s)(p \<mapsto> pr\<lparr>p_brk := addr\<rparr>)\<rparr>) \<and> hwlog s1 = hwlog s
    \<and> maps_private env mp q (pre @ st # b # post) (ADDR_TO_PN (p_start_brk pr - 1) + 1) (ADDR_TO_PN (addr - 1) - ADDR_TO_PN (p_start_brk pr - 1))
        (PROT_WRITE (cfg env) OR PROT_READ (cfg env)) (MAP_PRIVATE (cfg env) OR MAP_FIXED (cfg env)) 0 s s1"
proof -
  have h: "procs s p = Some pr" "holds_map s mp (pre @ st # b # post) q" "vmas_ok (cfg env) (pre @ st # b # post)"
    using heap by (simp_all add: first_heap_def)
  have fl: "has_flag (MAP_PRIVATE (cfg env) OR MAP_FIXED (cfg env)) (MAP_PRIVATE (cfg env))"
    by (simp add: has_flag_def)
  have al: "PAGE_ALIGNED 0" by (simp add: PAGE_ALIGNED_def PAGE_OFFSET_def)
  note fr = first_heap_free [OF heap addr(1,3,4)]
  obtain s1 where s1: "vmmap_map env mp None (ADDR_TO_PN (p_start_brk pr - 1) + 1) (ADDR_TO_PN (addr - 1) - ADDR_TO_PN (p_start_brk pr - 1))
      (PROT_WRITE (cfg env) OR PROT_READ (cfg env)) (MAP_PRIVATE (cfg env) OR MAP_FIXED (cfg env)) 0 VMMAP_DIR_LOHI s = Ret (Inr (0, x)) s1"
    "maps_private env mp q (pre @ st # b # post) (ADDR_TO_PN (p_start_brk pr - 1) + 1) (ADDR_TO_PN (addr - 1) - ADDR_TO_PN (p_start_brk pr - 1))
        (PROT_WRITE (cfg env) OR PROT_READ (cfg env)) (MAP_PRIVATE (cfg env) OR MAP_FIXED (cfg env)) 0 s s1" "hwlog s1 = hwlog s"
    by (rule vmmap_map_maps_at [OF h(2,3) fr heap_prot fl room(3) al room(1,2)])
  have "procs s1 = procs s" using s1(2) by (auto simp: maps_private_def)
  then show ?thesis using s1 h(1) first_heap_brk [OF heap, of addr] leD [OF addr(2)] leD [OF addr(3)] addr(4)
    by (auto simp: set_brk_def proc_upd_def intro!: exI [of _ s1])
qed

lemma do_brk_first_refuses:
  assumes "first_heap s p pr mp pre st b post q (cfg env)" and "addr < p_start_brk pr \<or> PN_TO_ADDR (vma_start b) < addr"
  shows "do_brk env (Some addr) s = Ret (Inl ENOMEM) s"
  using first_heap_brk [OF assms(1), of addr] assms(2) by auto

text \<open>
  C29: \<open>do_brk\<close> where another area follows in the address space, in two situations. An address below the start of the heap or
  behind the start of the area that follows fails with \<open>ENOMEM\<close> and changes nothing. (1) The heap has an area of its own, whose
  last page has the break, and the address leaves that area a page: the call sets the break and moves the end of
  the heap area to the page of the new break. The pages up to it are mapped to the object of the heap, those above it that were mapped are
  not any more and are taken out of the page tables, every other page is mapped as before, and the areas stay ordered and
  disjoint. (2) The break has not left the page that it started on, the last of the data area, the address is on a later
  page, and there is memory: the call sets the break and maps exactly the pages from behind that page to the page of the new break,
  readable and writable, to a new private object over new anonymous memory; all else stays mapped as before. (Not covered: giving
  up the last page of the heap area, which is a removal of the whole area, and a heap that is the last area, where the code takes the
  head of the list for an area.)
\<close>

theorem do_brk_moves_heap_end:
  assumes addr: "0 < addr"
  shows "((heap_area s p pr mp pre a b post q (cfg env) \<or> first_heap s p pr mp pre a b post q (cfg env))
        \<and> (addr < p_start_brk pr \<or> PN_TO_ADDR (vma_start b) < addr) \<longrightarrow> do_brk env (Some addr) s = Ret (Inl ENOMEM) s)
    \<and> (heap_area s p pr mp pre a b post q (cfg env) \<and> p_start_brk pr \<le> addr \<and> addr \<le> PN_TO_ADDR (vma_start b)
        \<and> vma_start a \<le> ADDR_TO_PN (addr - 1) \<longrightarrow>
        (\<exists>s'. do_brk env (Some addr) s = Ret (Inr addr) s' \<and> procs s' = (procs s)(p \<mapsto> pr\<lparr>p_brk := addr\<rparr>)
          \<and> end_moved s mp pre a b post q (cfg env) (ADDR_TO_PN (addr - 1) + 1) s'
          \<and> hwlog s' = hwlog s @ (if ADDR_TO_PN (addr - 1) + 1 < vma_end a
               then [PT_UNMAP_RANGE (p_pagedir pr) (PN_TO_ADDR (ADDR_TO_PN (addr - 1) + 1)) (PN_TO_ADDR (vma_end a))] else [])))
    \<and> (first_heap s p pr mp pre a b post q (cfg env) \<and> map_room env s x ob sh \<and> allocs_fresh env \<and> MAP_PRIVATE (cfg env) \<noteq> 0
        \<and> p_start_brk pr \<le> addr \<and> addr \<le> PN_TO_ADDR (vma_start b) \<and> ADDR_TO_PN (p_start_brk pr - 1) < ADDR_TO_PN (addr - 1) \<longrightarrow>
        (\<exists>s1. do_brk env (Some addr) s = Ret (Inr addr) (s1\<lparr>procs := (procs s)(p \<mapsto> pr\<lparr>p_brk := addr\<rparr>)\<rparr>) \<and> hwlog s1 = hwlog s
          \<and> maps_private env mp q (pre @ a # b # post) (ADDR_TO_PN (p_start_brk pr - 1) + 1)
              (ADDR_TO_PN (addr - 1) - ADDR_TO_PN (p_start_brk pr - 1)) (PROT_WRITE (cfg env) OR PROT_READ (cfg env))
              (MAP_PRIVATE (cfg env) OR MAP_FIXED (cfg env)) 0 s s1))"
    (is "(?out \<longrightarrow> _) \<and> (?own \<longrightarrow> ?moved) \<and> (?first \<longrightarrow> ?mapped)")
proof (intro conjI impI)
  assume ?out
  then show "do_brk env (Some addr) s = Ret (Inl ENOMEM) s" using do_brk_refuses [of s p pr mp pre a b post q env addr] do_brk_first_refuses [of s p pr mp pre a b post q env addr] by blast
next
  assume ?own
  then show ?moved by (elim conjE) (rule do_brk_end [OF _ addr])
next
  assume ?first
  then show ?mapped by (elim conjE) (rule do_brk_first [OF _ _ _ _ addr])
qed

text \<open>A process with a heap of two pages, or none yet, between its data and another area, which asks for four more.\<close>

definition heap_areas :: "vmarea list" where
  "heap_areas = [example_area, example_area\<lparr>vma_id := 2, vma_start := 0x402, vma_end := 0x404\<rparr>,
     example_area\<lparr>vma_id := 3, vma_start := 0x500, vma_end := 0x510\<rparr>]"

definition heap_proc :: proc where "heap_proc = example_proc\<lparr>p_start_brk := 0x401800, p_brk := 0x403400\<rparr>"

definition heap_space :: kstate where
  "heap_space = example_space\<lparr>procs := [1 \<mapsto> heap_proc], vmmaps := [1 \<mapsto> \<lparr>vmn_list = [1, 2, 3], vmn_proc = Some 1\<rparr>],
     vmareas := [1 \<mapsto> heap_areas ! 0, 2 \<mapsto> heap_areas ! 1, 3 \<mapsto> heap_areas ! 2]\<rparr>"

definition bss_areas :: "vmarea list" where "bss_areas = [heap_areas ! 0, heap_areas ! 2]"

definition bss_space :: kstate where
  "bss_space = heap_space\<lparr>procs := [1 \<mapsto> heap_proc\<lparr>p_brk := 0x401800\<rparr>], vmmaps := [1 \<mapsto> \<lparr>vmn_list = [1, 3], vmn_proc = Some 1\<rparr>]\<rparr>"

theorem do_brk_moves_heap_end_witness:
  "(\<exists>s'. do_brk example_env (Some 0x407001) heap_space = Ret (Inr 0x407001) s' \<and> hwlog s' = []
    \<and> procs s' = [1 \<mapsto> heap_proc\<lparr>p_brk := 0x407001\<rparr>]
    \<and> end_moved heap_space 1 [heap_areas ! 0] (heap_areas ! 1) (heap_areas ! 2) [] (Some 1) example_cfg 0x408 s')
    \<and> (\<exists>s1. do_brk example_env (Some 0x407001) bss_space
             = Ret (Inr 0x407001) (s1\<lparr>procs := (procs bss_space)(1 \<mapsto> heap_proc\<lparr>p_brk := 0x407001\<rparr>)\<rparr>)
           \<and> maps_private example_env 1 (Some 1) bss_areas 0x402 6 3 6 0 bss_space s1)"
proof
  have sel: "cfg example_env = example_cfg" by (simp add: example_env_def)
  have h: "heap_area heap_space 1 heap_proc 1 [heap_areas ! 0] (heap_areas ! 1) (heap_areas ! 2) [] (Some 1) (cfg example_env)"
    by (simp add: sel heap_area_def heap_space_def heap_proc_def heap_areas_def holds_map_def vmas_ok_def vma_ok_def before_def
        covers_def ADDR_TO_PN_def example_cfg_def wide_space_simps)
  have "ADDR_TO_PN (0x407001 - 1) = 0x407" "PN_TO_ADDR (vma_start (heap_areas ! 2)) = 0x500000" "vma_start (heap_areas ! 1) = 0x402"
    "vma_end (heap_areas ! 1) = 0x404" "p_start_brk heap_proc = 0x401800" "hwlog heap_space = []" "procs heap_space = [1 \<mapsto> heap_proc]"
    by (simp_all add: ADDR_TO_PN_def PN_TO_ADDR_def heap_areas_def heap_proc_def heap_space_def wide_space_simps)
  with h do_brk_moves_heap_end [of "0x407001" heap_space 1 heap_proc 1 "[heap_areas ! 0]" "heap_areas ! 1" "heap_areas ! 2" "[]" "Some 1" example_env]
  show "\<exists>s'. do_brk example_env (Some 0x407001) heap_space = Ret (Inr 0x407001) s' \<and> hwlog s' = []
    \<and> procs s' = [1 \<mapsto> heap_proc\<lparr>p_brk := 0x407001\<rparr>]
    \<and> end_moved heap_space 1 [heap_areas ! 0] (heap_areas ! 1) (heap_areas ! 2) [] (Some 1) example_cfg 0x408 s'"
    by (simp add: sel) blast
next
  let ?pr = "heap_proc\<lparr>p_brk := 0x401800\<rparr>"
  have sel: "cfg example_env = example_cfg" by (simp add: example_env_def)
  have h: "first_heap bss_space 1 ?pr 1 [] (heap_areas ! 0) (heap_areas ! 2) [] (Some 1) (cfg example_env)"
    by (simp add: sel first_heap_def bss_space_def heap_space_def heap_proc_def heap_areas_def holds_map_def vmas_ok_def vma_ok_def before_def
        ADDR_TO_PN_def example_cfg_def wide_space_simps)
  have r: "map_room example_env bss_space 4 1 2"
    by (simp add: map_room_def example_env_sel first_free_def bss_space_def heap_space_def heap_areas_def wide_space_simps)
  have "ADDR_TO_PN (0x407001 - 1) = 0x407" "PN_TO_ADDR (vma_start (heap_areas ! 2)) = 0x500000"
    "p_start_brk ?pr = 0x401800" "ADDR_TO_PN (0x401800 - 1) = 0x401" "MAP_PRIVATE example_cfg = 2"
    "PROT_WRITE example_cfg OR PROT_READ example_cfg = 3" "MAP_PRIVATE example_cfg OR MAP_FIXED example_cfg = 6"
    by (simp_all add: ADDR_TO_PN_def PN_TO_ADDR_def heap_areas_def heap_proc_def example_cfg_def wide_space_simps)
  with h r do_brk_moves_heap_end [of "0x407001" bss_space 1 ?pr 1 "[]" "heap_areas ! 0" "heap_areas ! 2" "[]" "Some 1" example_env 4 1 2]
  show "\<exists>s1. do_brk example_env (Some 0x407001) bss_space
      = Ret (Inr 0x407001) (s1\<lparr>procs := (procs bss_space)(1 \<mapsto> heap_proc\<lparr>p_brk := 0x407001\<rparr>)\<rparr>)
    \<and> maps_private example_env 1 (Some 1) bss_areas 0x402 6 3 6 0 bss_space s1"
    using example_env_fresh by (auto simp: sel bss_areas_def)
qed

end
