(* ===== verification/Ktests.thy ===== *)
theory Ktests
  imports Boot Mapanon
begin

text \<open>
  The tests of the kernel shell at the end of \<open>src/kernel/main/kmain.c\<close>, as sequences of calls of the modelled operations.
  Their messages are left out, so that a test that only prints its results gives \<open>unit\<close>. What they use from headers and other
  files is in \<open>testabi\<close>: the flags of \<open>do_open\<close>, the numbers of the search directions, the addresses of string literals, of a
  local buffer and of the functions that run as threads, and the separate program \<open>vfstest_main\<close>.
\<close>

record testabi = bootabi +
  O_RDONLY :: u32
  O_WRONLY :: u32
  O_RDWR :: u32
  vmdir_of :: "int \<Rightarrow> vmdir"
  literal :: "string \<Rightarrow> u32"
  char_contents :: u32
  func_addr :: "string \<Rightarrow> nat"
  vfstest_main :: "unit kop"

text \<open>The number a function returns for a descriptor or for a process that was waited for.\<close>

definition fd_num :: "kenv \<Rightarrow> errno + nat \<Rightarrow> int" where
  "fd_num env r = (case r of Inr n \<Rightarrow> int n | Inl e \<Rightarrow> - int (errno_num (cfg env) e))"

definition child_num :: "kenv \<Rightarrow> errno + (int \<times> u32) \<Rightarrow> int" where
  "child_num env r = (case r of Inr (pid, _) \<Rightarrow> pid | Inl e \<Rightarrow> - int (errno_num (cfg env) e))"

section \<open>Virtual memory\<close>

definition vmtest_map_destory :: "kenv \<Rightarrow> testabi \<Rightarrow> (errno + unit) kop" where
  "vmtest_map_destory env t s =
     bindK (vmmap_create env s) (\<lambda>r s.
       case r of
         None \<Rightarrow> Stop KASSERT_failed
       | Some newMap \<Rightarrow>
           bindK (vmmap_map env newMap None 0 1 7 2 0 (vmdir_of t 2) s) (\<lambda>ret s.
             case ret of
               Inl e \<Rightarrow> Ret (Inl e) s
             | Inr _ \<Rightarrow> bindK (vmmap_destroy env newMap s) (\<lambda>_ s. Ret (Inr ()) s)))"

definition VM_STR :: string where
  "VM_STR = ''Line-1 in the file for VM test  Line-2 in the file for VM test''"

definition vmtest_link_unlink :: "kenv \<Rightarrow> testabi \<Rightarrow> (errno + unit) kop" where
  "vmtest_link_unlink env t s =
     (let len = of_nat (length VM_STR) in
      bindK (do_open env ''test_file_1'' (O_RDWR t OR O_CREAT (cfg env)) s) (\<lambda>fd1 s.
      bindK (do_link env ''test_file_1'' ''test_file_2'' s) (\<lambda>_ s.
      bindK (do_write env (fd_num env fd1) (literal t VM_STR) len s) (\<lambda>_ s.
      bindK (do_close env (fd_num env fd1) s) (\<lambda>ret s.
        case ret of
          Inl e \<Rightarrow> Ret (Inl e) s
        | Inr _ \<Rightarrow>
            bindK (do_open env ''test_file_2'' (O_RDWR t) s) (\<lambda>fd2 s.
            bindK (do_read env (fd_num env fd2) (char_contents t) len s) (\<lambda>ret s.
              if ret_word env ret \<noteq> len then Ret (Inl EMINUS1) s
              else bindK (do_close env (fd_num env fd2) s) (\<lambda>ret s.
                case ret of
                  Inl e \<Rightarrow> Ret (Inl e) s
                | Inr _ \<Rightarrow>
                    bindK (do_unlink env ''test_file_2'' s) (\<lambda>ret s.
                      case ret of
                        Inl e \<Rightarrow> Ret (Inl e) s
                      | Inr _ \<Rightarrow>
                          bindK (do_open env ''test_file_2'' (O_RDWR t) s) (\<lambda>fd2 s.
                            if fd_num env fd2 > 0 then Ret (Inl EMINUS1) s else Ret (Inr ()) s))))))))))"

section \<open>The file system\<close>

definition vfstest_main_2 :: "testabi \<Rightarrow> unit kop" where
  "vfstest_main_2 t s = bindK (vfstest_main t s) (\<lambda>_ s. Ret () s)"

definition test_open :: "kenv \<Rightarrow> unit kop" where
  "test_open env s = bindK (do_open env ''/file1'' 0x3 s) (\<lambda>_ s. Ret () s)"

definition test_write :: "kenv \<Rightarrow> testabi \<Rightarrow> unit kop" where
  "test_write env t s =
     bindK (do_mkdir env ''vfstest_dir'' s) (\<lambda>_ s.
     bindK (do_read env (-10) (literal t ''write_test'') 9 s) (\<lambda>_ s.
     bindK (do_open env ''/vfstest_dir/read'' (O_CREAT (cfg env) OR O_WRONLY t) s) (\<lambda>fd s.
     bindK (do_close env (fd_num env fd) s) (\<lambda>_ s.
     bindK (do_open env ''/vfstest_dir/read'' (O_RDWR t) s) (\<lambda>fd s.
     bindK (do_write env (fd_num env fd) (literal t ''write_test'') 10 s) (\<lambda>_ s.
     bindK (do_close env (fd_num env fd) s) (\<lambda>_ s.
     bindK (do_rmdir env ''vfstest_dir'' s) (\<lambda>_ s.
       Ret () s))))))))"

definition test_rename :: "kenv \<Rightarrow> unit kop" where
  "test_rename env s =
     bindK (do_mkdir env ''/vfstest_dir'' s) (\<lambda>_ s.
     bindK (do_chdir env ''/vfstest_dir'' s) (\<lambda>_ s.
     bindK (do_open env ''/abc'' (O_CREAT (cfg env)) s) (\<lambda>_ s.
     bindK (do_rename env (Some ''/abc'') (Some ''/ABC'') s) (\<lambda>_ s.
     bindK (do_chdir env ''/'' s) (\<lambda>_ s.
     bindK (do_rmdir env ''/vfstest_dir'' s) (\<lambda>_ s.
       Ret () s))))))"

definition test_dup :: "kenv \<Rightarrow> testabi \<Rightarrow> unit kop" where
  "test_dup env t s =
     bindK (do_dup env 50 s) (\<lambda>_ s.
     bindK (do_dup env (-5) s) (\<lambda>_ s.
     bindK (do_open env ''/file1'' (O_RDONLY t OR O_CREAT (cfg env)) s) (\<lambda>fd2 s.
     bindK (do_dup env (fd_num env fd2 + 1) s) (\<lambda>_ s.
     bindK (do_close env (fd_num env fd2) s) (\<lambda>_ s.
       Ret () s)))))"

definition test_mkdir_rmdir :: "kenv \<Rightarrow> unit kop" where
  "test_mkdir_rmdir env s =
     bindK (do_mkdir env ''/a'' s) (\<lambda>_ s.
     bindK (do_mkdir env ''/a/b'' s) (\<lambda>_ s.
     bindK (do_rmdir env ''/a/b'' s) (\<lambda>_ s.
     bindK (do_rmdir env ''/a'' s) (\<lambda>_ s.
       Ret () s))))"

definition test_mknod :: "kenv \<Rightarrow> testabi \<Rightarrow> unit kop" where
  "test_mknod env t s =
     bindK (do_open env ''/file1'' (O_RDONLY t OR O_CREAT (cfg env)) s) (\<lambda>fd1 s.
     bindK (do_mknod env ''/file1'' S_IFCHR (MEM_NULL_DEVID t) s) (\<lambda>_ s.
     bindK (do_close env (fd_num env fd1) s) (\<lambda>_ s.
       Ret () s)))"


section \<open>Processes\<close>

definition yield_cpu :: "kenv \<Rightarrow> unit kop" where
  "yield_cpu env s =
     (case curthr s of
        None \<Rightarrow> Stop BAD_POINTER
      | Some t \<Rightarrow> bindK (sched_make_runnable t s) (\<lambda>_ s. sched_switch (senv env) s))"

definition start_proc :: "kenv \<Rightarrow> string \<Rightarrow> nat \<Rightarrow> u32 \<Rightarrow> (ptr \<times> ptr) kop" where
  "start_proc env name f arg1 s =
     bindK (proc_create env name s) (\<lambda>r s.
       case r of
         None \<Rightarrow> Stop KASSERT_failed
       | Some p \<Rightarrow>
           bindK (kthread_create env p f arg1 0 s) (\<lambda>t s.
           bindK (sched_make_runnable t s) (\<lambda>_ s.
             Ret (p, t) s)))"

primrec start_procs :: "nat \<Rightarrow> kenv \<Rightarrow> testabi \<Rightarrow> unit kop" where
  "start_procs 0 env t s = Ret () s"
| "start_procs (Suc i) env t s =
     bindK (start_proc env ''normal test'' (func_addr t ''normalTest'') 0 s) (\<lambda>_ s. start_procs i env t s)"

definition createProcessAndThreads :: "kenv \<Rightarrow> testabi \<Rightarrow> unit kop" where
  "createProcessAndThreads env t s = bindK (start_procs 10 env t s) (\<lambda>_ s. yield_cpu env s)"

text \<open>The thread \<open>increment\<close> runs until it exits; the first argument bounds its rounds.\<close>

primrec increment :: "nat \<Rightarrow> kenv \<Rightarrow> int \<Rightarrow> unit kop" where
  "increment 0 env arg1 s = Stop OUT_OF_FUEL"
| "increment (Suc n) env arg1 s =
     (let arg1 = arg1 + 1 in
      bindK (if arg1 > 5 then do_exit env 1 s else Ret () s) (\<lambda>_ s.
      bindK (yield_cpu env s) (\<lambda>_ s.
      bindK (cur_proc s) (\<lambda>(_, pr) s.
      bindK (if p_pid pr = 1 then sched_switch (senv env) s else Ret () s) (\<lambda>_ s.
        increment n env arg1 s)))))"

definition testKillAllWhenRunning :: "kenv \<Rightarrow> testabi \<Rightarrow> unit kop" where
  "testKillAllWhenRunning env t s =
     bindK (start_proc env ''p1'' (func_addr t ''increment'') 0 s) (\<lambda>_ s.
     bindK (start_proc env ''p1'' (func_addr t ''increment'') 0 s) (\<lambda>_ s.
     bindK (start_proc env ''p1'' (func_addr t ''increment'') 0 s) (\<lambda>_ s.
     bindK (yield_cpu env s) (\<lambda>_ s.
       proc_kill_all env s))))"

text \<open>The steps that \<open>test1\<close>, \<open>test2\<close> and \<open>test3\<close> repeat for each process they make.\<close>

definition new_test_proc :: "kenv \<Rightarrow> string \<Rightarrow> nat \<Rightarrow> ptr kop" where
  "new_test_proc env name run s =
     bindK (proc_create env name s) (\<lambda>r s.
       case r of
         None \<Rightarrow> Stop KASSERT_failed
       | Some p \<Rightarrow>
           bindK (deref (procs s) p s) (\<lambda>pr s.
           bindK (kassert (p_pid pr \<noteq> PID_IDLE (cfg env) \<and> p_pid pr \<noteq> PID_INIT (cfg env)) s) (\<lambda>_ s.
           bindK (kthread_create env p run 0 0 s) (\<lambda>thr s.
           bindK (sched_make_runnable thr s) (\<lambda>_ s.
             Ret p s)))))"

definition test1 :: "kenv \<Rightarrow> testabi \<Rightarrow> unit kop" where
  "test1 env t s =
     bindK (new_test_proc env ''proc_1'' (func_addr t ''p1_run'') s) (\<lambda>_ s.
     bindK (new_test_proc env ''proc_2'' (func_addr t ''p2_run'') s) (\<lambda>_ s.
     bindK (new_test_proc env ''proc_3'' (func_addr t ''p3_run'') s) (\<lambda>_ s.
     bindK (yield_cpu env s) (\<lambda>_ s.
       proc_kill_all env s))))"

definition proc_1_run :: "kenv \<Rightarrow> testabi \<Rightarrow> unit kop" where
  "proc_1_run env t s = bindK (new_test_proc env ''proc_4'' (func_addr t ''proc_4_run'') s) (\<lambda>_ s. Ret () s)"

definition test2 :: "nat \<Rightarrow> kenv \<Rightarrow> testabi \<Rightarrow> unit kop" where
  "test2 n env t s =
     bindK (new_test_proc env ''proc_1'' (func_addr t ''proc_1_run'') s) (\<lambda>_ s.
     bindK (new_test_proc env ''proc_2'' (func_addr t ''proc_2_run'') s) (\<lambda>proc_2 s.
     bindK (new_test_proc env ''proc_3'' (func_addr t ''proc_3_run'') s) (\<lambda>_ s.
     bindK (do_waitpid n env (-1) 0 s) (\<lambda>_ s.
     bindK (deref (procs s) proc_2 s) (\<lambda>p2 s.
     bindK (do_waitpid n env (p_pid p2) 0 s) (\<lambda>_ s.
     bindK (do_waitpid n env 24 0 s) (\<lambda>_ s.
     bindK (do_waitpid n env (-1) 0 s) (\<lambda>_ s.
     bindK (do_waitpid n env (-1) 0 s) (\<lambda>_ s.
       Ret () s)))))))))"

definition proc1_run :: "kenv \<Rightarrow> unit kop" where "proc1_run env = yield_cpu env"

definition proc2_run :: "kenv \<Rightarrow> unit kop" where "proc2_run env = yield_cpu env"

definition proc3_run :: "kenv \<Rightarrow> unit kop" where "proc3_run env = yield_cpu env"

primrec wait_for_all :: "nat \<Rightarrow> nat \<Rightarrow> kenv \<Rightarrow> unit kop" where
  "wait_for_all 0 n env s = Stop OUT_OF_FUEL"
| "wait_for_all (Suc k) n env s =
     bindK (do_waitpid n env (-1) 0 s) (\<lambda>child s.
       if child_num env child \<noteq> -10 then wait_for_all k n env s else Ret () s)"

definition test3 :: "nat \<Rightarrow> nat \<Rightarrow> kenv \<Rightarrow> testabi \<Rightarrow> unit kop" where
  "test3 k n env t s =
     bindK (new_test_proc env ''proc_1'' (func_addr t ''proc1_run'') s) (\<lambda>_ s.
     bindK (new_test_proc env ''proc_2'' (func_addr t ''proc2_run'') s) (\<lambda>_ s.
     bindK (new_test_proc env ''proc_3'' (func_addr t ''proc3_run'') s) (\<lambda>_ s.
       wait_for_all k n env s)))"


section \<open>A mapping and its removal leave nothing behind\<close>

text \<open>The last reference of the shadow object takes the anonymous object with it.\<close>

lemma put_private:
  assumes objs: "mmobjs s sh = Some (new_shadow\<lparr>mmo_shadowed := Some ob, mmo_un_f := mmo_bottom_obj (Some ob)\<rparr>)"
    "mmobjs s ob = Some new_anon" "ob \<noteq> sh"
  shows "mmo_put (Suc (Suc k)) env sh s = Ret () (s\<lparr>mmobjs := (mmobjs s)(ob := None, sh := None)\<rparr>)"
  using assms by (simp add: shadow_put_def anon_put_def object_put_def Let_def new_shadow_def new_anon_def fun_upd_twist)


lemma destroy_private:
  assumes m: "vmmaps s mp = Some \<lparr>vmn_list = [x], vmn_proc = q\<rparr>" and a: "vmareas s x = Some a" "vma_obj a = Some sh" "vma_olink a = Some ob"
      "has_flag (vma_flags a) (MAP_PRIVATE (cfg env))" and fuel: "2 \<le> chain_fuel env"
    and objs: "mmobjs s = private_objs x ob sh (mmobjs s0)" "ob \<noteq> sh"
      "mmobjs s0 ob = None" "mmobjs s0 sh = None"
  shows "vmmap_destroy env mp s = Ret () (s\<lparr>vmmaps := (vmmaps s)(mp := None), vmareas := (vmareas s)(x := None), mmobjs := mmobjs s0\<rparr>)"
proof -
  obtain k where k: "chain_fuel env = Suc (Suc k)" using fuel by (cases "chain_fuel env"; cases "chain_fuel env - 1") auto
  let ?h = "(mmobjs s0)(ob \<mapsto> new_anon, sh \<mapsto> new_shadow\<lparr>mmo_shadowed := Some ob, mmo_un_f := mmo_bottom_obj (Some ob)\<rparr>)"
  let ?s1 = "s\<lparr>vmmaps := (vmmaps s)(mp \<mapsto> \<lparr>vmn_list = [], vmn_proc = q\<rparr>)\<rparr>"
  let ?s2 = "?s1\<lparr>mmobjs := ?h\<rparr>"
  have unlink: "olink_remove x ?s1 = Ret () ?s2" using a objs by (simp add: olink_remove_def private_objs_def new_anon_def fun_upd_twist)
  have put: "mmo_put (chain_fuel env) env sh ?s2 = Ret () (?s2\<lparr>mmobjs := mmobjs s0\<rparr>)"
    using put_private [of ?s2 sh ob k env] objs(2,3,4) k by (simp add: fun_upd_twist fun_upd_idem)
  have rest: "destroy_areas env mp [x] s = Ret () (?s2\<lparr>mmobjs := mmobjs s0, vmareas := (vmareas s)(x := None)\<rparr>)"
    using m a unlink put by (simp add: plink_remove_def vmarea_free_def del: mmo_put.simps)
  show ?thesis using m rest by (simp add: vmmap_destroy_def)
qed

text \<open>
  C34: the test \<open>vmtest_map_destory\<close>. A new address space with one page of private anonymous memory that is destroyed again
  succeeds and gives the kernel back exactly as it was: the address space, its area, the shadow object and the anonymous
  object are freed and every other list and count is unchanged.
\<close>

theorem vmtest_map_destory_roundtrip:
  assumes num: "MAP_PRIVATE (cfg env) = 2" "PROT_READ (cfg env) OR PROT_WRITE (cfg env) OR PROT_EXEC (cfg env) = 7"
      "vmdir_of t 2 = VMMAP_DIR_HILO" and user: "user_lo (cfg env) < user_hi (cfg env)"
    and mem: "vmmap_slab env (vmmaps s) = Some mp" "map_room env s x ob sh" "allocs_fresh env" "2 \<le> chain_fuel env"
  shows "vmtest_map_destory env t s = Ret (Inr ()) s"
proof -
  let ?s0 = "s\<lparr>vmmaps := (vmmaps s)(mp \<mapsto> \<lparr>vmn_list = [], vmn_proc = None\<rparr>)\<rparr>"
  have mp: "vmmaps s mp = None" using mem(1,3) unfolding allocs_fresh_def by blast
  note fresh = map_roomD [OF mem(2,3)]
  have h: "holds_map ?s0 mp [] None" by (simp add: holds_map_def)
  have ok: "vmas_ok (cfg env) []" by (simp add: vmas_ok_def)
  have "unat (user_lo (cfg env)) + 1 \<le> unat (user_hi (cfg env))" using user by (simp add: word_less_nat_alt)
  then have room: "\<exists>v. free_range (cfg env) [] v 1" by (intro exI [of _ "user_lo (cfg env)"]) (simp add: free_range_def)
  obtain w where w: "choose_start env mp 0 1 VMMAP_DIR_HILO ?s0 = Ret (Inr (int (unat w), w)) ?s0" "free_range (cfg env) [] w 1"
    by (rule choose_start_highest [OF h ok _ room]) auto
  let ?a = "mapped_area env x w 1 7 2 0 ob sh"
  let ?t = "?s0\<lparr>mmobjs := private_objs x ob sh (mmobjs s), vmareas := (vmareas s)(x \<mapsto> ?a)\<rparr>"
  let ?u = "store_map \<lparr>vmm_id = mp, vmm_list = [?a\<lparr>vma_vmmap := Some mp\<rparr>], vmm_proc = None\<rparr> ?t"
  have a: "vmareas ?t x = Some ?a" "vma_id ?a = x" "vma_vmmap ?a = None" by (simp_all add: mapped_area_def)
  have ht: "holds_map ?t mp [] None" by (simp add: holds_map_def)
  have ins: "map_insert env mp x ?t = Ret () ?u"
    using map_insert_holds(1) [OF ht ok a _ mapped_area_ok(1) [OF w(2)]] by simp
  have prot: "NOT (PROT_NONE (cfg env) OR PROT_READ (cfg env) OR PROT_WRITE (cfg env) OR PROT_EXEC (cfg env)) AND 7 = 0"
  proof -
    have "NOT (p OR 7) AND 7 = 0" for p :: u32 by (rule bit_eqI) (auto simp: bit_simps)
    then show ?thesis using num(2) by (simp only: or.assoc)
  qed
  have mr: "map_room env ?s0 x ob sh" using mem(2) by (simp add: map_room_def)
  have "vmmap_map env mp None 0 1 7 2 0 VMMAP_DIR_HILO ?s0 = Ret (Inr (int (unat w), x)) ?u"
    using vmmap_map_private [OF w(1) _ _ prot _ _ _ mr mem(3), of 2 0] ins num(1)
    by (simp add: has_flag_def PAGE_ALIGNED_def PAGE_OFFSET_def)
  moreover have "vmmap_destroy env mp ?u = Ret () s"
    using destroy_private [of ?u mp x None "?a\<lparr>vma_vmmap := Some mp\<rparr>" sh ob env s] fresh mem(4) num(1) mp
    by (simp add: store_map_def mapped_area_def has_flag_def fun_upd_idem)
  ultimately show ?thesis using mem(1) num(3) by (simp add: vmtest_map_destory_def vmmap_create_def)
qed

text \<open>The test in a kernel with another address space, area and object.\<close>

definition example_tests :: testabi where
  "example_tests = bootabi.extend example_boot \<lparr>O_RDONLY = 0, O_WRONLY = 1, O_RDWR = 2,
     vmdir_of = (\<lambda>n. if n = 1 then VMMAP_DIR_LOHI else if n = 2 then VMMAP_DIR_HILO else VMMAP_DIR_OTHER),
     literal = (\<lambda>_. 0xB000), char_contents = 0xC000, func_addr = (\<lambda>_. 3), vfstest_main = Ret ()\<rparr>"

theorem vmtest_map_destory_roundtrip_witness: "vmtest_map_destory example_env example_tests wide_space = Ret (Inr ()) wide_space"
proof -
  have sel: "cfg example_env = example_cfg" "vmarea_slab example_env = first_free" "mmobj_slab example_env = first_free"
    "vmmap_slab example_env = first_free" "chain_fuel example_env = 16" by (simp_all add: example_env_def)
  have m: "map_room example_env wide_space 2 2 3" by (simp add: map_room_def sel first_free_def wide_space_simps)
  have v: "vmmap_slab example_env (vmmaps wide_space) = Some 2" by (simp add: sel first_free_def wide_space_simps)
  have d: "vmdir_of example_tests 2 = VMMAP_DIR_HILO" by (simp add: example_tests_def bootabi.extend_def)
  show ?thesis
    by (rule vmtest_map_destory_roundtrip [OF _ _ d _ v m example_env_fresh]) (simp_all add: sel example_cfg_def ADDR_TO_PN_def)
qed

section \<open>Tests of errors\<close>

text \<open>The tests that pass wrong arguments are refused before they change anything.\<close>

lemma test_open_refused: "test_open env s = Ret () s"
  by (simp add: test_open_def do_open_def)

lemma test_dup_refused:
  assumes "NFILES (cfg env) \<le> 50"
  shows "do_dup env 50 s = Ret (Inl EBADF) s" "do_dup env (-5) s = Ret (Inl EBADF) s"
  using assms by (simp_all add: do_dup_def bad_fd_def)

lemma test_write_bad_fd: "do_read env (-10) buf n s = Ret (Inl EBADF) s"
  by (simp add: do_read_def bad_fd_def)

end
