(* ===== verification/Mapinfo.thy ===== *)
theory Mapinfo
  imports Vmmap
begin

text \<open>
  The table of the areas of an address space that \<open>vmmap_mapping_info\<close> (\<open>src/kernel/vm/vmmap.c\<close>) writes into a buffer.
  \<open>vmmap_map\<close>, \<open>vmmap_remove\<close> and \<open>vmmap_write\<close> call it with a local buffer of 1024 bytes and drop the result. \<open>snprintf\<close>
  and its conversions are those of the C library; the text of a pointer, which C leaves open, is a parameter.
\<close>

section \<open>Formatted text\<close>

definition pad_left :: "char \<Rightarrow> nat \<Rightarrow> string \<Rightarrow> string" where
  "pad_left c n t = replicate (n - length t) c @ t"

definition hex_digit :: "nat \<Rightarrow> char" where "hex_digit d = ''0123456789abcdef'' ! (d mod 16)"

fun hex :: "nat \<Rightarrow> string" where
  "hex n = (if n < 16 then [hex_digit n] else hex (n div 16) @ [hex_digit n])"

declare hex.simps [simp del]

text \<open>The conversions \<open>%#.nx\<close> and \<open>%ns\<close>.\<close>

definition fmt_x :: "nat \<Rightarrow> u32 \<Rightarrow> string" where
  "fmt_x n w = (if w = 0 then '''' else ''0x'') @ pad_left CHR ''0'' n (hex (unat w))"

definition fmt_s :: "nat \<Rightarrow> string \<Rightarrow> string" where "fmt_s n t = pad_left CHR '' '' n t"

text \<open>\<open>snprintf\<close> writes the part of the text that fits with a zero byte behind it and returns the length of the whole text.\<close>

definition snprintf :: "u32 \<Rightarrow> int \<Rightarrow> string \<Rightarrow> int kop" where
  "snprintf buf sz t s =
     (let n = min (length t) (nat (sz - 1)) in
      Ret (int (length t))
        (if sz \<le> 0 then s
         else s\<lparr>kmem := (\<lambda>a. let i = unat (a - buf) in
                if i < n then of_char (t ! i) else if i = n then 0 else kmem s a)\<rparr>))"

section \<open>The table\<close>

definition info_header :: string where
  "info_header = fmt_s 21 ''VADDR RANGE'' @ '' '' @ fmt_s 5 ''PROT'' @ '' '' @ fmt_s 7 ''FLAGS'' @ '' ''
     @ fmt_s 8 ''MMOBJ'' @ '' '' @ fmt_s 10 ''OFFSET'' @ '' '' @ fmt_s 12 ''VFN RANGE'' @ [CHR 0x0A]"

definition info_row :: "kconfig \<Rightarrow> (ptr option \<Rightarrow> string) \<Rightarrow> vmarea \<Rightarrow> string" where
  "info_row c fmt_p vma =
     fmt_x 8 (push_bit 12 (vma_start vma)) @ ''-'' @ fmt_x 8 (push_bit 12 (vma_end vma)) @ ''  ''
     @ [if vma_prot vma AND PROT_READ c \<noteq> 0 then CHR ''r'' else CHR ''-'']
     @ [if vma_prot vma AND PROT_WRITE c \<noteq> 0 then CHR ''w'' else CHR ''-'']
     @ [if vma_prot vma AND PROT_EXEC c \<noteq> 0 then CHR ''x'' else CHR ''-''] @ ''  ''
     @ fmt_s 7 (if vma_flags vma AND MAP_SHARED c \<noteq> 0 then '' SHARED'' else ''PRIVATE'')
     @ '' 0x'' @ fmt_p (vma_obj vma) @ '' '' @ fmt_x 5 (vma_off vma) @ '' '' @ fmt_x 5 (vma_start vma)
     @ ''-'' @ fmt_x 5 (vma_end vma) @ [CHR 0x0A]"

text \<open>The loop over the areas; it gives the position in the buffer and the space that it leaves \<open>buf\<close> and \<open>size\<close> with.\<close>

primrec info_rows :: "kconfig \<Rightarrow> (ptr option \<Rightarrow> string) \<Rightarrow> vmarea list \<Rightarrow> u32 \<Rightarrow> int \<Rightarrow> int \<Rightarrow> (u32 \<times> int) kop" where
  "info_rows c fmt_p [] buf sz len s = Ret (buf, sz) s"
| "info_rows c fmt_p (vma # rest) buf sz len s =
     (let sz = sz - len; buf = buf + word_of_int len in
      if 0 \<ge> sz then Ret (buf, sz) s
      else bindK (snprintf buf sz (info_row c fmt_p vma) s) (\<lambda>len s. info_rows c fmt_p rest buf sz len s))"

definition vmmap_mapping_info :: "kenv \<Rightarrow> (ptr option \<Rightarrow> string) \<Rightarrow> ptr \<Rightarrow> u32 \<Rightarrow> u32 \<Rightarrow> u32 kop" where
  "vmmap_mapping_info env fmt_p mp buf osize s =
     bindK (kassert (0 < osize) s) (\<lambda>_ s.
     bindK (kassert (buf \<noteq> 0) s) (\<lambda>_ s.
     bindK (load_map mp s) (\<lambda>m s.
     bindK (snprintf buf (sint osize) info_header s) (\<lambda>len s.
     bindK (info_rows (cfg env) fmt_p (vmm_list m) buf (sint osize) len s) (\<lambda>(buf, sz) s.
       if sz \<le> 0
       then Ret (osize - osize) (s\<lparr>kmem := (kmem s)(buf + osize - 1 := 0)\<rparr>)
       else Ret (osize - word_of_int sz) s)))))"


section \<open>What is written where\<close>

text \<open>
  \<open>written B n W s s'\<close>: the buffer of \<open>n\<close> bytes at \<open>B\<close> holds the part of the text \<open>W\<close> that fits with a zero byte
  behind it, and nothing outside the buffer has changed.
\<close>

definition written :: "u32 \<Rightarrow> nat \<Rightarrow> string \<Rightarrow> kstate \<Rightarrow> kstate \<Rightarrow> bool" where
  "written B n W s s' \<longleftrightarrow> (\<exists>m. s' = s\<lparr>kmem := m\<rparr>)
     \<and> (\<forall>d. unat d < min (length W) (n - 1) \<longrightarrow> kmem s' (B + d) = of_char (W ! unat d))
     \<and> (\<forall>d. W \<noteq> [] \<and> unat d = min (length W) (n - 1) \<longrightarrow> kmem s' (B + d) = 0)
     \<and> (\<forall>d. n \<le> unat d \<longrightarrow> kmem s' (B + d) = kmem s (B + d))"

lemma unat_offset: "p < 2 ^ 31 \<Longrightarrow> unat ((d::u32) - of_nat p) = (if p \<le> unat d then unat d - p else 2 ^ 32 + unat d - p)"
  by (subst add.commute) (simp add: unat_sub_if' unat_of_nat)

lemma snprintf_appends:
  assumes w: "written B n W s s'" and len: "length W < n" "n < 2 ^ 31"
  obtains s'' where "snprintf (B + of_nat (length W)) (int n - int (length W)) t s' = Ret (int (length t)) s''" "written B n (W @ t) s s''"
proof -
  let ?p = "length W"
  define m where "m = min (length t) (n - Suc ?p)"
  let ?mem = "\<lambda>a. let i = unat (a - (B + of_nat ?p)) in if i < m then of_char (t ! i) else if i = m then 0 else kmem s' a"
  let ?s = "s'\<lparr>kmem := ?mem\<rparr>"
  have "nat (int n - int ?p - 1) = n - Suc ?p" by linarith
  then have r: "snprintf (B + of_nat ?p) (int n - int ?p) t s' = Ret (int (length t)) ?s"
    using len by (simp add: snprintf_def Let_def m_def cong: if_cong)
  have off: "unat (B + d - (B + of_nat ?p)) = (if ?p \<le> unat d then unat d - ?p else 2 ^ 32 + unat d - ?p)" for d
    using unat_offset [of ?p d] len by simp
  have "m \<le> n - Suc ?p" by (simp add: m_def)
  moreover have "n - Suc ?p < 2 ^ 32 + unat d - ?p" for d :: u32 using len by simp
  ultimately have lt: "m < 2 ^ 32 + unat d - ?p" for d :: u32 by (rule le_less_trans)
  have mem: "?mem (B + d) = (if ?p \<le> unat d then if unat d - ?p < m then of_char (t ! (unat d - ?p)) else if unat d - ?p = m then 0
      else kmem s' (B + d) else kmem s' (B + d))" for d
  proof (cases "?p \<le> unat d")
    case True
    then show ?thesis by (simp only: Let_def off if_True)
  next
    case False
    have "\<not> 2 ^ 32 + unat d - ?p < m" "2 ^ 32 + unat d - ?p \<noteq> m" using lt [of d] by (rule less_not_sym, rule less_imp_neq [symmetric])
    then show ?thesis by (simp only: Let_def off False if_False)
  qed
  have e: "min (length (W @ t)) (n - 1) = ?p + m" using len(1) by (auto simp: min_def m_def)
  have base: "\<exists>m. s' = s\<lparr>kmem := m\<rparr>" "\<And>d. unat d < ?p \<Longrightarrow> kmem s' (B + d) = of_char (W ! unat d)"
    "\<And>d. n \<le> unat d \<Longrightarrow> kmem s' (B + d) = kmem s (B + d)"
    using w len(1) unfolding written_def by (blast, simp, blast)
  have "written B n (W @ t) s ?s"
    unfolding written_def e
  proof (intro conjI allI impI)
    from base(1) obtain f where "s' = s\<lparr>kmem := f\<rparr>" by blast
    then have "?s = s\<lparr>kmem := ?mem\<rparr>" by simp
    then show "\<exists>m. ?s = s\<lparr>kmem := m\<rparr>" by blast
    have k: "kmem ?s = ?mem" by simp
    show "kmem ?s (B + d) = of_char ((W @ t) ! unat d)" if "unat d < ?p + m" for d
      unfolding k mem using that base(2) [of d] by (auto simp: nth_append)
    show "kmem ?s (B + d) = 0" if "W @ t \<noteq> [] \<and> unat d = ?p + m" for d unfolding k mem using that by simp
    show "kmem ?s (B + d) = kmem s (B + d)" if "n \<le> unat d" for d
      unfolding k mem using that base(3) [of d] len(1) \<open>m \<le> n - Suc ?p\<close> by auto
  qed
  with r show thesis using that by blast
qed


text \<open>
  The loop over the rows \<open>vs\<close> after the text \<open>W\<close>, which starts at position \<open>p\<close>. It moves past a text only when it comes to the
  next one, so that it leaves the position of the last text, or the first position that is behind the buffer.
\<close>

definition stops_at :: "nat \<Rightarrow> nat \<Rightarrow> string \<Rightarrow> string list \<Rightarrow> nat \<Rightarrow> bool" where
  "stops_at n p W ts k \<longleftrightarrow>
     (if ts = [] then k = p
      else if length W + length (concat (butlast ts)) < n then k = length W + length (concat (butlast ts))
      else n \<le> k \<and> k \<le> length W + length (concat (butlast ts)))"

lemma info_rows_written:
  assumes "written B n W s s'" and "n < 2 ^ 31" and "p < n" "p \<le> length W"
  shows "\<exists>k W' s''. info_rows c fmt_p vs (B + of_nat p) (int n - int p) (int (length W) - int p) s' = Ret (B + of_nat k, int n - int k) s''
    \<and> stops_at n p W (map (info_row c fmt_p) vs) k \<and> written B n W' s s'' \<and> (k < n \<longrightarrow> W' = W @ concat (map (info_row c fmt_p) vs))"
  using assms
proof (induction vs arbitrary: W s' p)
  case Nil
  then show ?case by (intro exI [of _ p] exI [of _ W] exI [of _ s']) (simp add: stops_at_def)
next
  case (Cons v vs)
  let ?r = "info_row c fmt_p"
  have pos: "B + of_nat p + word_of_int (int (length W) - int p) = B + of_nat (length W)"
    using Cons.prems(4) by (simp add: word_of_int_minus)
  show ?case
  proof (cases "length W < n")
    case True
    obtain s1 where s1: "snprintf (B + of_nat (length W)) (int n - int (length W)) (?r v) s' = Ret (int (length (?r v))) s1"
      "written B n (W @ ?r v) s s1" by (rule snprintf_appends [OF Cons.prems(1) True Cons.prems(2)])
    obtain k W' s'' where k: "info_rows c fmt_p vs (B + of_nat (length W)) (int n - int (length W)) (int (length (?r v))) s1
        = Ret (B + of_nat k, int n - int k) s''"
      "stops_at n (length W) (W @ ?r v) (map ?r vs) k" "written B n W' s s''" "k < n \<longrightarrow> W' = (W @ ?r v) @ concat (map ?r vs)"
      using Cons.IH [OF s1(2) Cons.prems(2) True] by auto
    have "info_rows c fmt_p (v # vs) (B + of_nat p) (int n - int p) (int (length W) - int p) s' = Ret (B + of_nat k, int n - int k) s''"
      using True pos s1(1) k(1) by (simp add: Let_def)
    moreover have "stops_at n p W (map ?r (v # vs)) k" using k(2) True by (auto simp: stops_at_def split: if_splits)
    ultimately show ?thesis using k(3,4) by (intro exI [of _ k] exI [of _ W'] exI [of _ s'']) simp
  next
    case False
    then show ?thesis using Cons.prems(1) pos
      by (intro exI [of _ "length W"] exI [of _ W] exI [of _ s']) (simp add: Let_def stops_at_def)
  qed
qed


lemma written_Nil: "written B n [] s s"
  by (simp add: written_def) (metis kstate.update_convs(1) kstate.surjective)

definition info_texts :: "kconfig \<Rightarrow> (ptr option \<Rightarrow> string) \<Rightarrow> vmmap \<Rightarrow> string list" where
  "info_texts c fmt_p m = map (info_row c fmt_p) (vmm_list m)"

definition info_length :: "string list \<Rightarrow> nat" where
  "info_length ts = length info_header + length (concat (butlast ts))"

text \<open>
  C38: the table of the areas. When the header and all rows but the last fit into the buffer, it holds the table, cut at
  its end, no other byte of memory changes, and the result is the length of the table without its last row. When they do not
  fit, the call returns 0 and clears a byte behind the buffer: the one that lies the length of the buffer, less one, behind the position where
  the loop has stopped, which is itself at or behind the end of the buffer.
\<close>

theorem mapping_info_correct:
  assumes m: "load_map mp s = Ret m s" and ts: "info_texts (cfg env) fmt_p m = ts"
    and buf: "buf \<noteq> 0" "0 < osize" "unat osize = n" "n < 2 ^ 31"
  shows "(ts = [] \<or> info_length ts < n \<longrightarrow>
      (\<exists>s'. vmmap_mapping_info env fmt_p mp buf osize s = Ret (if ts = [] then 0 else of_nat (info_length ts)) s'
        \<and> written buf n (info_header @ concat ts) s s'))
    \<and> (ts \<noteq> [] \<and> n \<le> info_length ts \<longrightarrow> (\<exists>k W s1. n \<le> k \<and> k \<le> info_length ts \<and> written buf n W s s1
        \<and> vmmap_mapping_info env fmt_p mp buf osize s = Ret 0 (s1\<lparr>kmem := (kmem s1)(buf + of_nat (k + n - 1) := 0)\<rparr>)))"
proof -
  have n: "0 < n" "n < 2 ^ 31" "sint osize = int n" using buf by (auto simp: word_less_nat_alt sint_small)
  obtain s1 where s1: "snprintf buf (int n) info_header s = Ret (int (length info_header)) s1" "written buf n info_header s s1"
    using snprintf_appends [OF written_Nil [of buf n s], of info_header] n by auto
  obtain k W s2 where k: "info_rows (cfg env) fmt_p (vmm_list m) buf (int n) (int (length info_header)) s1 = Ret (buf + of_nat k, int n - int k) s2"
    "stops_at n 0 info_header ts k" "written buf n W s s2" "k < n \<longrightarrow> W = info_header @ concat ts"
    using info_rows_written [OF s1(2) n(2,1), of "cfg env" fmt_p "vmm_list m"] using ts unfolding info_texts_def by auto
  have o: "osize = of_nat n" using buf(3) by auto
  have run: "vmmap_mapping_info env fmt_p mp buf osize s =
      (if n \<le> k then Ret 0 (s2\<lparr>kmem := (kmem s2)(buf + of_nat (k + n - 1) := 0)\<rparr>) else Ret (of_nat k) s2)"
    using m buf s1(1) k(1) n by (auto simp: vmmap_mapping_info_def o of_nat_diff word_of_int_minus algebra_simps)
  have "k = (if ts = [] then 0 else info_length ts)" if "ts = [] \<or> info_length ts < n" using k(2) that by (auto simp: stops_at_def info_length_def)
  moreover have "n \<le> k \<and> k \<le> info_length ts" if "ts \<noteq> [] \<and> n \<le> info_length ts" using k(2) that by (auto simp: stops_at_def info_length_def)
  ultimately show ?thesis using run k(3,4) n(1) by auto
qed

text \<open>The table of an address space with one area in a buffer of 64 bytes, which is shorter than the header.\<close>

theorem mapping_info_correct_witness:
  "\<exists>k W s1. 64 \<le> k \<and> k \<le> 69 \<and> written 0x5000 64 W example_space s1
    \<and> vmmap_mapping_info example_env (\<lambda>_. ''c0ffee00'') 1 0x5000 64 example_space
        = Ret 0 (s1\<lparr>kmem := (kmem s1)(0x5000 + of_nat (k + 64 - 1) := 0)\<rparr>)"
proof -
  let ?row = "info_row (cfg example_env) (\<lambda>_. ''c0ffee00'') example_area"
  have ts: "info_texts (cfg example_env) (\<lambda>_. ''c0ffee00'') \<lparr>vmm_id = 1, vmm_list = [example_area], vmm_proc = Some 1\<rparr> = [?row]"
    by (simp add: info_texts_def)
  have len: "info_length [?row] = 69" by (simp add: info_length_def info_header_def fmt_s_def pad_left_def)
  have "[?row] \<noteq> [] \<and> 64 \<le> info_length [?row]" unfolding len by simp
  then show ?thesis
    using mapping_info_correct [OF example_space_loaded ts, of "0x5000" 64 64] unfolding len by simp
qed

end
