(* ===== verification/Spec2Isabelle.thy ===== *)
theory Spec2Isabelle
  imports Syscall Boot Heap Ktests Mapinfo
begin

text \<open>
  Verification development of the Weenix kernel, the C sources under \<open>src/kernel\<close>.

  \<^bold>\<open>The program.\<close> The scheduler (\<open>proc/sched.c\<close>) keeps a run queue and wait queues of kernel threads; mutexes
  (\<open>proc/kmutex.c\<close>) hand themselves over to their waiters. Page frames (\<open>mm/pframe.c\<close>) cache the pages
  of memory objects: anonymous objects (\<open>vm/anon.c\<close>), shadow objects (\<open>vm/shadow.c\<close>) that copy a page
  on the first write, and the objects of vnodes (\<open>fs/vnode.c\<close>). An address space (\<open>vm/vmmap.c\<close>) is an
  ordered list of areas, each a window on a memory object; the page fault handler
  (\<open>vm/pagefault.c\<close>), \<open>mmap\<close>, \<open>munmap\<close> and \<open>brk\<close> (\<open>vm/mmap.c\<close>, \<open>vm/brk.c\<close>) and the copies from and to user
  memory (\<open>api/access.c\<close>) work on it. Paths are resolved by \<open>fs/namev.c\<close>, files are opened by \<open>fs/open.c\<close> and used
  by the calls of \<open>fs/vfs_syscall.c\<close>. Processes and threads are created, waited for and ended by
  \<open>proc/proc.c\<close> and \<open>proc/kthread.c\<close>, and duplicated by \<open>proc/fork.c\<close>. A process enters the kernel through the system
  call handler of \<open>api/syscall.c\<close>, which copies arguments and results and calls all of these; \<open>main/kmain.c\<close> makes the
  first two processes and shuts the kernel down.

  \<^bold>\<open>The theories\<close>, each with the sources it translates:
  \<^item> \<open>Kprelude\<close>: words, error numbers, constants of the build, the result type \<open>kres\<close>, page arithmetic,
    byte memory, and the lemmas the components share.
  \<^item> \<open>Sched\<close> (\<open>proc/sched.c\<close>) and \<open>Kmutex\<close> (\<open>proc/kmutex.c\<close>): polymorphic in the rest of the state, so that
    the kernel state extends theirs. The locale \<open>wait_queue\<close> is the contract of a queue of sleepers.
  \<^item> \<open>Vmarea\<close> (\<open>vm/vmmap.c\<close>): the operations on the list of areas of one address space as pure
    functions; \<open>Vmmap\<close> runs them on the heap and adds the operations that allocate, free and link.
  \<^item> \<open>Kstate\<close>: the state of the kernel, one heap per C structure, and the environment of code outside the
    sources. \<open>Mmobj\<close>, \<open>Pframe\<close> and \<open>Pager\<close> (\<open>mm/pframe.c\<close>, \<open>vm/anon.c\<close>, \<open>vm/shadow.c\<close>, \<open>fs/vnode.c\<close>): memory
    objects and page frames. \<open>Pager\<close> ties the knot of the operation tables, whose entries call each other.
  \<^item> \<open>Vnode\<close> (\<open>fs/vnode.c\<close>), \<open>Namev\<close> (\<open>fs/namev.c\<close>) and \<open>Vfs\<close> (\<open>fs/open.c\<close>, \<open>fs/vfs_syscall.c\<close>). The locale \<open>heap_scan\<close>
    is the contract of a loop over a list of structures that stops at the first hit; the searches for
    vnodes, processes and dead children are its interpretations.
  \<^item> \<open>Access\<close> (\<open>api/access.c\<close>), \<open>Mmap\<close> (\<open>vm/mmap.c\<close>, \<open>vm/brk.c\<close>), \<open>Proc\<close> (\<open>proc/kthread.c\<close>, \<open>proc/proc.c\<close>) and \<open>Fork\<close>
    (\<open>proc/fork.c\<close>, \<open>vm/pagefault.c\<close>). \<open>Unmap\<close> proves what \<open>vmmap_remove\<close> of \<open>Vmmap\<close> and \<open>pframe_remove_from_pts\<close> of \<open>Pframe\<close> do to
    the page view of address spaces, \<open>Mapanon\<close> what \<open>vmmap_map\<close> and
    \<open>do_mmap\<close> do with anonymous memory, \<open>Heap\<close> what \<open>do_brk\<close> does, and \<open>Usercopy\<close> what the copies of \<open>Access\<close> do to memory.
  \<^item> \<open>Mapinfo\<close> (\<open>vm/vmmap.c\<close>): the table of areas that \<open>vmmap_mapping_info\<close> writes, with \<open>snprintf\<close> of the C library. The calls that
    \<open>vmmap_map\<close>, \<open>vmmap_remove\<close> and \<open>vmmap_write\<close> make to it with a local buffer are not part of their definitions.
  \<^item> \<open>Syscall\<close> (\<open>api/syscall.c\<close>) and \<open>Boot\<close> (\<open>main/kmain.c\<close>). The layout of arguments, the numbers of the calls and the
    code that is called outside the sources are the records \<open>sysabi\<close> and \<open>bootabi\<close>, parameters. \<open>Ktests\<close> holds the tests of the
    kernel shell in \<open>main/kmain.c\<close> as sequences of the modelled calls.

  \<^bold>\<open>How code becomes a definition.\<close> An operation is a function of the state with result \<open>Ret v s\<close>, \<open>Gone s\<close> when the
  thread gave up the processor for good, or \<open>Stop r\<close> when the run ends: a failed assertion, a
  pointer to nothing (which stands for null, freed and unlinked structures alike), exhausted fuel, or a place behind which
  the model does not follow the code (\<open>NOT_FOLLOWED\<close>: a link is removed from a list of areas that a second insertion of the
  same link has damaged, or such a list goes round for ever). The inline functions \<open>mmobj_bottom_obj\<close> and \<open>mmobj_bottom_vmas\<close> of a
  header outside the sources are read off the field \<open>mmo_un\<close>, as \<open>vmmap_map\<close>, \<open>vmmap_remove\<close> and \<open>do_fork\<close> set it; the macros on
  lists are the operations of a circular list with links in both directions, where the link of an area is \<open>vma_olink\<close>. Every
  field that the code changes is a field of the model; addresses and page numbers are 32-bit words with the
  wrap-around of C, and the constants of the build are the record \<open>kconfig\<close>, a parameter. Calls that leave the sources (slab
  allocators, file systems, devices, page tables, the context switch) are fields of the environment; what
  a theorem needs of them is a named hypothesis such as \<open>file_laws\<close>. Operations of the hardware are logged in
  \<open>hwlog\<close> in their order.

  \<^bold>\<open>Fuel.\<close> Loops over lists are structural. \<open>sched_broadcast_on\<close> and the loops that unpin and free pages take the
  length of the list or the pin count, which one iteration decreases. The calls between
  memory objects recurse down the chain of shadow objects with the fuel \<open>chain_fuel\<close>; the theorems on them are
  total and name the depth that suffices. Loops that wait for another thread
  (\<open>intr_wait_loop\<close>, \<open>wait_loop\<close>, \<open>wait_busy\<close>, \<open>pageout_loop\<close>) are bounded by a parameter, and
  no theorem depends on its value beyond one round; the invariants of the scheduler and of mutexes hold for every bound and for every
  effect of an interrupt that only wakes threads. The loops of \<open>sys_read\<close> and \<open>sys_write\<close> are total, because
  the number of bytes left decreases; the loop of \<open>sys_getdents\<close> has fuel, and \<open>getdents_loop_terminates\<close> says how much is
  enough. The loops that free a vector of strings and that run the kernel shell end when memory or the shell says so and are
  bounded by a parameter, and so are the loops of the tests. \<open>proc_getid\<close> is bounded by \<open>PROC_MAX_COUNT\<close> and
  proved to return; \<open>pframe_clean_all\<close> is bounded by a parameter and proved to return when the file system writes every page,
  and never to return when it writes none.

  \<^bold>\<open>What is shown.\<close> No thread is lost and yields reach every runnable thread; mutexes are handed over in order and
  waiters always have a holder. Address spaces stay ordered and disjoint, and free ranges are found exactly when
  they exist, unless the address space is empty. Copy on write copies the right page and touches no other; anonymous pages are zero; the last reference
  frees pages and object; page lists and pins stay consistent. Across components: after a fork both processes read the
  pages of a private area through shadow objects of their own, a write fault gives one of them a copy that the other does not see, and
  a read fault shares; \<open>mmap\<close> adds exactly the highest free range, unmapping removes exactly the range unless it splits a private area or frees a bottom
  object, \<open>brk\<close> maps the heap and moves exactly its end while another area follows it, a page that leaves the page tables leaves them exactly where
  a process has it in its view, and an address space that is made, used for a private page and destroyed leaves the kernel as it was; a copy from user memory, and a write through the system call, deliver the
  bytes the process sees; the handler of system calls returns only to threads that are not cancelled, with the result of the
  call. Process numbers stay unique and the kernel boots with the idle and the init process. Descriptor tables and
  reference counts of files stay balanced under every sequence of calls; paths resolve by components; \<open>waitpid\<close> reaps
  exactly the first dead child; permission checks of ranges that do not wrap agree with the checks of each byte. Some
  theorems state where the code does not do what it means to do: copies across pages drop a byte, ranges
  that wrap are permitted, failed reads move the position, a page whose filling failed is later
  returned as good, copies to user memory write through copy on write, splitting a private area loses
  areas from the list that page table entries are removed by, cleaning all pages never ends when a page cannot be written, system calls lose pages, hand out old contents of kernel memory and overrun buffers, and the table of areas is
  terminated behind its buffer when it does not fit.

  \<^bold>\<open>Not modelled.\<close> \<open>kmain\<close> itself, which calls the initialisation of the hardware, and the branches of \<open>initproc_run\<close> that are not
  selected; the functions that print a process for the debugger (\<open>proc_info\<close>, \<open>proc_list_info\<close>) with a printing function outside the
  sources; the thread functions of the tests that only return; the creation of allocators, and code under options the
  build does not set (\<open>__MTP__\<close>, \<open>__MOUNTING__\<close>, \<open>__GETCWD__\<close>).
\<close>

end
